(* ===== verification/Rtpbridge_Prelude.thy ===== *)
theory Rtpbridge_Prelude
  imports Main "HOL-Library.Word" "HOL-Library.AList"
begin

unbundle bit_operations_syntax

text \<open>
  What the component theories share: the machine types of the Rust source, big-endian
  byte strings, saturating arithmetic, instants and durations, and the two standard
  containers the code keeps its per-stream state in (hash maps and ordered maps), the
  latter stated as interfaces and implemented on association lists.

  Conventions.  \<open>u8\<close>, \<open>u16\<close>, \<open>u32\<close> and \<open>u64\<close> are words of that width, so that
  every \<open>wrapping_\<close> operation is the word operation, and so is a plain \<open>+\<close> or \<open>-\<close>
  of the release build, which compiles without overflow checks.  A \<open>usize\<close> is a
  \<open>nat\<close>: it only counts bytes or entries of vectors in memory.  An \<open>Instant\<close> is an
  \<open>int\<close> and a \<open>Duration\<close> a \<open>nat\<close>, both in nanoseconds; a function that reads the
  clock takes the instant it reads as an argument.
\<close>

section \<open>Machine types\<close>

type_synonym u8 = "8 word"
type_synonym u16 = "16 word"
type_synonym u32 = "32 word"
type_synonym u64 = "64 word"
type_synonym i16 = "16 word"
type_synonym bytes = "8 word list"
type_synonym instant = int
type_synonym duration = nat
type_synonym endpoint_id = "128 word"

named_theorems be_simps \<open>big-endian encoding and decoding\<close>
named_theorems map_simps \<open>lookup laws of the containers\<close>

section \<open>Big-endian byte strings\<close>

definition from_be16 :: "u8 \<Rightarrow> u8 \<Rightarrow> u16" where
  "from_be16 b0 b1 = push_bit 8 (ucast b0) OR ucast b1"

definition from_be32 :: "u8 \<Rightarrow> u8 \<Rightarrow> u8 \<Rightarrow> u8 \<Rightarrow> u32" where
  "from_be32 b0 b1 b2 b3 = push_bit 16 (ucast (from_be16 b0 b1)) OR ucast (from_be16 b2 b3)"

definition from_be64 :: "u8 \<Rightarrow> u8 \<Rightarrow> u8 \<Rightarrow> u8 \<Rightarrow> u8 \<Rightarrow> u8 \<Rightarrow> u8 \<Rightarrow> u8 \<Rightarrow> u64" where
  "from_be64 b0 b1 b2 b3 b4 b5 b6 b7 =
     push_bit 32 (ucast (from_be32 b0 b1 b2 b3)) OR ucast (from_be32 b4 b5 b6 b7)"

definition to_be16 :: "u16 \<Rightarrow> bytes" where
  "to_be16 w = [ucast (drop_bit 8 w), ucast w]"

definition to_be32 :: "u32 \<Rightarrow> bytes" where
  "to_be32 w = to_be16 (ucast (drop_bit 16 w)) @ to_be16 (ucast w)"

definition to_be64 :: "u64 \<Rightarrow> bytes" where
  "to_be64 w = to_be32 (ucast (drop_bit 32 w)) @ to_be32 (ucast w)"

lemma length_to_be [simp]:
  "length (to_be16 a) = 2" "length (to_be32 b) = 4" "length (to_be64 c) = 8"
  by (simp_all add: to_be16_def to_be32_def to_be64_def)

text \<open>Cutting a word in two halves and joining them again, and the other way round.\<close>

lemma bit_word_beyond: "LENGTH('a) \<le> k \<Longrightarrow> \<not> bit (w :: 'a::len word) (k + n)"
  by (auto dest: bit_imp_le_length)

lemma join_split16: "push_bit 8 (ucast (ucast (drop_bit 8 w) :: u8)) OR ucast (ucast w :: u8) = w"
  for w :: u16
  by (rule bit_word_eqI) (auto simp: bit_simps)

lemma join_split32: "push_bit 16 (ucast (ucast (drop_bit 16 w) :: u16)) OR ucast (ucast w :: u16) = w"
  for w :: u32
  by (rule bit_word_eqI) (auto simp: bit_simps)

lemma join_split64: "push_bit 32 (ucast (ucast (drop_bit 32 w) :: u32)) OR ucast (ucast w :: u32) = w"
  for w :: u64
  by (rule bit_word_eqI) (auto simp: bit_simps)

lemma split_join16:
  "ucast (drop_bit 8 (push_bit 8 (ucast a) OR ucast b :: u16)) = a"
  "ucast (push_bit 8 (ucast a) OR ucast b :: u16) = b" for a b :: u8
  by (auto simp: bit_simps bit_word_beyond intro!: bit_word_eqI)

lemma split_join32:
  "ucast (drop_bit 16 (push_bit 16 (ucast a) OR ucast b :: u32)) = a"
  "ucast (push_bit 16 (ucast a) OR ucast b :: u32) = b" for a b :: u16
  by (auto simp: bit_simps bit_word_beyond intro!: bit_word_eqI)

lemma split_join64:
  "ucast (drop_bit 32 (push_bit 32 (ucast a) OR ucast b :: u64)) = a"
  "ucast (push_bit 32 (ucast a) OR ucast b :: u64) = b" for a b :: u32
  by (auto simp: bit_simps bit_word_beyond intro!: bit_word_eqI)

text \<open>Reading back what was written, byte by byte as the parsers read it.\<close>

lemma from_to_be16 [be_simps]:
  "from_be16 (to_be16 w ! 0) (to_be16 w ! Suc 0) = w"
  by (simp add: to_be16_def from_be16_def join_split16)

lemma from_to_be32 [be_simps]:
  "from_be32 (to_be32 w ! 0) (to_be32 w ! Suc 0) (to_be32 w ! 2) (to_be32 w ! 3) = w"
  by (simp add: to_be32_def to_be16_def from_be32_def from_be16_def join_split16 join_split32)

lemma from_to_be64 [be_simps]:
  "from_be64 (to_be64 w ! 0) (to_be64 w ! Suc 0) (to_be64 w ! 2) (to_be64 w ! 3)
     (to_be64 w ! 4) (to_be64 w ! 5) (to_be64 w ! 6) (to_be64 w ! 7) = w"
  by (simp add: to_be64_def to_be32_def to_be16_def from_be64_def from_be32_def from_be16_def
      join_split16 join_split32 join_split64)

lemma to_from_be16 [be_simps]: "to_be16 (from_be16 a b) = [a, b]"
  unfolding to_be16_def from_be16_def split_join16 ..

lemma to_from_be32 [be_simps]: "to_be32 (from_be32 a b c d) = [a, b, c, d]"
  unfolding to_be32_def from_be32_def split_join32 to_from_be16 by simp

lemma to_be16_inject [simp]: "to_be16 v = to_be16 w \<longleftrightarrow> v = w"
  by (metis from_to_be16)

lemma to_be32_inject [simp]: "to_be32 v = to_be32 w \<longleftrightarrow> v = w"
  by (metis from_to_be32)

lemma to_be64_inject [simp]: "to_be64 v = to_be64 w \<longleftrightarrow> v = w"
  by (metis from_to_be64)

text \<open>The numbers the bytes stand for.\<close>

lemma unat_u8_less: "unat (w :: u8) < 256"
  using unsigned_less [where ?'a = nat, of w] by simp

lemma unat_u16_less: "unat (w :: u16) < 65536"
  using unsigned_less [where ?'a = nat, of w] by simp

lemma unat_u32_less: "unat (w :: u32) < 4294967296"
  using unsigned_less [where ?'a = nat, of w] by simp

lemma unat_u64_less: "unat (w :: u64) < 18446744073709551616"
  using unsigned_less [where ?'a = nat, of w] by simp

lemma unat_of_nat_small:
  "n < 65536 \<Longrightarrow> unat (of_nat n :: u16) = n"
  "m < 4294967296 \<Longrightarrow> unat (of_nat m :: u32) = m"
  "k < 18446744073709551616 \<Longrightarrow> unat (of_nat k :: u64) = k"
  by (simp_all add: unat_of_nat)

lemma unat_from_be16 [be_simps]: "unat (from_be16 a b) = unat a * 256 + unat b"
proof -
  have lo: "unat (ucast b :: u16) = unat b" for b :: u8
    using unat_u8_less [of b] by (simp add: unsigned_ucast_eq take_bit_eq_mod)
  have hi: "unat (push_bit 8 (ucast a) :: u16) = unat a * 256"
    using unat_u8_less [of a] by (simp add: push_bit_eq_mult unat_word_ariths lo)
  have "from_be16 a b = push_bit 8 (ucast a) + ucast b"
    unfolding from_be16_def
    by (rule disjunctive_add [symmetric]) (auto simp: bit_simps dest: bit_imp_le_length)
  then have "unat (from_be16 a b) = (unat a * 256 + unat b) mod 2 ^ 16"
    by (simp add: unat_word_ariths hi lo)
  then show ?thesis
    using unat_u8_less [of a] unat_u8_less [of b] by simp
qed

section \<open>Saturating and checked arithmetic\<close>

definition saturating_add :: "'a::len word \<Rightarrow> 'a word \<Rightarrow> 'a word" where
  "saturating_add a b = (if unat a + unat b < 2 ^ LENGTH('a) then a + b else - 1)"

definition saturating_sub :: "'a::len word \<Rightarrow> 'a word \<Rightarrow> 'a word" where
  "saturating_sub a b = (if b \<le> a then a - b else 0)"

lemma unat_saturating_add:
  "unat (saturating_add a b) = min (unat a + unat b) (2 ^ LENGTH('a) - 1)"
  for a b :: "'a::len word"
proof (cases "unat a + unat b < 2 ^ LENGTH('a)")
  case True
  then have "unat (a + b) = unat a + unat b"
    by (metis unat_word_ariths(1) mod_less)
  with True show ?thesis by (simp add: saturating_add_def)
next
  case False
  moreover have "unat (- 1 :: 'a word) = 2 ^ LENGTH('a) - 1"
    unfolding unsigned_minus_1_eq_mask mask_eq_exp_minus_1 ..
  ultimately show ?thesis by (simp add: saturating_add_def)
qed

lemma unat_saturating_sub: "unat (saturating_sub a b) = unat a - unat b"
  by (auto simp: saturating_sub_def unat_sub word_le_nat_alt)

section \<open>Instants and durations\<close>

definition from_millis :: "nat \<Rightarrow> duration" where
  "from_millis n = n * 1000000"

definition from_micros :: "nat \<Rightarrow> duration" where
  "from_micros n = n * 1000"

definition as_millis :: "duration \<Rightarrow> nat" where
  "as_millis d = d div 1000000"

definition as_micros :: "duration \<Rightarrow> nat" where
  "as_micros d = d div 1000"

definition saturating_duration_since :: "instant \<Rightarrow> instant \<Rightarrow> duration" where
  "saturating_duration_since later earlier = nat (later - earlier)"

section \<open>Runs of an operation\<close>

text \<open>The results of an operation applied to a sequence of inputs, threading its state, and the
  state it leaves.\<close>

fun results_with :: "('s \<Rightarrow> 'p \<Rightarrow> 'r \<times> 's) \<Rightarrow> 's \<Rightarrow> 'p list \<Rightarrow> 'r list" where
  "results_with f s [] = []"
| "results_with f s (p # ps) = fst (f s p) # results_with f (snd (f s p)) ps"

fun state_with :: "('s \<Rightarrow> 'p \<Rightarrow> 'r \<times> 's) \<Rightarrow> 's \<Rightarrow> 'p list \<Rightarrow> 's" where
  "state_with f s [] = s"
| "state_with f s (p # ps) = state_with f (snd (f s p)) ps"

lemma length_results_with [simp]: "length (results_with f s ps) = length ps"
  by (induction ps arbitrary: s) simp_all

lemma state_with_inv:
  "(\<And>s p. P s \<Longrightarrow> P (snd (f s p))) \<Longrightarrow> P s \<Longrightarrow> P (state_with f s ps)"
  by (induction ps arbitrary: s) simp_all

text \<open>The value of a successful result.\<close>

definition result_ok :: "'e + 'a \<Rightarrow> 'a option" where
  "result_ok r = (case r of Inl _ \<Rightarrow> None | Inr a \<Rightarrow> Some a)"

lemma result_ok_simps [simp]: "result_ok (Inl e) = None" "result_ok (Inr a) = Some a"
  by (simp_all add: result_ok_def)

end
