(* ===== verification/Pcm_Frames.thy ===== *)
theory Pcm_Frames
  imports Rtpbridge_Prelude
begin

text \<open>
  Bounded 20 ms reframing of PCM (\<open>src/src/media/pcm_frames.rs\<close>): short packets
  accumulate, long ones yield every complete frame.  The queue of samples is a list, the
  draining \<open>while\<close> loop a recursive function, and the \<open>ensure!\<close> at the entry of
  \<open>push\<close> the error branch, which leaves the state alone.
\<close>

section \<open>Definitions\<close>

record pcm_frames =
  pf_samples :: "i16 list"
  pf_frame :: nat

datatype pcm_error = PacketExceeds120Ms

definition PcmFrames_new :: "u32 \<Rightarrow> pcm_frames" where
  "PcmFrames_new rate = \<lparr>pf_samples = [], pf_frame = unat (rate div 50)\<rparr>"

definition PcmFrames_clear :: "pcm_frames \<Rightarrow> pcm_frames" where
  "PcmFrames_clear p = p\<lparr>pf_samples := []\<rparr>"

definition PcmFrames_is_empty :: "pcm_frames \<Rightarrow> bool" where
  "PcmFrames_is_empty p \<longleftrightarrow> pf_samples p = []"

text \<open>The loop of \<open>push\<close>: frames taken off the front while a whole one is there.\<close>

fun drain_frames :: "nat \<Rightarrow> 'a list \<Rightarrow> 'a list list \<times> 'a list" where
  "drain_frames frame samples =
     (if 0 < frame \<and> frame \<le> length samples then
        let (frames, rest) = drain_frames frame (drop frame samples)
        in (take frame samples # frames, rest)
      else ([], samples))"

declare drain_frames.simps [simp del]

definition PcmFrames_push ::
  "pcm_frames \<Rightarrow> i16 list \<Rightarrow> (pcm_error + i16 list list) \<times> pcm_frames" where
  "PcmFrames_push p pcm =
     (if \<not> (0 < pf_frame p \<and> length pcm \<le> pf_frame p * 6) then (Inl PacketExceeds120Ms, p)
      else
        let (frames, rest) = drain_frames (pf_frame p) (pf_samples p @ pcm)
        in (Inr frames, p\<lparr>pf_samples := rest\<rparr>))"

text \<open>A run of pushes: the frames they yield, errors skipped, and what was accepted.\<close>

fun push_all :: "pcm_frames \<Rightarrow> i16 list list \<Rightarrow> i16 list list \<times> i16 list \<times> pcm_frames" where
  "push_all p [] = ([], [], p)"
| "push_all p (pcm # rest) =
     (case PcmFrames_push p pcm of
        (Inl _, p') \<Rightarrow> push_all p' rest
      | (Inr frames, p') \<Rightarrow>
          (let (more, accepted, p'') = push_all p' rest
           in (frames @ more, pcm @ accepted, p'')))"

section \<open>Lemmas\<close>

lemma drain_frames_concat:
  "drain_frames f xs = (fs, r) \<Longrightarrow> concat fs @ r = xs"
proof (induction f xs arbitrary: fs r rule: drain_frames.induct)
  case (1 f xs)
  show ?case
  proof (cases "0 < f \<and> f \<le> length xs")
    case True
    obtain gs s where rec: "drain_frames f (drop f xs) = (gs, s)" by force
    with True "1.prems" have "fs = take f xs # gs" and "r = s"
      by (auto simp: drain_frames.simps [of f xs])
    with "1.IH" [OF True rec] show ?thesis by simp
  next
    case False
    with "1.prems" show ?thesis by (auto simp: drain_frames.simps [of f xs])
  qed
qed

lemma drain_frames_lengths:
  "drain_frames f xs = (fs, r) \<Longrightarrow> 0 < f \<Longrightarrow> (\<forall>g \<in> set fs. length g = f) \<and> length r < f"
proof (induction f xs arbitrary: fs r rule: drain_frames.induct)
  case (1 f xs)
  show ?case
  proof (cases "f \<le> length xs")
    case True
    obtain gs s where rec: "drain_frames f (drop f xs) = (gs, s)" by force
    with True "1.prems" have "fs = take f xs # gs" and "r = s"
      by (auto simp: drain_frames.simps [of f xs])
    with "1.IH" [OF _ rec] True "1.prems"(2) show ?thesis by auto
  next
    case False
    with "1.prems" show ?thesis by (auto simp: drain_frames.simps [of f xs])
  qed
qed

text \<open>The invariant the comment in \<open>push\<close> states: the retained tail is shorter than one frame.\<close>

definition pcm_inv :: "pcm_frames \<Rightarrow> bool" where
  "pcm_inv p \<longleftrightarrow> pf_frame p = 0 \<and> pf_samples p = [] \<or> length (pf_samples p) < pf_frame p"

lemma pcm_inv_new: "pcm_inv (PcmFrames_new rate)"
  by (auto simp: pcm_inv_def PcmFrames_new_def)

lemma PcmFrames_push_step:
  assumes "PcmFrames_push p pcm = (res, p')" and "pcm_inv p"
  shows "pcm_inv p'" and "pf_frame p' = pf_frame p"
    and "res = Inr frames \<Longrightarrow> concat frames @ pf_samples p' = pf_samples p @ pcm
           \<and> (\<forall>g \<in> set frames. length g = pf_frame p)"
    and "res = Inl e \<Longrightarrow> p' = p"
  using assms drain_frames_concat drain_frames_lengths
  by (fastforce simp: PcmFrames_push_def pcm_inv_def split: if_splits prod.splits)+

text \<open>No packet of at most 120 ms is refused: when every packet is within six frames, all of
  them are accepted in order.\<close>

lemma pcm_frames_accept_all:
  assumes "\<forall>pcm \<in> set pcms. length pcm \<le> pf_frame p * 6" and "0 < pf_frame p"
  shows "\<exists>frames p'. push_all p pcms = (frames, concat pcms, p')"
  using assms
proof (induction pcms arbitrary: p)
  case (Cons pcm rest)
  obtain fs r where drained: "drain_frames (pf_frame p) (pf_samples p @ pcm) = (fs, r)" by force
  define q where "q = p\<lparr>pf_samples := r\<rparr>"
  have push: "PcmFrames_push p pcm = (Inr fs, q)"
    using Cons.prems drained by (simp add: PcmFrames_push_def q_def)
  have "pf_frame q = pf_frame p" by (simp add: q_def)
  with Cons obtain more q' where "push_all q rest = (more, concat rest, q')"
    by fastforce
  with push show ?case by simp
qed simp

section \<open>Properties\<close>

text \<open>C24.  Reframing loses, reorders and invents no sample: over any sequence of packets the
  frames handed out, followed by the retained tail, are exactly the samples of the accepted
  packets; every frame holds exactly 20 ms and the tail is always shorter than a frame.\<close>

theorem pcm_frames_conserve:
  assumes "push_all p pcms = (frames, accepted, p')" and "pcm_inv p"
  shows "concat frames @ pf_samples p' = pf_samples p @ accepted
    \<and> (\<forall>g \<in> set frames. length g = pf_frame p) \<and> pcm_inv p'"
  using assms
proof (induction pcms arbitrary: p frames accepted)
  case (Cons pcm rest)
  obtain res q where push: "PcmFrames_push p pcm = (res, q)" by force
  note step = PcmFrames_push_step [OF push Cons.prems(2)]
  show ?case
  proof (cases res)
    case (Inl e)
    with Cons push step show ?thesis by auto
  next
    case (Inr fs)
    obtain more acc where rec: "push_all q rest = (more, acc, p')"
      and out: "frames = fs @ more" "accepted = pcm @ acc"
      using Cons.prems(1) push Inr by (auto split: prod.splits)
    from Cons.IH [OF rec step(1)] step(2) step(3) [OF Inr] out show ?thesis
      by auto
  qed
qed simp

theorem pcm_frames_conserve_witness:
  "push_all (PcmFrames_new 100) [[1], [2, 3, 4], [5]] = ([[1, 2], [3, 4]], [1, 2, 3, 4, 5],
     \<lparr>pf_samples = [5], pf_frame = 2\<rparr>)
   \<and> concat [[1, 2], [3, 4]] @ [5] = [1, 2, 3, 4, 5 :: i16]"
proof -
  have run: "push_all (PcmFrames_new 100) [[1], [2, 3, 4], [5]] = ([[1, 2], [3, 4]], [1, 2, 3, 4, 5],
     \<lparr>pf_samples = [5], pf_frame = 2\<rparr>)"
    by (simp add: PcmFrames_new_def PcmFrames_push_def drain_frames.simps)
  from pcm_frames_conserve [OF run pcm_inv_new] run show ?thesis
    by (simp add: PcmFrames_new_def)
qed

end
