(* ===== verification/Dtmf.thy ===== *)
theory Dtmf
  imports Rtpbridge_Prelude
begin

unbundle bit_operations_syntax

text \<open>
  RFC 4733 telephone events (\<open>src/src/media/dtmf.rs\<close>): the detector that assembles an
  event from its packets, the generator that splits a digit into packets, and the
  rescaling of the duration field between clocks.  The detector reads the clock; the
  instant it reads is the argument \<open>now\<close> of the model, one instant per call.
\<close>

section \<open>Definitions\<close>

definition DTMF_TIMEOUT :: duration where
  "DTMF_TIMEOUT = from_millis 3000"

record dtmf_event =
  de_digit :: char
  de_duration_ms :: u32
  de_volume :: u8

record dtmf_detector =
  dd_current :: "(u8 \<times> u8 \<times> u16 \<times> u32 \<times> instant) option"
  dd_last_completed :: "(u8 \<times> u32) option"

record dtmf_packet =
  dp_payload :: bytes
  dp_marker :: bool

definition event_id_to_digit :: "u8 \<Rightarrow> char option" where
  "event_id_to_digit eid =
     (if eid = 0 then Some CHR ''0'' else if eid = 1 then Some CHR ''1''
      else if eid = 2 then Some CHR ''2'' else if eid = 3 then Some CHR ''3''
      else if eid = 4 then Some CHR ''4'' else if eid = 5 then Some CHR ''5''
      else if eid = 6 then Some CHR ''6'' else if eid = 7 then Some CHR ''7''
      else if eid = 8 then Some CHR ''8'' else if eid = 9 then Some CHR ''9''
      else if eid = 10 then Some CHR ''*'' else if eid = 11 then Some CHR ''#''
      else if eid = 12 then Some CHR ''A'' else if eid = 13 then Some CHR ''B''
      else if eid = 14 then Some CHR ''C'' else if eid = 15 then Some CHR ''D''
      else None)"

definition digit_to_event_id :: "char \<Rightarrow> u8 option" where
  "digit_to_event_id digit =
     (if digit = CHR ''0'' then Some 0 else if digit = CHR ''1'' then Some 1
      else if digit = CHR ''2'' then Some 2 else if digit = CHR ''3'' then Some 3
      else if digit = CHR ''4'' then Some 4 else if digit = CHR ''5'' then Some 5
      else if digit = CHR ''6'' then Some 6 else if digit = CHR ''7'' then Some 7
      else if digit = CHR ''8'' then Some 8 else if digit = CHR ''9'' then Some 9
      else if digit = CHR ''*'' then Some 10 else if digit = CHR ''#'' then Some 11
      else if digit = CHR ''A'' \<or> digit = CHR ''a'' then Some 12
      else if digit = CHR ''B'' \<or> digit = CHR ''b'' then Some 13
      else if digit = CHR ''C'' \<or> digit = CHR ''c'' then Some 14
      else if digit = CHR ''D'' \<or> digit = CHR ''d'' then Some 15
      else None)"

text \<open>The duration of an event in milliseconds, with the 8000 Hz default for a zero clock.\<close>

definition event_duration_ms :: "u16 \<Rightarrow> u32 \<Rightarrow> u32" where
  "event_duration_ms dur clock_rate =
     (let rate = (if 0 < clock_rate then clock_rate else 8000)
      in of_nat (unat dur * 1000 div unat rate))"

definition DtmfDetector_new :: dtmf_detector where
  "DtmfDetector_new = \<lparr>dd_current = None, dd_last_completed = None\<rparr>"

definition DtmfDetector_drain_if_timed_out ::
  "dtmf_detector \<Rightarrow> instant \<Rightarrow> u32 \<Rightarrow> dtmf_event option \<times> dtmf_detector" where
  "DtmfDetector_drain_if_timed_out d now clock_rate =
     (case dd_current d of
        Some (cur_id, cur_vol, cur_dur, _, started) \<Rightarrow>
          if DTMF_TIMEOUT < saturating_duration_since now started then
            (map_option (\<lambda>digit. \<lparr>de_digit = digit,
                                  de_duration_ms = event_duration_ms cur_dur clock_rate,
                                  de_volume = cur_vol\<rparr>) (event_id_to_digit cur_id),
             d\<lparr>dd_current := None\<rparr>)
          else (None, d)
      | None \<Rightarrow> (None, d))"

definition DtmfDetector_process ::
  "dtmf_detector \<Rightarrow> instant \<Rightarrow> bytes \<Rightarrow> u32 \<Rightarrow> u32 \<Rightarrow> dtmf_event option \<times> dtmf_detector" where
  "DtmfDetector_process d now payload timestamp clock_rate =
     (if length payload < 4 then (None, d)
      else
        let event_id = payload ! 0;
            end_bit = (drop_bit 7 (payload ! 1) AND 1 \<noteq> 0);
            volume = payload ! 1 AND 0x3F;
            duration = from_be16 (payload ! 2) (payload ! 3);
            started = Some (event_id, volume, duration, timestamp, now)
        in case DtmfDetector_drain_if_timed_out d now clock_rate of
             (Some timed_out, d) \<Rightarrow> (Some timed_out, d\<lparr>dd_current := started\<rparr>)
           | (None, d) \<Rightarrow>
               let interrupted =
                     (case dd_current d of
                        Some (cur_id, cur_vol, cur_dur, _, _) \<Rightarrow>
                          if cur_id \<noteq> event_id then
                            map_option (\<lambda>digit. \<lparr>de_digit = digit,
                                                 de_duration_ms = event_duration_ms cur_dur clock_rate,
                                                 de_volume = cur_vol\<rparr>) (event_id_to_digit cur_id)
                          else None
                      | None \<Rightarrow> None);
                   d = d\<lparr>dd_current := started\<rparr>
               in if end_bit then
                    if interrupted \<noteq> None then (interrupted, d)
                    else
                      let d = d\<lparr>dd_current := None\<rparr> in
                      if dd_last_completed d = Some (event_id, timestamp) then (None, d)
                      else
                        (map_option (\<lambda>digit. \<lparr>de_digit = digit,
                                              de_duration_ms = event_duration_ms duration clock_rate,
                                              de_volume = volume\<rparr>) (event_id_to_digit event_id),
                         d\<lparr>dd_last_completed := Some (event_id, timestamp)\<rparr>)
                  else (interrupted, d))"

definition DtmfDetector_check_timeout ::
  "dtmf_detector \<Rightarrow> instant \<Rightarrow> u32 \<Rightarrow> dtmf_event option \<times> dtmf_detector" where
  "DtmfDetector_check_timeout d now clock_rate = DtmfDetector_drain_if_timed_out d now clock_rate"

definition DtmfDetector_has_active_digit :: "dtmf_detector \<Rightarrow> bool" where
  "DtmfDetector_has_active_digit d \<longleftrightarrow> dd_current d \<noteq> None"

definition build_telephone_event :: "u8 \<Rightarrow> bool \<Rightarrow> u8 \<Rightarrow> u16 \<Rightarrow> bytes" where
  "build_telephone_event event_id end volume duration =
     [event_id, (if end then 0x80 else 0) OR (volume AND 0x3F),
      ucast (drop_bit 8 duration), ucast (duration AND 0xFF)]"

text \<open>The packets one turn \<open>i\<close> of the generator's loop pushes.\<close>

definition generate_turn :: "u8 \<Rightarrow> u8 \<Rightarrow> u32 \<Rightarrow> u32 \<Rightarrow> nat \<Rightarrow> nat \<Rightarrow> dtmf_packet list" where
  "generate_turn event_id volume total_duration_ticks ptime_ticks num_packets i =
     (let is_first = (i = 0);
          is_last = (i = num_packets - 1);
          current_duration =
            (if is_last then ucast (min total_duration_ticks 0xFFFF)
             else ucast (min (of_nat (i + 1) * ptime_ticks) 0xFFFF)) :: u16
      in if is_last then
           map (\<lambda>rep. \<lparr>dp_payload = build_telephone_event event_id True volume current_duration,
                       dp_marker = (is_first \<and> rep = 0)\<rparr>) [0..<3]
         else [\<lparr>dp_payload = build_telephone_event event_id False volume current_duration,
                dp_marker = is_first\<rparr>])"

definition DtmfGenerator_generate ::
  "char \<Rightarrow> u32 \<Rightarrow> u8 \<Rightarrow> u32 \<Rightarrow> u32 \<Rightarrow> dtmf_packet list option" where
  "DtmfGenerator_generate digit duration_ms volume clock_rate ptime_ms =
     (case digit_to_event_id digit of
        None \<Rightarrow> None
      | Some event_id \<Rightarrow>
          if ptime_ms = 0 \<or> clock_rate = 0 then None
          else
            let total_duration_ticks = of_nat (unat duration_ms * unat clock_rate div 1000);
                ptime_ticks = of_nat (unat ptime_ms * unat clock_rate div 1000);
                num_packets = (unat duration_ms + unat ptime_ms - 1) div unat ptime_ms
            in Some (concat (map (generate_turn event_id volume total_duration_ticks ptime_ticks
                                    num_packets) [0..<num_packets])))"

definition rescale_event_duration :: "bytes \<Rightarrow> u32 \<Rightarrow> u32 \<Rightarrow> bytes" where
  "rescale_event_duration payload src_clock dst_clock =
     (if length payload < 4 \<or> src_clock = dst_clock \<or> src_clock = 0 \<or> dst_clock = 0 then payload
      else
        let duration = unat (from_be16 (payload ! 2) (payload ! 3));
            scaled = of_nat (min (duration * unat dst_clock div unat src_clock) 0xFFFF) :: u16;
            encoded = to_be16 scaled
        in payload[2 := encoded ! 0, 3 := encoded ! 1])"

definition is_telephone_event_pt :: "u8 \<Rightarrow> u8 option \<Rightarrow> bool" where
  "is_telephone_event_pt pt negotiated_te_pt =
     (case negotiated_te_pt of
        Some te_pt \<Rightarrow> pt = te_pt
      | None \<Rightarrow> pt = 101 \<or> pt = 96 \<or> pt = 126)"

text \<open>A stream of packets of one RTP timestamp, each with the instant it is processed at.\<close>

fun detect_all :: "dtmf_detector \<Rightarrow> u32 \<Rightarrow> u32 \<Rightarrow> (instant \<times> bytes) list \<Rightarrow>
    dtmf_event list \<times> dtmf_detector" where
  "detect_all d timestamp clock_rate [] = ([], d)"
| "detect_all d timestamp clock_rate ((now, payload) # rest) =
     (let (ev, d) = DtmfDetector_process d now payload timestamp clock_rate;
          (evs, d) = detect_all d timestamp clock_rate rest
      in (case ev of None \<Rightarrow> evs | Some e \<Rightarrow> e # evs, d))"

section \<open>Lemmas\<close>

lemma event_digit_event: "event_id_to_digit e = Some c \<Longrightarrow> digit_to_event_id c = Some e"
  unfolding event_id_to_digit_def
  by (simp split: if_splits; hypsubst; simp add: digit_to_event_id_def)

lemma digit_event_digit: "digit_to_event_id c = Some e \<Longrightarrow> event_id_to_digit e \<noteq> None"
  unfolding digit_to_event_id_def
  by (simp add: event_id_to_digit_def split: if_splits)

lemma ucast_low_byte: "ucast (dur AND mask 8) = (ucast dur :: u8)" for dur :: u16
  by (rule bit_word_eqI) (auto simp: bit_simps)

text \<open>The fields of a telephone-event payload read back.\<close>

lemma telephone_event_fields:
  "length (build_telephone_event e end vol dur) = 4"
  "build_telephone_event e end vol dur ! 0 = e"
  "(drop_bit 7 (build_telephone_event e end vol dur ! Suc 0) AND 1 \<noteq> 0) = end"
  "build_telephone_event e end vol dur ! Suc 0 AND 0x3F = vol AND 0x3F"
  "from_be16 (build_telephone_event e end vol dur ! 2) (build_telephone_event e end vol dur ! 3) = dur"
proof -
  have "bit (vol AND 0x3F) 7 = False"
    by (simp add: bit_simps bit_numeral_rec)
  then show "(drop_bit 7 (build_telephone_event e end vol dur ! Suc 0) AND 1 \<noteq> 0) = end"
    by (simp add: build_telephone_event_def and_one_eq odd_iff_mod_2_eq_one [symmetric]
        bit_iff_odd_drop_bit [symmetric] bit_simps bit_numeral_rec)
  show "build_telephone_event e end vol dur ! Suc 0 AND 0x3F = vol AND 0x3F"
    by (simp add: build_telephone_event_def bit.conj_disj_distrib2 and.assoc)
  have "ucast (dur AND 0xFF) = (ucast dur :: u8)"
    using ucast_low_byte [of dur] by (simp add: mask_eq_exp_minus_1)
  then show "from_be16 (build_telephone_event e end vol dur ! 2)
      (build_telephone_event e end vol dur ! 3) = dur"
    by (simp add: build_telephone_event_def from_be16_def join_split16)
qed (simp_all add: build_telephone_event_def)

subsection \<open>One packet of an event\<close>

text \<open>No other event is under way, or the same one and its last packet is recent.\<close>

definition same_event :: "dtmf_detector \<Rightarrow> u8 \<Rightarrow> instant \<Rightarrow> bool" where
  "same_event d e now =
     (case dd_current d of
        None \<Rightarrow> True
      | Some (cur, _, _, _, started) \<Rightarrow> cur = e \<and> now - started \<le> int DTMF_TIMEOUT)"

lemma drain_same_event:
  "same_event d e now \<Longrightarrow> DtmfDetector_drain_if_timed_out d now clock = (None, d)"
  by (auto simp: same_event_def DtmfDetector_drain_if_timed_out_def saturating_duration_since_def
      split: option.splits prod.splits)

lemma process_continue:
  assumes "same_event d e now"
  shows "DtmfDetector_process d now (build_telephone_event e False vol dur) ts clock =
    (None, d\<lparr>dd_current := Some (e, vol AND 0x3F, dur, ts, now)\<rparr>)"
  using assms drain_same_event [OF assms, of clock]
  by (auto simp: DtmfDetector_process_def telephone_event_fields same_event_def
      split: option.splits)

lemma process_end:
  assumes "same_event d e now" and "event_id_to_digit e = Some c"
    and "dd_last_completed d \<noteq> Some (e, ts)"
  shows "DtmfDetector_process d now (build_telephone_event e True vol dur) ts clock =
    (Some \<lparr>de_digit = c, de_duration_ms = event_duration_ms dur clock, de_volume = vol AND 0x3F\<rparr>,
     d\<lparr>dd_current := None, dd_last_completed := Some (e, ts)\<rparr>)"
  using assms drain_same_event [OF assms(1), of clock]
  by (auto simp: DtmfDetector_process_def telephone_event_fields same_event_def
      split: option.splits)

lemma process_redundant_end:
  assumes "dd_current d = None" and "dd_last_completed d = Some (e, ts)"
  shows "DtmfDetector_process d now (build_telephone_event e True vol dur) ts clock = (None, d)"
  using assms
  by (simp add: DtmfDetector_process_def telephone_event_fields DtmfDetector_drain_if_timed_out_def)

lemma detect_redundant_ends:
  assumes "dd_current d = None" and "dd_last_completed d = Some (e, ts)"
  shows "detect_all d ts clock (zip nows (replicate n (build_telephone_event e True vol dur))) = ([], d)"
proof (induction n arbitrary: nows)
  case (Suc n)
  then show ?case
    by (cases nows) (simp_all add: process_redundant_end [OF assms])
qed simp

text \<open>A held digit: any number of packets in progress, then the end packet and its copies.\<close>

lemma detect_held_digit:
  assumes "event_id_to_digit e = Some c" and "dd_last_completed d \<noteq> Some (e, ts)"
    and "length nows = length durs + Suc n" and "same_event d e (hd nows)"
    and "successively (\<lambda>s t. t - s \<le> int DTMF_TIMEOUT) nows"
  shows "detect_all d ts clock (zip nows (map (build_telephone_event e False vol) durs
           @ replicate (Suc n) (build_telephone_event e True vol dur))) =
    ([\<lparr>de_digit = c, de_duration_ms = event_duration_ms dur clock, de_volume = vol AND 0x3F\<rparr>],
     d\<lparr>dd_current := None, dd_last_completed := Some (e, ts)\<rparr>)"
  using assms(2-)
proof (induction durs arbitrary: d nows)
  case Nil
  then obtain now rest where nows: "nows = now # rest" by (cases nows) auto
  with Nil show ?case
    by (simp add: process_end [OF _ assms(1)] detect_redundant_ends)
next
  case (Cons du durs)
  then obtain now rest where nows: "nows = now # rest" by (cases nows) auto
  with Cons.prems obtain now' rest' where rest: "rest = now' # rest'" by (cases rest) auto
  define d' where "d' = d\<lparr>dd_current := Some (e, vol AND 0x3F, du, ts, now)\<rparr>"
  have "same_event d' e (hd rest)"
    using Cons.prems(4) nows rest by (simp add: same_event_def d'_def)
  with Cons.IH [of d' rest] Cons.prems nows rest
  show ?case
    by (simp add: process_continue d'_def)
qed

text \<open>What the generator produces.\<close>

lemma first_marker: "map (\<lambda>i. i = 0) [0..<Suc k] = True # replicate k False"
  by (rule nth_equalityI) (auto simp: nth_Cons' simp del: upt_Suc)

lemma generate_shape:
  assumes "DtmfGenerator_generate digit dur vol clock ptime = Some pkts" and "0 < dur"
    and "digit_to_event_id digit = Some e"
  obtains durs where "map dp_payload pkts = map (build_telephone_event e False vol) durs
      @ replicate 3 (build_telephone_event e True vol
          (ucast (min (of_nat (unat dur * unat clock div 1000) :: u32) 0xFFFF)))"
    and "map dp_marker pkts = True # replicate (length durs + 2) False"
proof -
  let ?n = "(unat dur + unat ptime - 1) div unat ptime"
  let ?total = "of_nat (unat dur * unat clock div 1000) :: u32"
  let ?turn = "generate_turn e vol ?total (of_nat (unat ptime * unat clock div 1000)) ?n"
  from assms have pt: "ptime \<noteq> 0" and pkts: "pkts = concat (map ?turn [0..<?n])"
    by (auto simp: DtmfGenerator_generate_def Let_def split: if_splits)
  have "unat ptime \<le> unat dur + unat ptime - 1"
    using assms(2) by (simp add: word_less_nat_alt)
  then have "0 < ?n" using pt by (simp add: div_greater_zero_iff unat_gt_0)
  then obtain m where m: "?n = Suc m" by (cases ?n) auto
  define du where "du i = (ucast (min (of_nat (i + 1) * of_nat (unat ptime * unat clock div 1000)) 0xFFFF :: u32) :: u16)" for i
  have early: "?turn i = [\<lparr>dp_payload = build_telephone_event e False vol (du i), dp_marker = (i = 0)\<rparr>]"
    if "i < m" for i
    using that m by (simp add: generate_turn_def du_def)
  have last: "?turn m = map (\<lambda>rep. \<lparr>dp_payload = build_telephone_event e True vol (ucast (min ?total 0xFFFF)),
      dp_marker = (m = 0 \<and> rep = 0)\<rparr>) [0..<3]"
    using m by (simp add: generate_turn_def)
  have "concat (map ?turn [0..<m]) =
      map (\<lambda>i. \<lparr>dp_payload = build_telephone_event e False vol (du i), dp_marker = (i = 0)\<rparr>) [0..<m]"
    using early by (induction m) auto
  then have pkts': "pkts = map (\<lambda>i. \<lparr>dp_payload = build_telephone_event e False vol (du i), dp_marker = (i = 0)\<rparr>) [0..<m] @ ?turn m"
    using pkts m by simp
  show thesis
  proof (rule that [of "map du [0..<m]"])
    show "map dp_payload pkts = map (build_telephone_event e False vol) (map du [0..<m])
      @ replicate 3 (build_telephone_event e True vol (ucast (min ?total 0xFFFF)))"
      unfolding pkts' last by (simp add: comp_def numeral_3_eq_3)
    show "map dp_marker pkts = True # replicate (length (map du [0..<m]) + 2) False"
    proof (cases m)
      case 0
      then show ?thesis unfolding pkts' last by (simp add: numeral_3_eq_3)
    next
      case (Suc k)
      then have "map dp_marker pkts = map (\<lambda>i. i = 0) [0..<Suc k] @ replicate 3 False"
        unfolding pkts' last by (simp add: comp_def map_replicate_const del: upt_Suc)
      then have "map dp_marker pkts = True # replicate (k + 3) False"
        unfolding first_marker by (simp add: replicate_add)
      with Suc show ?thesis by (simp add: numeral_3_eq_3)
    qed
  qed
qed

text \<open>The reported duration is the generated one when the tick count fits the 16-bit field.\<close>

lemma event_duration_exact:
  assumes "0 < clock" and "1000 dvd unat clock" and "unat dur * unat clock \<le> 65535 * 1000"
  shows "event_duration_ms (ucast (min (of_nat (unat dur * unat clock div 1000) :: u32) 0xFFFF)) clock = dur"
proof -
  from assms(2) obtain k where k: "unat clock = 1000 * k" by (rule dvdE)
  then have ticks: "unat dur * unat clock div 1000 = unat dur * k" by simp
  from assms(1) k have "0 < k" by (cases k) (auto simp: word_less_nat_alt)
  from assms(3) k have "unat dur * k \<le> 65535" by (simp add: mult.commute)
  moreover from this have "unat (of_nat (unat dur * k) :: u32) = unat dur * k"
    by (intro unat_of_nat_small) simp
  ultimately have "unat (ucast (min (of_nat (unat dur * k) :: u32) 0xFFFF) :: u16) = unat dur * k"
    by (simp add: min_def word_le_nat_alt unsigned_ucast_eq take_bit_eq_mod del: of_nat_mult)
  moreover have "unat dur * k * 1000 div unat clock = unat dur"
    using k \<open>0 < k\<close> by simp
  ultimately show ?thesis
    using assms(1) by (simp add: event_duration_ms_def ticks del: of_nat_mult)
qed

lemma generated_detected:
  assumes gen: "DtmfGenerator_generate digit dur vol clock ptime = Some pkts" and "0 < dur"
    and "length nows = length pkts"
    and "successively (\<lambda>s t. t - s \<le> int DTMF_TIMEOUT) nows"
    and "1000 dvd unat clock" and "unat dur * unat clock \<le> 65535 * 1000"
  shows "\<exists>c. digit_to_event_id c = digit_to_event_id digit
    \<and> fst (detect_all DtmfDetector_new ts clock (zip nows (map dp_payload pkts)))
        = [\<lparr>de_digit = c, de_duration_ms = dur, de_volume = vol AND 0x3F\<rparr>]
    \<and> map dp_marker pkts = True # replicate (length pkts - 1) False"
proof -
  from gen obtain e where e: "digit_to_event_id digit = Some e" and "0 < clock"
    by (auto simp: DtmfGenerator_generate_def word_gt_0 split: option.splits if_splits)
  then obtain c where c: "event_id_to_digit e = Some c"
    using digit_event_digit by blast
  obtain durs where pay: "map dp_payload pkts = map (build_telephone_event e False vol) durs
      @ replicate 3 (build_telephone_event e True vol
          (ucast (min (of_nat (unat dur * unat clock div 1000) :: u32) 0xFFFF)))"
    and mark: "map dp_marker pkts = True # replicate (length durs + 2) False"
    by (rule generate_shape [OF gen assms(2) e])
  from mark have "length pkts = length durs + 3"
    by (metis add_Suc_right length_Cons length_map length_replicate numeral_2_eq_2 numeral_3_eq_3)
  with assms(3) have "length nows = length durs + Suc 2" by simp
  moreover have "same_event DtmfDetector_new e (hd nows)"
    "dd_last_completed DtmfDetector_new \<noteq> Some (e, ts)"
    by (simp_all add: same_event_def DtmfDetector_new_def)
  ultimately have "fst (detect_all DtmfDetector_new ts clock (zip nows (map dp_payload pkts)))
      = [\<lparr>de_digit = c, de_duration_ms = dur, de_volume = vol AND 0x3F\<rparr>]"
    using detect_held_digit [OF c, of DtmfDetector_new ts nows durs 2] assms(4) pay
      event_duration_exact [OF \<open>0 < clock\<close> assms(5,6)] by simp
  with event_digit_event [OF c] e mark \<open>length pkts = length durs + 3\<close> show ?thesis by auto
qed

section \<open>Properties\<close>

text \<open>C22.  Injected digits survive the wire: the packets the generator makes for a digit, read by
  a fresh detector with no gap of more than three seconds between them, are reported as exactly
  one event, with the digit's event code, the generated duration and the low six volume bits.
  Exactly the first packet carries the RTP marker.\<close>

theorem dtmf_generate_detect:
  assumes gen: "DtmfGenerator_generate digit dur vol clock ptime = Some pkts" and "0 < dur"
    and "length nows = length pkts"
    and "successively (\<lambda>s t. t - s \<le> int DTMF_TIMEOUT) nows"
    and "1000 dvd unat clock" and "unat dur * unat clock \<le> 65535 * 1000"
  shows "\<exists>c. digit_to_event_id c = digit_to_event_id digit
    \<and> fst (detect_all DtmfDetector_new ts clock (zip nows (map dp_payload pkts)))
        = [\<lparr>de_digit = c, de_duration_ms = dur, de_volume = vol AND 0x3F\<rparr>]
    \<and> map dp_marker pkts = True # replicate (length pkts - 1) False"
  using assms by (rule generated_detected)

theorem dtmf_generate_detect_witness:
  "\<exists>pkts. DtmfGenerator_generate CHR ''5'' 40 10 8000 20 = Some pkts \<and> length pkts = 4
   \<and> fst (detect_all DtmfDetector_new 77 8000 (zip [0, 20000000, 40000000, 60000000] (map dp_payload pkts)))
       = [\<lparr>de_digit = CHR ''5'', de_duration_ms = 40, de_volume = 10\<rparr>]"
proof -
  obtain pkts where gen: "DtmfGenerator_generate CHR ''5'' 40 10 8000 20 = Some pkts"
    and len: "length pkts = 4"
    by (simp add: DtmfGenerator_generate_def digit_to_event_id_def generate_turn_def upt_rec numeral_3_eq_3)
  have "successively (\<lambda>s t. t - s \<le> int DTMF_TIMEOUT) [0, 20000000, 40000000, 60000000]"
    by (simp add: DTMF_TIMEOUT_def from_millis_def)
  with dtmf_generate_detect [OF gen, of "[0, 20000000, 40000000, 60000000]" 77] len
  obtain c where c: "digit_to_event_id c = digit_to_event_id CHR ''5''"
    and ev: "fst (detect_all DtmfDetector_new 77 8000 (zip [0, 20000000, 40000000, 60000000] (map dp_payload pkts)))
       = [\<lparr>de_digit = c, de_duration_ms = 40, de_volume = 10\<rparr>]"
    by auto
  from c have "digit_to_event_id c = Some 5" by (simp add: digit_to_event_id_def)
  then have "c = CHR ''5''"
    unfolding digit_to_event_id_def by (simp split: if_splits)
  with gen len ev show ?thesis by simp
qed

text \<open> Forwarding a telephone event between clocks changes nothing but the duration field: the
  event, end and volume bits and any trailing bytes are kept, and the new tick count is the old
  one in the new clock, rounded down, or the largest the 16-bit field holds.\<close>

lemma rescale_event_duration_correct:
  assumes "4 \<le> length payload" and "0 < src" and "0 < dst"
  shows "length (rescale_event_duration payload src dst) = length payload
    \<and> (\<forall>i < length payload. i \<noteq> 2 \<and> i \<noteq> 3 \<longrightarrow> rescale_event_duration payload src dst ! i = payload ! i)
    \<and> unat (from_be16 (rescale_event_duration payload src dst ! 2) (rescale_event_duration payload src dst ! 3))
        = min (unat (from_be16 (payload ! 2) (payload ! 3)) * unat dst div unat src) 65535"
proof (cases "src = dst")
  case True
  have "unat (from_be16 (payload ! 2) (payload ! 3)) \<le> 65535"
    using unat_u16_less [of "from_be16 (payload ! 2) (payload ! 3)"] by simp
  with True assms show ?thesis
    by (simp add: rescale_event_duration_def word_less_nat_alt)
next
  case False
  let ?s = "of_nat (min (unat (from_be16 (payload ! 2) (payload ! 3)) * unat dst div unat src) 65535) :: u16"
  have r: "rescale_event_duration payload src dst = payload[2 := to_be16 ?s ! 0, 3 := to_be16 ?s ! Suc 0]"
    using False assms by (auto simp: rescale_event_duration_def Let_def)
  have "from_be16 (rescale_event_duration payload src dst ! 2) (rescale_event_duration payload src dst ! 3) = ?s"
    using assms(1) by (simp add: r from_to_be16)
  moreover have "unat ?s = min (unat (from_be16 (payload ! 2) (payload ! 3)) * unat dst div unat src) 65535"
    by (simp add: unat_of_nat)
  ultimately show ?thesis using assms(1) by (simp add: r)
qed

lemma rescale_event_duration_correct_witness:
  "unat (from_be16 (rescale_event_duration [5, 138, 3, 32] 8000 48000 ! 2)
      (rescale_event_duration [5, 138, 3, 32] 8000 48000 ! 3)) = 4800"
  using rescale_event_duration_correct [of "[5, 138, 3, 32]" 8000 48000]
  by (simp add: unat_from_be16)



end
