(* ===== verification/Containers.thy ===== *)
theory Containers
  imports Rtpbridge_Prelude
begin

text \<open>
  The standard containers the code keeps its state in.  A \<open>HashMap\<close> is an association
  list with distinct keys: the code never relies on the order in which a hash map is
  traversed.  A \<open>BTreeMap\<close> is an association list sorted by its keys, whose head is the
  entry \<open>iter().next()\<close> yields.  What the components use of them is stated as two
  interfaces, a finite map with a size and an ordered map with a first entry, and the
  facts the components need are proved from those laws.
\<close>

section \<open>The interfaces\<close>

locale finite_map =
  fixes wf :: "'m \<Rightarrow> bool"
    and new :: "'m"
    and get :: "'m \<Rightarrow> 'k \<Rightarrow> 'v option"
    and ins :: "'k \<Rightarrow> 'v \<Rightarrow> 'm \<Rightarrow> 'm"
    and del :: "'k \<Rightarrow> 'm \<Rightarrow> 'm"
    and len :: "'m \<Rightarrow> nat"
  assumes wf_new: "wf new"
    and wf_ins: "wf m \<Longrightarrow> wf (ins k v m)"
    and wf_del: "wf m \<Longrightarrow> wf (del k m)"
    and get_new: "get new = Map.empty"
    and get_ins: "wf m \<Longrightarrow> get (ins k v m) = (get m)(k \<mapsto> v)"
    and get_del: "wf m \<Longrightarrow> get (del k m) = (get m)(k := None)"
    and finite_dom: "wf m \<Longrightarrow> finite (dom (get m))"
    and len_card: "wf m \<Longrightarrow> len m = card (dom (get m))"
begin

lemma len_new: "len new = 0"
  by (simp add: len_card wf_new get_new)

lemma len_ins: "wf m \<Longrightarrow> len (ins k v m) = (if get m k = None then Suc (len m) else len m)"
  by (auto simp: len_card wf_ins get_ins finite_dom card_insert_if)

lemma len_ins_le: "wf m \<Longrightarrow> len (ins k v m) \<le> Suc (len m)"
  by (simp add: len_ins)

lemma len_del: "wf m \<Longrightarrow> len (del k m) = (if get m k = None then len m else len m - 1)"
  by (auto simp: len_card wf_del get_del finite_dom card_Diff_singleton_if)

lemma len_del_less: "wf m \<Longrightarrow> get m k = Some v \<Longrightarrow> len (del k m) < len m"
  by (auto simp: len_card wf_del get_del finite_dom card_Diff1_less_iff)

lemma len_zero: "wf m \<Longrightarrow> len m = 0 \<longleftrightarrow> get m = Map.empty"
  by (auto simp: len_card finite_dom)

end

locale ordered_map = finite_map wf new get ins del len
  for wf :: "'m \<Rightarrow> bool"
    and new :: "'m"
    and get :: "'m \<Rightarrow> 'k::linorder \<Rightarrow> 'v option"
    and ins :: "'k \<Rightarrow> 'v \<Rightarrow> 'm \<Rightarrow> 'm"
    and del :: "'k \<Rightarrow> 'm \<Rightarrow> 'm"
    and len :: "'m \<Rightarrow> nat" +
  fixes first :: "'m \<Rightarrow> ('k \<times> 'v) option"
  assumes first_None: "wf m \<Longrightarrow> first m = None \<longleftrightarrow> get m = Map.empty"
    and first_get: "wf m \<Longrightarrow> first m = Some (k, v) \<Longrightarrow> get m k = Some v"
    and first_least: "wf m \<Longrightarrow> first m = Some (k, v) \<Longrightarrow> get m k' = Some v' \<Longrightarrow> k \<le> k'"
begin

lemma first_del_greater:
  assumes "wf m" "first m = Some (k, v)" "get (del k m) k' = Some v'"
  shows "k < k'"
proof -
  from assms(1,3) have "k' \<noteq> k" and "get m k' = Some v'"
    by (auto simp: get_del split: if_splits)
  with first_least [OF assms(1,2)] show ?thesis by force
qed

lemma pop_first_len: "wf m \<Longrightarrow> first m = Some (k, v) \<Longrightarrow> len (del k m) < len m"
  by (rule len_del_less) (auto dest: first_get)

lemma first_nonempty: "wf m \<Longrightarrow> 0 < len m \<Longrightarrow> \<exists>k v. first m = Some (k, v)"
  using first_None [of m] len_zero [of m] by (cases "first m") auto

end

section \<open>Hash maps\<close>

type_synonym ('k, 'v) hash_map = "('k \<times> 'v) list"

definition hm_wf :: "('k, 'v) hash_map \<Rightarrow> bool" where
  "hm_wf m \<longleftrightarrow> distinct (map fst m)"

definition hm_get :: "('k, 'v) hash_map \<Rightarrow> 'k \<Rightarrow> 'v option" where
  "hm_get m = map_of m"

definition hm_contains_key :: "('k, 'v) hash_map \<Rightarrow> 'k \<Rightarrow> bool" where
  "hm_contains_key m k \<longleftrightarrow> hm_get m k \<noteq> None"

definition hm_insert :: "'k \<Rightarrow> 'v \<Rightarrow> ('k, 'v) hash_map \<Rightarrow> ('k, 'v) hash_map" where
  "hm_insert k v m = AList.update k v m"

definition hm_remove :: "'k \<Rightarrow> ('k, 'v) hash_map \<Rightarrow> ('k, 'v) hash_map" where
  "hm_remove k m = AList.delete k m"

definition hm_len :: "('k, 'v) hash_map \<Rightarrow> nat" where
  "hm_len m = length m"

text \<open>\<open>entry(k).or_default()\<close>: the value at \<open>k\<close>, created as \<open>d\<close> on first sight.\<close>

definition hm_entry :: "('k, 'v) hash_map \<Rightarrow> 'k \<Rightarrow> 'v \<Rightarrow> 'v" where
  "hm_entry m k d = (case hm_get m k of Some v \<Rightarrow> v | None \<Rightarrow> d)"

lemma card_dom_map_of: "distinct (map fst m) \<Longrightarrow> card (dom (map_of m)) = length m"
  by (metis distinct_card dom_map_of_conv_image_fst length_map set_map)

lemma hm_get_insert [simp]: "hm_get (hm_insert k v m) = (hm_get m)(k \<mapsto> v)"
  by (simp add: hm_get_def hm_insert_def update_conv' fun_eq_iff)

interpretation hm: finite_map hm_wf "[]" hm_get hm_insert hm_remove hm_len
proof unfold_locales
  show "hm_get (hm_insert k v m) = (hm_get m)(k \<mapsto> v)" for k v and m :: "('a, 'b) hash_map"
    by (simp add: hm_get_def hm_insert_def update_conv' fun_eq_iff)
  show "hm_get (hm_remove k m) = (hm_get m)(k := None)" for k and m :: "('a, 'b) hash_map"
    by (simp add: hm_get_def hm_remove_def delete_conv' fun_eq_iff)
  show "finite (dom (hm_get m))" for m :: "('a, 'b) hash_map"
    by (simp add: hm_get_def finite_dom_map_of)
  show "hm_wf m \<Longrightarrow> hm_len m = card (dom (hm_get m))" for m :: "('a, 'b) hash_map"
    by (simp add: hm_len_def hm_wf_def hm_get_def card_dom_map_of)
qed (auto simp: hm_wf_def hm_get_def hm_insert_def hm_remove_def distinct_update distinct_delete)

lemmas hm_laws [simp] = hm.wf_new hm.wf_ins hm.wf_del hm.get_new hm.get_ins hm.get_del

section \<open>Ordered maps\<close>

type_synonym ('k, 'v) btree_map = "('k \<times> 'v) list"

definition bt_wf :: "('k::linorder, 'v) btree_map \<Rightarrow> bool" where
  "bt_wf m \<longleftrightarrow> sorted_wrt (<) (map fst m)"

definition bt_get :: "('k, 'v) btree_map \<Rightarrow> 'k \<Rightarrow> 'v option" where
  "bt_get m = map_of m"

fun bt_insert :: "'k::linorder \<Rightarrow> 'v \<Rightarrow> ('k, 'v) btree_map \<Rightarrow> ('k, 'v) btree_map" where
  "bt_insert k v [] = [(k, v)]"
| "bt_insert k v ((k', v') # m) =
     (if k < k' then (k, v) # (k', v') # m
      else if k = k' then (k, v) # m
      else (k', v') # bt_insert k v m)"

fun bt_remove :: "'k \<Rightarrow> ('k, 'v) btree_map \<Rightarrow> ('k, 'v) btree_map" where
  "bt_remove k [] = []"
| "bt_remove k ((k', v') # m) = (if k = k' then m else (k', v') # bt_remove k m)"

definition bt_len :: "('k, 'v) btree_map \<Rightarrow> nat" where
  "bt_len m = length m"

definition bt_first :: "('k, 'v) btree_map \<Rightarrow> ('k \<times> 'v) option" where
  "bt_first m = (case m of [] \<Rightarrow> None | e # _ \<Rightarrow> Some e)"

lemma keys_bt_insert: "fst ` set (bt_insert k v m) = insert k (fst ` set m)"
  by (induction k v m rule: bt_insert.induct) auto

lemma keys_bt_remove: "fst ` set (bt_remove k m) \<subseteq> fst ` set m"
  by (induction k m rule: bt_remove.induct) (auto split: if_splits)

lemma bt_wf_insert: "bt_wf m \<Longrightarrow> bt_wf (bt_insert k v m)"
proof (induction k v m rule: bt_insert.induct)
  case (2 k v k' v' m)
  have "\<forall>x \<in> fst ` set (bt_insert k v m). k' < x" if "\<not> k < k'" "k \<noteq> k'"
    unfolding keys_bt_insert using 2 that by (auto simp: bt_wf_def)
  with 2 show ?case by (fastforce simp: bt_wf_def)
qed (simp add: bt_wf_def)

lemma bt_wf_remove: "bt_wf m \<Longrightarrow> bt_wf (bt_remove k m)"
proof (induction m)
  case (Cons e m)
  with keys_bt_remove [of k m] show ?case by (cases e) (fastforce simp: bt_wf_def)
qed simp

lemma bt_get_insert: "bt_get (bt_insert k v m) = (bt_get m)(k \<mapsto> v)"
  by (induction k v m rule: bt_insert.induct) (auto simp: bt_get_def fun_eq_iff)

lemma bt_get_above: "bt_wf ((k, v) # m) \<Longrightarrow> bt_get m k = None"
  by (auto simp: bt_wf_def bt_get_def map_of_eq_None_iff)

lemma bt_get_remove: "bt_wf m \<Longrightarrow> bt_get (bt_remove k m) = (bt_get m)(k := None)"
proof (induction m)
  case (Cons e m)
  obtain k' v' where e: "e = (k', v')" by force
  with Cons.prems have "bt_wf m" and "bt_get m k' = None"
    by (simp add: bt_wf_def, metis bt_get_above)
  with e Cons.IH show ?case by (auto simp: bt_get_def fun_eq_iff)
qed (simp add: bt_get_def)

lemma bt_wf_distinct: "bt_wf m \<Longrightarrow> distinct (map fst m)"
  by (simp add: bt_wf_def strict_sorted_iff)

interpretation bt: ordered_map bt_wf "[]" bt_get bt_insert bt_remove bt_len bt_first
proof unfold_locales
  show "finite (dom (bt_get m))" for m :: "('a, 'b) btree_map"
    by (simp add: bt_get_def finite_dom_map_of)
  show "bt_wf m \<Longrightarrow> bt_len m = card (dom (bt_get m))" for m :: "('a, 'b) btree_map"
    by (simp add: bt_len_def bt_get_def card_dom_map_of bt_wf_distinct)
  show "bt_wf m \<Longrightarrow> bt_first m = Some (k, v) \<Longrightarrow> bt_get m k' = Some v' \<Longrightarrow> k \<le> k'"
    for m :: "('a, 'b) btree_map" and k v k' v'
    by (auto simp: bt_wf_def bt_first_def bt_get_def split: list.splits if_splits
        dest!: map_of_SomeD)
qed (auto simp: bt_wf_def [of "[]"] bt_get_def bt_first_def bt_wf_insert bt_wf_remove
      bt_get_insert [unfolded bt_get_def] bt_get_remove [unfolded bt_get_def]
      fun_eq_iff split: list.splits)

lemmas bt_laws [simp] = bt.wf_new bt.wf_ins bt.wf_del bt.get_new bt.get_ins bt.get_del

end
