(* ===== verification/Seq_Tracking.thy ===== *)
theory Seq_Tracking
  imports Rtpbridge_Prelude
begin

unbundle bit_operations_syntax

text \<open>
  RTP carries the low 16 bits of a packet's index.  Three components rebuild the whole
  index from them: the SRTP replay check, the playout buffer of a network source and the
  RTCP statistics.  This theory states what they promise as interfaces and proves, once,
  what follows for a stream of packets that the network reorders, repeats or loses: as
  long as no packet is further than half the sequence space from the newest one seen,
  every index is rebuilt exactly and the high-water mark is the largest index.
\<close>

section \<open>Streams with bounded reordering\<close>

definition near :: "nat \<Rightarrow> nat \<Rightarrow> nat \<Rightarrow> bool" where
  "near limit h i \<longleftrightarrow> i \<le> h + 0x7FFF \<and> h \<le> i + 0x7FFF \<and> i < limit"

fun jitter_ok :: "nat \<Rightarrow> nat \<Rightarrow> nat list \<Rightarrow> bool" where
  "jitter_ok limit h [] = True"
| "jitter_ok limit h (i # rest) = (near limit h i \<and> jitter_ok limit (max h i) rest)"

fun run_with :: "('s \<Rightarrow> 'q \<Rightarrow> 's) \<Rightarrow> 's \<Rightarrow> 'q list \<Rightarrow> 's" where
  "run_with step s [] = s"
| "run_with step s (q # qs) = run_with step (step s q) qs"

fun track_with :: "('s \<Rightarrow> 'q \<Rightarrow> 'r) \<Rightarrow> ('s \<Rightarrow> 'q \<Rightarrow> 's) \<Rightarrow> 's \<Rightarrow> 'q list \<Rightarrow> 'r list" where
  "track_with guess step s [] = []"
| "track_with guess step s (q # qs) = guess s q # track_with guess step (step s q) qs"

section \<open>The interfaces\<close>

locale high_mark =
  fixes limit :: nat
    and inv :: "'s \<Rightarrow> bool"
    and high :: "'s \<Rightarrow> nat"
    and note_seq :: "'s \<Rightarrow> u16 \<Rightarrow> 's"
  assumes note_inv: "inv s \<Longrightarrow> near limit (high s) i \<Longrightarrow> inv (note_seq s (of_nat i))"
    and note_high: "inv s \<Longrightarrow> near limit (high s) i \<Longrightarrow> high (note_seq s (of_nat i)) = max (high s) i"
begin

lemma run_high:
  "inv s \<Longrightarrow> jitter_ok limit (high s) is \<Longrightarrow>
     inv (run_with note_seq s (map of_nat is))
     \<and> high (run_with note_seq s (map of_nat is)) = fold max is (high s)"
  by (induction "is" arbitrary: s) (simp_all add: note_inv note_high max.commute)

end

locale index_tracker = high_mark limit inv high note_seq
  for limit :: nat
    and inv :: "'s \<Rightarrow> bool"
    and high :: "'s \<Rightarrow> nat"
    and note_seq :: "'s \<Rightarrow> u16 \<Rightarrow> 's" +
  fixes guess :: "'s \<Rightarrow> u16 \<Rightarrow> nat option"
  assumes guess_near: "inv s \<Longrightarrow> near limit (high s) i \<Longrightarrow> guess s (of_nat i) = Some i"
begin

lemma track_exact:
  "inv s \<Longrightarrow> jitter_ok limit (high s) is \<Longrightarrow>
     track_with guess note_seq s (map of_nat is) = map Some is"
  by (induction "is" arbitrary: s) (simp_all add: guess_near note_inv note_high)

end

section \<open>Arithmetic on epochs\<close>

text \<open>An extended index is an epoch of 65536 packets and a 16-bit sequence number in it.\<close>

definition ext_index :: "u32 \<Rightarrow> u16 \<Rightarrow> nat" where
  "ext_index roc seq = unat roc * 65536 + unat seq"

lemma unat_ext_index:
  "unat (push_bit 16 (ucast roc) OR ucast seq :: u64) = ext_index roc seq" for roc :: u32 and seq :: u16
proof -
  have lo: "unat (ucast seq :: u64) = unat seq"
    using unat_u16_less [of seq] by (simp add: unsigned_ucast_eq take_bit_eq_mod)
  have up: "unat (ucast roc :: u64) = unat roc"
    using unat_u32_less [of roc] by (simp add: unsigned_ucast_eq take_bit_eq_mod)
  have hi: "unat (push_bit 16 (ucast roc) :: u64) = unat roc * 65536"
    using unat_u32_less [of roc] by (simp add: push_bit_eq_mult unat_word_ariths up)
  have "push_bit 16 (ucast roc) OR ucast seq = (push_bit 16 (ucast roc) + ucast seq :: u64)"
    by (rule disjunctive_add [symmetric]) (auto simp: bit_simps dest: bit_imp_le_length)
  then show ?thesis
    using unat_u32_less [of roc] unat_u16_less [of seq]
    by (simp add: unat_word_ariths hi lo ext_index_def)
qed

lemma unat_of_nat_seq: "unat (of_nat i :: u16) = i mod 65536"
  by (simp add: unat_of_nat)

lemma ext_index_less: "ext_index roc seq < 2 ^ 48"
  using unat_u32_less [of roc] unat_u16_less [of seq] by (simp add: ext_index_def)

lemma unat_succ_u32: "unat roc < 4294967295 \<Longrightarrow> unat (roc + 1) = Suc (unat roc)" for roc :: u32
  by (simp add: unat_word_ariths)

lemma unat_pred_u32: "0 < unat roc \<Longrightarrow> unat (roc - 1) = unat roc - 1" for roc :: u32
  by (metis unat_0_iff unat_minus_one not_gr_zero)

text \<open>A near index lies in the epoch of the mark or in a neighbouring one.\<close>

lemma near_epochs:
  assumes "near (2 ^ 48) (ext_index roc hs) i"
  obtains (same) "i div 65536 = unat roc"
    | (next_epoch) "i div 65536 = Suc (unat roc)" "unat roc < 4294967295"
        "i mod 65536 + 65536 \<le> unat hs + 0x7FFF"
    | (prev_epoch) "Suc (i div 65536) = unat roc" "unat hs + 65536 \<le> i mod 65536 + 0x7FFF"
proof -
  define q r where "q = i div 65536" and "r = i mod 65536"
  have i: "i = 65536 * q + r" and r: "r < 65536" by (simp_all add: q_def r_def)
  from assms i have *: "65536 * q + r \<le> unat roc * 65536 + unat hs + 0x7FFF"
      "unat roc * 65536 + unat hs \<le> 65536 * q + r + 0x7FFF" "65536 * q + r < 281474976710656"
    by (simp_all add: near_def ext_index_def)
  have "unat hs < 65536" by (rule unat_u16_less)
  with * r consider "q = unat roc" | "q = Suc (unat roc)" | "Suc q = unat roc" by linarith
  then show thesis
  proof cases
    case 1
    then show ?thesis by (simp add: same q_def)
  next
    case 2
    with * show ?thesis by (intro next_epoch) (auto simp: q_def [symmetric] r_def [symmetric])
  next
    case 3
    with * show ?thesis by (intro prev_epoch) (auto simp: q_def [symmetric] r_def [symmetric])
  qed
qed

end
