(* ===== verification/Replay_Window.thy ===== *)
theory Replay_Window
  imports Rtpbridge_Prelude
begin

unbundle bit_operations_syntax

text \<open>
  SRTP and SRTCP each keep, per sender, the highest index accepted and a bitmap of the 64
  indices at and below it (RFC 3711, section 3.3.2).  The two checks share a contract,
  stated here as an interface over any state with such a bitmap.  The specification it is
  compared with keeps the set of all indices ever accepted.
\<close>

section \<open>The specification\<close>

text \<open>An index is fresh if it is beyond everything accepted so far, or within 64 of the newest
  and not accepted yet.\<close>

definition fresh_index :: "nat set \<Rightarrow> nat \<Rightarrow> bool" where
  "fresh_index acc i \<longleftrightarrow> acc = {} \<or> Max acc < i \<or> (Max acc < i + 64 \<and> i \<notin> acc)"

fun spec_run :: "nat set \<Rightarrow> nat list \<Rightarrow> bool list" where
  "spec_run acc [] = []"
| "spec_run acc (i # rest) =
     (if fresh_index acc i then True # spec_run (insert i acc) rest else False # spec_run acc rest)"

text \<open>A run of the implementation: the index it gave each packet and whether it accepted it.\<close>

fun check_run :: "('s \<Rightarrow> 'p \<Rightarrow> nat) \<Rightarrow> ('s \<Rightarrow> 'p \<Rightarrow> ('e + 'r) \<times> 's) \<Rightarrow> 's \<Rightarrow> 'p list \<Rightarrow> (nat \<times> bool) list" where
  "check_run index_of check s [] = []"
| "check_run index_of check s (p # ps) =
     (index_of s p, isl (fst (check s p)) = False) # check_run index_of check (snd (check s p)) ps"

definition accepted_indices :: "(nat \<times> bool) list \<Rightarrow> nat list" where
  "accepted_indices run = map fst (filter snd run)"

section \<open>The interface\<close>

locale replay_window =
  fixes inv :: "'s \<Rightarrow> bool"
    and started :: "'s \<Rightarrow> bool"
    and top :: "'s \<Rightarrow> nat"
    and window :: "'s \<Rightarrow> u64"
    and index_of :: "'s \<Rightarrow> 'p \<Rightarrow> nat"
    and check :: "'s \<Rightarrow> 'p \<Rightarrow> ('e + 'r) \<times> 's"
  assumes check_inv: "inv s \<Longrightarrow> inv (snd (check s p))"
    and check_first: "inv s \<Longrightarrow> \<not> started s \<Longrightarrow>
      \<exists>r s'. check s p = (Inr r, s') \<and> started s' \<and> top s' = index_of s p \<and> window s' = 1"
    and check_ahead: "inv s \<Longrightarrow> started s \<Longrightarrow> top s < index_of s p \<Longrightarrow>
      \<exists>r s'. check s p = (Inr r, s') \<and> started s' \<and> top s' = index_of s p
        \<and> window s' = (if index_of s p - top s < 64
                       then push_bit (index_of s p - top s) (window s) OR 1 else 1)"
    and check_known: "inv s \<Longrightarrow> started s \<Longrightarrow> index_of s p \<le> top s \<Longrightarrow>
      64 \<le> top s - index_of s p \<or> bit (window s) (top s - index_of s p) \<Longrightarrow>
      \<exists>e. check s p = (Inl e, s)"
    and check_late: "inv s \<Longrightarrow> started s \<Longrightarrow> index_of s p \<le> top s \<Longrightarrow>
      top s - index_of s p < 64 \<Longrightarrow> \<not> bit (window s) (top s - index_of s p) \<Longrightarrow>
      \<exists>r s'. check s p = (Inr r, s') \<and> started s' \<and> top s' = top s
        \<and> window s' = window s OR push_bit (top s - index_of s p) 1"
begin

text \<open>The bitmap represents the accepted indices.\<close>

definition represents :: "'s \<Rightarrow> nat set \<Rightarrow> bool" where
  "represents s acc \<longleftrightarrow> inv s \<and> finite acc \<and> (started s \<longleftrightarrow> acc \<noteq> {})
     \<and> (started s \<longrightarrow> top s = Max acc
          \<and> (\<forall>d < 64. bit (window s) d \<longleftrightarrow> d \<le> top s \<and> top s - d \<in> acc))"

lemma represents_empty: "inv s \<Longrightarrow> \<not> started s \<Longrightarrow> represents s {}"
  by (simp add: represents_def)

lemma simulate_first:
  assumes "represents s acc" "\<not> started s"
  shows "\<exists>r s'. check s p = (Inr r, s') \<and> represents s' (insert (index_of s p) acc)"
proof -
  from assms obtain r s' where c: "check s p = (Inr r, s')" "started s'" "top s' = index_of s p" "window s' = 1"
    using check_first [of s p] by (auto simp: represents_def)
  have "inv s'" using check_inv [of s p] assms c by (simp add: represents_def)
  with assms c show ?thesis
    by (auto simp: represents_def bit_1_iff)
qed

lemma simulate_ahead:
  assumes "represents s acc" "started s" "top s < index_of s p"
  shows "\<exists>r s'. check s p = (Inr r, s') \<and> represents s' (insert (index_of s p) acc)"
proof -
  let ?i = "index_of s p"
  let ?d = "?i - top s"
  from assms obtain r s' where c: "check s p = (Inr r, s')" "started s'" "top s' = ?i"
    and w: "window s' = (if ?d < 64 then push_bit ?d (window s) OR 1 else 1)"
    using check_ahead [of s p] by (auto simp: represents_def)
  have "inv s'" using check_inv [of s p] assms c by (simp add: represents_def)
  have fin: "finite acc" "acc \<noteq> {}" and top: "top s = Max acc"
    and bits: "\<And>d. d < 64 \<Longrightarrow> bit (window s) d \<longleftrightarrow> d \<le> top s \<and> top s - d \<in> acc"
    using assms by (auto simp: represents_def)
  have below: "j \<le> top s" if "j \<in> acc" for j using fin top that by simp
  have "bit (window s') d \<longleftrightarrow> d \<le> ?i \<and> ?i - d \<in> insert ?i acc" if "d < 64" for d
  proof (cases "d = 0")
    case True
    then show ?thesis using w by (auto simp: bit_simps)
  next
    case False
    show ?thesis
    proof (cases "?d \<le> d")
      case True
      with False that w bits [of "d - ?d"] assms(3) show ?thesis
        by (auto simp: bit_simps not_less)
    next
      case short: False
      then have "?i - d \<notin> acc" using below [of "?i - d"] by auto
      with False short that w show ?thesis by (auto simp: bit_simps)
    qed
  qed
  moreover have "Max (insert ?i acc) = ?i"
    using fin below assms(3) top by simp
  ultimately show ?thesis
    using c fin \<open>inv s'\<close> by (auto simp: represents_def)
qed

lemma simulate_behind:
  assumes "represents s acc" "started s" "index_of s p \<le> top s"
  shows "(if index_of s p + 64 \<le> top s \<or> index_of s p \<in> acc then \<exists>e. check s p = (Inl e, s)
          else \<exists>r s'. check s p = (Inr r, s') \<and> represents s' (insert (index_of s p) acc))"
proof -
  let ?i = "index_of s p"
  let ?d = "top s - ?i"
  have fin: "finite acc" "acc \<noteq> {}" and top: "top s = Max acc" and inv: "inv s"
    and bits: "\<And>d. d < 64 \<Longrightarrow> bit (window s) d \<longleftrightarrow> d \<le> top s \<and> top s - d \<in> acc"
    using assms by (auto simp: represents_def)
  show ?thesis
  proof (cases "64 \<le> ?d \<or> bit (window s) ?d")
    case True
    then have "?i + 64 \<le> top s \<or> ?i \<in> acc"
      using bits [of ?d] assms(3) by (cases "64 \<le> ?d") auto
    with True check_known [OF inv assms(2,3)] show ?thesis by simp
  next
    case False
    then obtain r s' where c: "check s p = (Inr r, s')" "started s'" "top s' = top s"
      and w: "window s' = window s OR push_bit ?d 1"
      using check_late [OF inv assms(2,3)] by auto
    have "inv s'" using check_inv [OF inv, of p] c by simp
    moreover have "bit (window s') d \<longleftrightarrow> d \<le> top s \<and> top s - d \<in> insert ?i acc" if "d < 64" for d
      using that w bits [OF that] assms(3) False by (auto simp: bit_simps bit_1_iff)
    moreover have "Max (insert ?i acc) = top s"
      using fin top assms(3) by (simp add: max_def)
    ultimately have "represents s' (insert ?i acc)"
      using c fin by (auto simp: represents_def)
    moreover have "\<not> (?i + 64 \<le> top s \<or> ?i \<in> acc)"
      using False bits [of ?d] assms(3) by (auto simp: not_le)
    ultimately show ?thesis using c(1) by auto
  qed
qed

text \<open>One check decides as the specification does and keeps the representation.\<close>

lemma simulate:
  assumes "represents s acc"
  shows "(if fresh_index acc (index_of s p)
          then \<exists>r s'. check s p = (Inr r, s') \<and> represents s' (insert (index_of s p) acc)
          else \<exists>e. check s p = (Inl e, s))"
proof (cases "started s")
  case False
  then have "acc = {}" using assms by (simp add: represents_def)
  with simulate_first [OF assms False] show ?thesis by (simp add: fresh_index_def)
next
  case True
  then have "acc \<noteq> {}" "top s = Max acc" using assms by (auto simp: represents_def)
  then have "fresh_index acc (index_of s p) \<longleftrightarrow>
      top s < index_of s p \<or> \<not> (index_of s p + 64 \<le> top s \<or> index_of s p \<in> acc)"
    by (auto simp: fresh_index_def)
  with simulate_ahead [OF assms True, of p] simulate_behind [OF assms True, of p] show ?thesis
    by (cases "top s < index_of s p") (simp_all add: not_less)
qed

lemma run_decisions:
  "represents s acc \<Longrightarrow>
     map snd (check_run index_of check s ps) = spec_run acc (map fst (check_run index_of check s ps))"
proof (induction ps arbitrary: s acc)
  case (Cons p ps)
  show ?case
  proof (cases "fresh_index acc (index_of s p)")
    case True
    with simulate [OF Cons.prems, of p] obtain r s' where
      "check s p = (Inr r, s')" "represents s' (insert (index_of s p) acc)" by auto
    with True Cons.IH show ?thesis by simp
  next
    case False
    with simulate [OF Cons.prems, of p] obtain e where "check s p = (Inl e, s)" by auto
    with False Cons show ?thesis by simp
  qed
qed simp

lemma run_no_replay:
  "represents s acc \<Longrightarrow>
     distinct (accepted_indices (check_run index_of check s ps))
     \<and> set (accepted_indices (check_run index_of check s ps)) \<inter> acc = {}"
proof (induction ps arbitrary: s acc)
  case (Cons p ps)
  show ?case
  proof (cases "fresh_index acc (index_of s p)")
    case True
    with simulate [OF Cons.prems, of p] obtain r s' where
      "check s p = (Inr r, s')" "represents s' (insert (index_of s p) acc)" by auto
    moreover have "index_of s p \<notin> acc"
      using True Cons.prems Max_ge [of acc "index_of s p"]
      by (auto simp: fresh_index_def represents_def not_le [symmetric])
    ultimately show ?thesis using Cons.IH [of s' "insert (index_of s p) acc"]
      by (auto simp: accepted_indices_def)
  next
    case False
    with simulate [OF Cons.prems, of p] obtain e where "check s p = (Inl e, s)" by auto
    with Cons show ?thesis by (simp add: accepted_indices_def)
  qed
qed (simp add: accepted_indices_def)

end

end
