(* ===== verification/Srtp_Replay.thy ===== *)
theory Srtp_Replay
  imports Seq_Tracking Replay_Window
begin

unbundle bit_operations_syntax

text \<open>
  The state SRTP and SRTCP keep for one sender (\<open>src/src/media/srtp.rs\<close>): the rollover
  counter that extends the 16-bit sequence number, and the replay windows.  Both replay
  checks are interpreted as a \<open>replay_window\<close>, the SRTP receiver also as an
  \<open>index_tracker\<close>.
\<close>

section \<open>Definitions\<close>

datatype srtp_error =
    PacketTooShort
  | PacketTooShortForHeader
  | AuthTagMismatch
  | TooManySsrcs nat
  | LifetimeExhausted
  | GlobalIndexExhausted
  | ReplayTooOld nat
  | ReplayDuplicate nat
  | BadKeyLifetime
  | BadKeyMaterial nat
  | InvalidBase64

subsection \<open>Per-stream rollover counter and replay window\<close>

record srtp_stream_state =
  ss_roc :: u32
  ss_highest_seq :: u16
  ss_seq_initialized :: bool
  ss_replay_window :: u64
  ss_protected_packets :: nat
  ss_accepted_packets :: nat

definition SrtpStreamState_default :: srtp_stream_state where
  "SrtpStreamState_default =
     \<lparr>ss_roc = 0, ss_highest_seq = 0, ss_seq_initialized = False, ss_replay_window = 0,
      ss_protected_packets = 0, ss_accepted_packets = 0\<rparr>"

definition SrtpStreamState_reset_sequence_state :: "srtp_stream_state \<Rightarrow> srtp_stream_state" where
  "SrtpStreamState_reset_sequence_state st =
     st\<lparr>ss_roc := 0, ss_highest_seq := 0, ss_seq_initialized := False, ss_replay_window := 0\<rparr>"

definition SrtpStreamState_update_roc :: "srtp_stream_state \<Rightarrow> u16 \<Rightarrow> srtp_stream_state" where
  "SrtpStreamState_update_roc st seq =
     (if \<not> ss_seq_initialized st then
        st\<lparr>ss_highest_seq := seq, ss_seq_initialized := True, ss_replay_window := 1\<rparr>
      else if seq < 0x8000 \<and> 0x8000 < ss_highest_seq st then
        st\<lparr>ss_roc := ss_roc st + 1, ss_highest_seq := seq\<rparr>
      else if ss_highest_seq st < seq then st\<lparr>ss_highest_seq := seq\<rparr>
      else st)"

definition SrtpStreamState_estimate_roc :: "srtp_stream_state \<Rightarrow> u16 \<Rightarrow> u32 \<times> u64" where
  "SrtpStreamState_estimate_roc st seq =
     (if \<not> ss_seq_initialized st then (0, ucast seq)
      else
        let roc =
              (if ss_highest_seq st < 0x8000 then
                 if ss_highest_seq st + 0x8000 < seq then ss_roc st - 1 else ss_roc st
               else if seq < ss_highest_seq st - 0x8000 then ss_roc st + 1
               else ss_roc st)
        in (roc, push_bit 16 (ucast roc) OR ucast seq))"

definition SrtpStreamState_check_replay ::
  "srtp_stream_state \<Rightarrow> u16 \<Rightarrow> (srtp_error + u32 \<times> u64) \<times> srtp_stream_state" where
  "SrtpStreamState_check_replay st seq =
     (if \<not> ss_seq_initialized st then
        (Inr (0, ucast seq),
         st\<lparr>ss_highest_seq := seq, ss_seq_initialized := True, ss_replay_window := 1\<rparr>)
      else
        let (estimated_roc, index) = SrtpStreamState_estimate_roc st seq;
            highest_index = push_bit 16 (ucast (ss_roc st)) OR ucast (ss_highest_seq st) :: u64
        in if highest_index < index then
             let delta = index - highest_index in
             (Inr (estimated_roc, index),
              st\<lparr>ss_replay_window :=
                    (if delta < 64 then push_bit (unat delta) (ss_replay_window st) OR 1 else 1),
                  ss_highest_seq := seq, ss_roc := estimated_roc\<rparr>)
           else
             let delta = highest_index - index in
             if 64 \<le> delta then (Inl (ReplayTooOld (unat delta)), st)
             else
               let bit = push_bit (unat delta) 1 :: u64 in
               if ss_replay_window st AND bit \<noteq> 0 then (Inl (ReplayDuplicate (unat delta)), st)
               else (Inr (estimated_roc, index),
                     st\<lparr>ss_replay_window := ss_replay_window st OR bit\<rparr>))"

subsection \<open>The SRTCP receive state\<close>

record srtcp_recv_state =
  cr_highest_recv_index :: u32
  cr_recv_index_initialized :: bool
  cr_replay_window :: u64
  cr_accepted_packets :: nat

definition SrtcpRecvState_default :: srtcp_recv_state where
  "SrtcpRecvState_default =
     \<lparr>cr_highest_recv_index = 0, cr_recv_index_initialized = False, cr_replay_window = 0,
      cr_accepted_packets = 0\<rparr>"

definition SrtcpRecvState_check_replay ::
  "srtcp_recv_state \<Rightarrow> u32 \<Rightarrow> (srtp_error + unit) \<times> srtcp_recv_state" where
  "SrtcpRecvState_check_replay st index =
     (if \<not> cr_recv_index_initialized st then
        (Inr (),
         st\<lparr>cr_highest_recv_index := index, cr_recv_index_initialized := True, cr_replay_window := 1\<rparr>)
      else if cr_highest_recv_index st < index then
        let delta = index - cr_highest_recv_index st in
        (Inr (),
         st\<lparr>cr_replay_window :=
               (if delta < 64 then push_bit (unat delta) (cr_replay_window st) OR 1 else 1),
             cr_highest_recv_index := index\<rparr>)
      else
        let delta = cr_highest_recv_index st - index in
        if 64 \<le> delta then (Inl (ReplayTooOld (unat delta)), st)
        else
          let bit = push_bit (unat delta) 1 :: u64 in
          if cr_replay_window st AND bit \<noteq> 0 then (Inl (ReplayDuplicate (unat delta)), st)
          else (Inr (), st\<lparr>cr_replay_window := cr_replay_window st OR bit\<rparr>))"

section \<open>Indices as numbers\<close>

text \<open>The extended index of a stream's newest packet, and the one the receiver gives a sequence
  number.\<close>

definition stream_index :: "srtp_stream_state \<Rightarrow> nat" where
  "stream_index st = ext_index (ss_roc st) (ss_highest_seq st)"

definition guessed_index :: "srtp_stream_state \<Rightarrow> u16 \<Rightarrow> nat" where
  "guessed_index st seq = unat (snd (SrtpStreamState_estimate_roc st seq))"

definition stream_ok :: "srtp_stream_state \<Rightarrow> bool" where
  "stream_ok st \<longleftrightarrow> (\<not> ss_seq_initialized st \<longrightarrow> ss_roc st = 0)"

lemma unat_minus_le: "b \<le> a \<Longrightarrow> unat (a - b) = unat a - unat b" for a b :: "'a::len word"
  by (simp add: unat_sub)

lemma estimate_roc_index:
  "unat (snd (SrtpStreamState_estimate_roc st seq))
     = ext_index (fst (SrtpStreamState_estimate_roc st seq)) seq"
  using unat_ext_index [of 0 seq]
  by (simp add: SrtpStreamState_estimate_roc_def Let_def unat_ext_index)

lemma guessed_index_eq: "guessed_index st seq = ext_index (fst (SrtpStreamState_estimate_roc st seq)) seq"
  by (simp add: guessed_index_def estimate_roc_index)

text \<open>The check, once the stream has started, in terms of these numbers.\<close>

lemma check_replay_started:
  fixes st :: srtp_stream_state and seq :: u16
  assumes "ss_seq_initialized st"
  defines "e \<equiv> SrtpStreamState_estimate_roc st seq"
    and "i \<equiv> guessed_index st seq" and "t \<equiv> stream_index st"
  shows "SrtpStreamState_check_replay st seq =
     (if t < i then
        (Inr e, st\<lparr>ss_replay_window := (if i - t < 64 then push_bit (i - t) (ss_replay_window st) OR 1 else 1),
                   ss_highest_seq := seq, ss_roc := fst e\<rparr>)
      else if 64 \<le> t - i then (Inl (ReplayTooOld (t - i)), st)
      else if bit (ss_replay_window st) (t - i) then (Inl (ReplayDuplicate (t - i)), st)
      else (Inr e, st\<lparr>ss_replay_window := ss_replay_window st OR push_bit (t - i) 1\<rparr>))"
proof -
  let ?h = "push_bit 16 (ucast (ss_roc st)) OR ucast (ss_highest_seq st) :: u64"
  have h: "unat ?h = t" by (simp add: t_def stream_index_def unat_ext_index)
  have i: "unat (snd e) = i" by (simp add: i_def e_def guessed_index_def)
  have less: "?h < snd e \<longleftrightarrow> t < i" by (simp add: word_less_nat_alt h i)
  have up: "unat (snd e - ?h) = i - t" if "t < i"
    using that less by (simp add: unat_minus_le h i)
  have down: "unat (?h - snd e) = t - i" if "\<not> t < i"
    using that less by (simp add: unat_minus_le h i)
  show ?thesis
  proof (cases "t < i")
    case True
    then show ?thesis
      using assms(1) less up
      by (simp add: SrtpStreamState_check_replay_def e_def [symmetric] split_beta Let_def
          word_less_nat_alt [of _ 64])
  next
    case False
    then have "64 \<le> ?h - snd e \<longleftrightarrow> 64 \<le> t - i"
      using down by (simp add: word_le_nat_alt)
    with False show ?thesis
      using assms(1) less down
      by (simp add: SrtpStreamState_check_replay_def e_def [symmetric] split_beta Let_def
          and_exp_eq_0_iff_not_bit)
  qed
qed

lemma check_replay_first:
  "\<not> ss_seq_initialized st \<Longrightarrow> SrtpStreamState_check_replay st seq =
     (Inr (0, ucast seq), st\<lparr>ss_highest_seq := seq, ss_seq_initialized := True, ss_replay_window := 1\<rparr>)"
  by (simp add: SrtpStreamState_check_replay_def)

lemma guessed_index_first: "\<not> ss_seq_initialized st \<Longrightarrow> guessed_index st seq = ext_index 0 seq"
  by (simp add: guessed_index_eq SrtpStreamState_estimate_roc_def)

interpretation srtp: replay_window stream_ok ss_seq_initialized stream_index ss_replay_window
  guessed_index SrtpStreamState_check_replay
proof unfold_locales
  fix s p
  show "stream_ok s \<Longrightarrow> stream_ok (snd (SrtpStreamState_check_replay s p))"
    by (cases "ss_seq_initialized s")
      (simp_all add: check_replay_started check_replay_first stream_ok_def Let_def)
  show "stream_ok s \<Longrightarrow> \<not> ss_seq_initialized s \<Longrightarrow>
      \<exists>r s'. SrtpStreamState_check_replay s p = (Inr r, s') \<and> ss_seq_initialized s'
        \<and> stream_index s' = guessed_index s p \<and> ss_replay_window s' = 1"
    by (simp add: check_replay_first guessed_index_first stream_ok_def stream_index_def)
  assume started: "ss_seq_initialized s"
  show "stream_index s < guessed_index s p \<Longrightarrow>
      \<exists>r s'. SrtpStreamState_check_replay s p = (Inr r, s') \<and> ss_seq_initialized s'
        \<and> stream_index s' = guessed_index s p
        \<and> ss_replay_window s' = (if guessed_index s p - stream_index s < 64
            then push_bit (guessed_index s p - stream_index s) (ss_replay_window s) OR 1 else 1)"
    using started by (simp add: check_replay_started)
      (simp add: stream_index_def guessed_index_eq)
  show "guessed_index s p \<le> stream_index s \<Longrightarrow>
      64 \<le> stream_index s - guessed_index s p \<or> bit (ss_replay_window s) (stream_index s - guessed_index s p) \<Longrightarrow>
      \<exists>e. SrtpStreamState_check_replay s p = (Inl e, s)"
    using started by (auto simp: check_replay_started)
  show "guessed_index s p \<le> stream_index s \<Longrightarrow> stream_index s - guessed_index s p < 64 \<Longrightarrow>
      \<not> bit (ss_replay_window s) (stream_index s - guessed_index s p) \<Longrightarrow>
      \<exists>r s'. SrtpStreamState_check_replay s p = (Inr r, s') \<and> ss_seq_initialized s'
        \<and> stream_index s' = stream_index s
        \<and> ss_replay_window s' = ss_replay_window s OR push_bit (stream_index s - guessed_index s p) 1"
    using started by (simp add: check_replay_started) (simp add: stream_index_def)
qed

lemma srtcp_check_replay_started:
  fixes st :: srtcp_recv_state and index :: u32
  assumes "cr_recv_index_initialized st"
  defines "i \<equiv> unat index" and "t \<equiv> unat (cr_highest_recv_index st)"
  shows "SrtcpRecvState_check_replay st index =
     (if t < i then
        (Inr (), st\<lparr>cr_replay_window := (if i - t < 64 then push_bit (i - t) (cr_replay_window st) OR 1 else 1),
                   cr_highest_recv_index := index\<rparr>)
      else if 64 \<le> t - i then (Inl (ReplayTooOld (t - i)), st)
      else if bit (cr_replay_window st) (t - i) then (Inl (ReplayDuplicate (t - i)), st)
      else (Inr (), st\<lparr>cr_replay_window := cr_replay_window st OR push_bit (t - i) 1\<rparr>))"
proof -
  have less: "cr_highest_recv_index st < index \<longleftrightarrow> t < i"
    by (simp add: i_def t_def word_less_nat_alt)
  have up: "unat (index - cr_highest_recv_index st) = i - t" if "t < i"
    using that less by (simp add: unat_minus_le i_def t_def)
  have down: "unat (cr_highest_recv_index st - index) = t - i" if "\<not> t < i"
    using that less by (simp add: unat_minus_le i_def t_def)
  have "64 \<le> cr_highest_recv_index st - index \<longleftrightarrow> 64 \<le> t - i" if "\<not> t < i"
    using down [OF that] by (simp add: word_le_nat_alt)
  with less up down show ?thesis
    using assms(1)
    by (simp add: SrtcpRecvState_check_replay_def Let_def and_exp_eq_0_iff_not_bit word_less_nat_alt [of _ 64])
qed

interpretation srtcp: replay_window "\<lambda>_. True" cr_recv_index_initialized
  "\<lambda>s. unat (cr_highest_recv_index s)" cr_replay_window "\<lambda>_. unat" SrtcpRecvState_check_replay
  by unfold_locales (auto simp: srtcp_check_replay_started, simp_all add: SrtcpRecvState_check_replay_def)

section \<open>The receiver's index\<close>

text \<open>The estimated rollover counter, by cases on numbers.\<close>

lemma estimate_roc_cases:
  assumes "ss_seq_initialized st"
  shows "fst (SrtpStreamState_estimate_roc st seq) =
     (if unat (ss_highest_seq st) < 0x8000 then
        if unat (ss_highest_seq st) + 0x8000 < unat seq then ss_roc st - 1 else ss_roc st
      else if unat seq + 0x8000 < unat (ss_highest_seq st) then ss_roc st + 1
      else ss_roc st)"
proof -
  let ?h = "ss_highest_seq st"
  have lt: "?h < 0x8000 \<longleftrightarrow> unat ?h < 0x8000" by (simp add: word_less_nat_alt)
  have add: "unat (?h + 0x8000) = unat ?h + 0x8000" if "unat ?h < 0x8000"
    using that by (simp add: unat_word_ariths)
  have sub: "unat (?h - 0x8000) = unat ?h - 0x8000" if "\<not> unat ?h < 0x8000"
    using that lt by (simp add: unat_minus_le)
  show ?thesis
  proof (cases "unat ?h < 0x8000")
    case True
    then have "?h + 0x8000 < seq \<longleftrightarrow> unat ?h + 0x8000 < unat seq"
      by (simp only: word_less_nat_alt add)
    with True lt assms show ?thesis by (simp add: SrtpStreamState_estimate_roc_def Let_def)
  next
    case False
    then have "seq < ?h - 0x8000 \<longleftrightarrow> unat seq + 0x8000 < unat ?h"
      using sub by (auto simp: word_less_nat_alt)
    with False lt assms show ?thesis by (simp add: SrtpStreamState_estimate_roc_def Let_def)
  qed
qed

lemma ext_index_div_mod:
  "unat roc = i div 65536 \<Longrightarrow> ext_index roc (of_nat i) = i"
  by (simp add: ext_index_def unat_of_nat_seq)

text \<open>A near index is estimated exactly.\<close>

lemma estimate_roc_near:
  assumes "ss_seq_initialized st" "near (2 ^ 48) (stream_index st) i"
  shows "unat (fst (SrtpStreamState_estimate_roc st (of_nat i))) = i div 65536"
proof -
  let ?h = "unat (ss_highest_seq st)"
  let ?r = "unat (ss_roc st)"
  have r: "i mod 65536 < 65536" by simp
  have i: "i = 65536 * (i div 65536) + i mod 65536" by simp
  have bounds: "i \<le> ?r * 65536 + ?h + 0x7FFF" "?r * 65536 + ?h \<le> i + 0x7FFF"
    using assms(2) by (simp_all add: near_def stream_index_def ext_index_def)
  from assms(2) [unfolded stream_index_def] show ?thesis
  proof (cases rule: near_epochs)
    case same
    then have "i mod 65536 \<le> ?h + 0x7FFF" "?h \<le> i mod 65536 + 0x7FFF"
      using bounds i by linarith+
    with same assms(1) show ?thesis by (simp add: estimate_roc_cases unat_of_nat_seq)
  next
    case next_epoch
    with assms(1) show ?thesis
      by (simp add: estimate_roc_cases unat_of_nat_seq unat_succ_u32)
  next
    case prev_epoch
    then have "0 < ?r" "?h < 0x8000" "?r - 1 = i div 65536" using r by linarith+
    with prev_epoch assms(1) show ?thesis
      by (simp add: estimate_roc_cases unat_of_nat_seq unat_pred_u32)
  qed
qed

lemma guessed_index_near:
  "ss_seq_initialized st \<Longrightarrow> near (2 ^ 48) (stream_index st) i \<Longrightarrow> guessed_index st (of_nat i) = i"
  by (simp add: guessed_index_eq ext_index_div_mod estimate_roc_near)

lemma check_replay_initialized:
  "ss_seq_initialized (snd (SrtpStreamState_check_replay st seq))"
  by (cases "ss_seq_initialized st") (simp_all add: check_replay_started check_replay_first)

lemma check_replay_index:
  "ss_seq_initialized st \<Longrightarrow> stream_index (snd (SrtpStreamState_check_replay st seq))
     = max (stream_index st) (guessed_index st seq)"
  by (simp add: check_replay_started) (simp add: stream_index_def guessed_index_eq max_def)

interpretation srtp_rx: index_tracker "2 ^ 48" ss_seq_initialized stream_index
  "\<lambda>st seq. snd (SrtpStreamState_check_replay st seq)" "\<lambda>st seq. Some (guessed_index st seq)"
  by unfold_locales
    (simp_all add: check_replay_initialized check_replay_index guessed_index_near)

section \<open>The sender's index\<close>

text \<open>The counter a sender encrypts with is exact as long as it moves forward, by less than
  half the sequence space.\<close>

lemma update_roc_initialized: "ss_seq_initialized (SrtpStreamState_update_roc st seq)"
  by (simp add: SrtpStreamState_update_roc_def)

lemma update_roc_forward:
  assumes "ss_seq_initialized st" "stream_index st \<le> i" "near (2 ^ 48) (stream_index st) i"
  shows "unat (ss_roc (SrtpStreamState_update_roc st (of_nat i))) = i div 65536"
    and "stream_index (SrtpStreamState_update_roc st (of_nat i)) = i"
proof -
  let ?h = "unat (ss_highest_seq st)"
  let ?r = "unat (ss_roc st)"
  have i: "i = 65536 * (i div 65536) + i mod 65536" by simp
  have lo: "?r * 65536 + ?h \<le> i" "i \<le> ?r * 65536 + ?h + 0x7FFF"
    using assms(2,3) by (simp_all add: near_def stream_index_def ext_index_def)
  have wrap: "of_nat i < (0x8000::u16) \<and> 0x8000 < ss_highest_seq st \<longleftrightarrow> i mod 65536 < 0x8000 \<and> 0x8000 < ?h"
    by (simp add: word_less_nat_alt unat_of_nat_seq)
  have up: "ss_highest_seq st < of_nat i \<longleftrightarrow> ?h < i mod 65536"
    by (simp add: word_less_nat_alt unat_of_nat_seq)
  have "unat (ss_roc (SrtpStreamState_update_roc st (of_nat i))) = i div 65536
      \<and> stream_index (SrtpStreamState_update_roc st (of_nat i)) = i"
    using assms(3) [unfolded stream_index_def]
  proof (cases rule: near_epochs)
    case same
    then have "?h \<le> i mod 65536" using lo i by linarith
    then have "ss_highest_seq st = of_nat i" if "\<not> ?h < i mod 65536"
      using that by (simp add: word_unat_eq_iff unat_of_nat_seq)
    with same \<open>?h \<le> i mod 65536\<close> assms(1) wrap up show ?thesis
      by (auto simp: SrtpStreamState_update_roc_def stream_index_def ext_index_div_mod)
  next
    case next_epoch
    then have "i mod 65536 < 0x8000 \<and> 0x8000 < ?h" using unat_u16_less [of "ss_highest_seq st"] by linarith
    with next_epoch assms(1) wrap show ?thesis
      by (auto simp: SrtpStreamState_update_roc_def stream_index_def ext_index_div_mod unat_succ_u32)
  next
    case prev_epoch
    then have "i < ?r * 65536" using i by linarith
    with lo show ?thesis by linarith
  qed
  then show "unat (ss_roc (SrtpStreamState_update_roc st (of_nat i))) = i div 65536"
    and "stream_index (SrtpStreamState_update_roc st (of_nat i)) = i" by simp_all
qed

section \<open>Properties\<close>

lemma check_run_indices:
  "map Some (map fst (check_run index_of check s ps))
     = track_with (\<lambda>s p. Some (index_of s p)) (\<lambda>s p. snd (check s p)) s ps"
  by (induction ps arbitrary: s) simp_all

text \<open>C12. Let a new SRTP stream deliver packets whose true indices are \<open>i # rest\<close>, in the
  order the network produced, with any loss, duplication and reordering that stays within
  half the sequence space of the newest packet.  The receiver, which sees only the low 16
  bits, gives every packet its true index and accepts exactly the packets that the
  specification, which remembers the whole set of accepted indices, accepts.\<close>

theorem srtp_replay_exact:
  assumes "i < 65536" "jitter_ok (2 ^ 48) i rest"
  shows "check_run guessed_index SrtpStreamState_check_replay SrtpStreamState_default
           (map of_nat (i # rest))
         = zip (i # rest) (spec_run {} (i # rest))"
proof -
  let ?run = "check_run guessed_index SrtpStreamState_check_replay"
  let ?st = "snd (SrtpStreamState_check_replay SrtpStreamState_default (of_nat i))"
  have ok: "stream_ok SrtpStreamState_default" and new: "\<not> ss_seq_initialized SrtpStreamState_default"
    by (simp_all add: stream_ok_def SrtpStreamState_default_def)
  have first: "guessed_index SrtpStreamState_default (of_nat i) = i"
    using new assms(1) by (simp add: guessed_index_first ext_index_div_mod)
  have "stream_index ?st = i" "ss_seq_initialized ?st"
    using assms(1)
    by (simp_all add: check_replay_first new stream_index_def)
      (simp add: SrtpStreamState_default_def ext_index_div_mod)
  with assms(2) have "map Some (map fst (?run ?st (map of_nat rest))) = map Some rest"
    by (simp only: check_run_indices srtp_rx.track_exact)
  then have idx: "map fst (?run SrtpStreamState_default (map of_nat (i # rest))) = i # rest"
    by (simp add: first inj_map_eq_map inj_def del: map_map)
  moreover have "map snd (?run SrtpStreamState_default (map of_nat (i # rest))) = spec_run {} (i # rest)"
    by (simp only: srtp.run_decisions [OF srtp.represents_empty [OF ok new]] idx)
  ultimately show ?thesis by (metis zip_map_fst_snd)
qed

theorem srtp_replay_exact_witness:
  "jitter_ok (2 ^ 48) 65534 [65537, 65535, 65535, 65536, 65600, 65536] \<and>
   check_run guessed_index SrtpStreamState_check_replay SrtpStreamState_default
     (map of_nat [65534, 65537, 65535, 65535, 65536, 65600, 65536])
   = [(65534, True), (65537, True), (65535, True), (65535, False), (65536, True), (65600, True), (65536, False)]"
proof -
  have "jitter_ok (2 ^ 48) 65534 [65537, 65535, 65535, 65536, 65600, 65536]"
    by (simp add: near_def)
  from srtp_replay_exact [OF _ this] this show ?thesis
    by (simp add: fresh_index_def)
qed

text \<open>Whatever sequence numbers arrive, in whatever order, no packet index is accepted
  twice on an SRTP stream.\<close>

lemma srtp_no_replay:
  "distinct (accepted_indices
     (check_run guessed_index SrtpStreamState_check_replay SrtpStreamState_default seqs))"
proof -
  have "srtp.represents SrtpStreamState_default {}"
    by (rule srtp.represents_empty) (simp_all add: stream_ok_def SrtpStreamState_default_def)
  from srtp.run_no_replay [OF this] show ?thesis by simp
qed

text \<open>C15. The SRTCP replay check accepts exactly the indices that the specification over the
  set of accepted indices accepts, and none of them twice.\<close>

theorem srtcp_replay_exact:
  "check_run (\<lambda>_. unat) SrtcpRecvState_check_replay SrtcpRecvState_default indices
     = zip (map unat indices) (spec_run {} (map unat indices))
   \<and> distinct (accepted_indices
       (check_run (\<lambda>_. unat) SrtcpRecvState_check_replay SrtcpRecvState_default indices))"
proof -
  have rep: "srtcp.represents SrtcpRecvState_default {}"
    by (rule srtcp.represents_empty) (simp_all add: SrtcpRecvState_default_def)
  have idx: "map fst (check_run (\<lambda>_. unat) SrtcpRecvState_check_replay s indices) = map unat indices" for s
    by (induction indices arbitrary: s) simp_all
  from srtcp.run_decisions [OF rep, of indices] srtcp.run_no_replay [OF rep, of indices] show ?thesis
    by (metis idx zip_map_fst_snd)
qed

end
