(* ===== verification/Rtp_Header.thy ===== *)
theory Rtp_Header
  imports Rtpbridge_Prelude
begin

unbundle bit_operations_syntax

text \<open>
  The RTP fixed header (\<open>src/src/media/rtp.rs\<close>) and the packet that travels between
  endpoints (\<open>src/src/session/endpoint.rs\<close>).  A slice or an index out of range, a panic
  in the source, is \<open>None\<close> in \<open>RtpHeader_payload\<close>; the lemmas show it does not happen on
  a header that \<open>RtpHeader_parse\<close> returned for the same bytes.
\<close>

section \<open>Definitions\<close>

record rtp_header =
  rh_version :: u8
  rh_padding :: bool
  rh_extension :: bool
  rh_csrc_count :: u8
  rh_marker :: bool
  rh_payload_type :: u8
  rh_sequence_number :: u16
  rh_timestamp :: u32
  rh_ssrc :: u32
  rh_header_len :: nat

record routed_rtp_packet =
  pk_source_endpoint_id :: endpoint_id
  pk_payload_type :: u8
  pk_sequence_number :: u16
  pk_timestamp :: u32
  pk_ssrc :: u32
  pk_marker :: bool
  pk_payload :: bytes

text \<open>\<open>checked_mul\<close> and \<open>checked_add\<close> on a 64-bit \<open>usize\<close>.\<close>

definition checked_usize :: "nat \<Rightarrow> nat option" where
  "checked_usize n = (if n < 2 ^ 64 then Some n else None)"

definition RtpHeader_parse :: "bytes \<Rightarrow> rtp_header option" where
  "RtpHeader_parse data =
     (if length data < 12 then None
      else
        let version = drop_bit 6 (data ! 0) AND 3 in
        if version \<noteq> 2 then None
        else
          let padding = (drop_bit 5 (data ! 0) AND 1 \<noteq> 0);
              extension = (drop_bit 4 (data ! 0) AND 1 \<noteq> 0);
              csrc_count = data ! 0 AND 15;
              marker = (drop_bit 7 (data ! 1) AND 1 \<noteq> 0);
              payload_type = data ! 1 AND 127;
              sequence_number = from_be16 (data ! 2) (data ! 3);
              timestamp = from_be32 (data ! 4) (data ! 5) (data ! 6) (data ! 7);
              ssrc = from_be32 (data ! 8) (data ! 9) (data ! 10) (data ! 11);
              header_len = 12 + unat csrc_count * 4;
              with_extension =
                (if extension then
                   if length data < header_len + 4 then None
                   else
                     let ext_len = unat (from_be16 (data ! (header_len + 2)) (data ! (header_len + 3)))
                     in Option.bind (checked_usize (ext_len * 4))
                          (\<lambda>b. checked_usize (header_len + (4 + b)))
                 else Some header_len)
          in case with_extension of
               None \<Rightarrow> None
             | Some header_len \<Rightarrow>
                 if length data < header_len then None
                 else Some \<lparr>rh_version = version, rh_padding = padding, rh_extension = extension,
                            rh_csrc_count = csrc_count, rh_marker = marker,
                            rh_payload_type = payload_type, rh_sequence_number = sequence_number,
                            rh_timestamp = timestamp, rh_ssrc = ssrc,
                            rh_header_len = header_len\<rparr>)"

definition RtpHeader_payload :: "rtp_header \<Rightarrow> bytes \<Rightarrow> bytes option" where
  "RtpHeader_payload h data =
     (if length data < rh_header_len h then None
      else
        let payload = drop (rh_header_len h) data in
        if rh_padding h \<and> payload \<noteq> [] then
          let pad_len = unat (payload ! (length payload - 1)) in
          if 0 < pad_len \<and> pad_len \<le> length payload
          then Some (take (length payload - pad_len) payload)
          else Some payload
        else Some payload)"

definition RtpHeader_build :: "u8 \<Rightarrow> u16 \<Rightarrow> u32 \<Rightarrow> u32 \<Rightarrow> bool \<Rightarrow> bytes \<Rightarrow> bytes" where
  "RtpHeader_build payload_type sequence_number timestamp ssrc marker payload =
     [0x80, (if marker then 0x80 else 0) OR (payload_type AND 0x7F)]
     @ to_be16 sequence_number @ to_be32 timestamp @ to_be32 ssrc @ payload"

section \<open>Lemmas\<close>

lemma length_RtpHeader_build [simp]: "length (RtpHeader_build pt seq ts ssrc m pl) = 12 + length pl"
  by (simp add: RtpHeader_build_def)

text \<open>The second byte carries the marker in its top bit and the payload type below it.\<close>

lemma marker_byte:
  fixes pt :: u8
  shows "(drop_bit 7 ((if m then 0x80 else 0) OR (pt AND 0x7F)) AND 1 \<noteq> 0) = m"
    and "((if m then 0x80 else 0) OR (pt AND 0x7F)) AND 0x7F = pt AND 0x7F"
proof -
  have "bit (pt AND 0x7F) 7 = False"
    by (simp add: bit_simps bit_numeral_rec)
  then show "(drop_bit 7 ((if m then 0x80 else 0) OR (pt AND 0x7F)) AND 1 \<noteq> 0) = m"
    by (simp add: and_one_eq odd_iff_mod_2_eq_one [symmetric] bit_iff_odd_drop_bit [symmetric]
        bit_simps bit_numeral_rec)
  show "((if m then 0x80 else 0) OR (pt AND 0x7F)) AND 0x7F = pt AND 0x7F"
    by (simp add: bit.conj_disj_distrib2 and.assoc)
qed

lemma RtpHeader_build_nth:
  "RtpHeader_build pt seq ts ssrc m pl ! 0 = 0x80"
  "RtpHeader_build pt seq ts ssrc m pl ! Suc 0 = (if m then 0x80 else 0) OR (pt AND 0x7F)"
  "RtpHeader_build pt seq ts ssrc m pl ! 2 = to_be16 seq ! 0"
  "RtpHeader_build pt seq ts ssrc m pl ! 3 = to_be16 seq ! Suc 0"
  "RtpHeader_build pt seq ts ssrc m pl ! 4 = to_be32 ts ! 0"
  "RtpHeader_build pt seq ts ssrc m pl ! 5 = to_be32 ts ! Suc 0"
  "RtpHeader_build pt seq ts ssrc m pl ! 6 = to_be32 ts ! 2"
  "RtpHeader_build pt seq ts ssrc m pl ! 7 = to_be32 ts ! 3"
  "RtpHeader_build pt seq ts ssrc m pl ! 8 = to_be32 ssrc ! 0"
  "RtpHeader_build pt seq ts ssrc m pl ! 9 = to_be32 ssrc ! Suc 0"
  "RtpHeader_build pt seq ts ssrc m pl ! 10 = to_be32 ssrc ! 2"
  "RtpHeader_build pt seq ts ssrc m pl ! 11 = to_be32 ssrc ! 3"
  by (simp_all add: RtpHeader_build_def nth_append nth_Cons')

lemma RtpHeader_parse_build:
  "RtpHeader_parse (RtpHeader_build pt seq ts ssrc m pl) =
     Some \<lparr>rh_version = 2, rh_padding = False, rh_extension = False, rh_csrc_count = 0,
           rh_marker = m, rh_payload_type = pt AND 0x7F, rh_sequence_number = seq,
           rh_timestamp = ts, rh_ssrc = ssrc, rh_header_len = 12\<rparr>"
  by (simp add: RtpHeader_parse_def RtpHeader_build_nth marker_byte be_simps)

lemma drop_RtpHeader_build: "drop 12 (RtpHeader_build pt seq ts ssrc m pl) = pl"
  by (simp add: RtpHeader_build_def)

text \<open>What a successful parse guarantees about the bytes.\<close>

lemma RtpHeader_parse_SomeD:
  assumes "RtpHeader_parse data = Some h"
  shows "12 \<le> rh_header_len h" and "rh_header_len h \<le> length data" and "rh_version h = 2"
    and "rh_sequence_number h = from_be16 (data ! 2) (data ! 3)"
    and "rh_ssrc h = from_be32 (data ! 8) (data ! 9) (data ! 10) (data ! 11)"
    and "12 + unat (data ! 0 AND 15) * 4 \<le> length data"
    and "drop_bit 6 (data ! 0) AND 3 = 2"
  using assms
  by (auto simp: RtpHeader_parse_def Let_def checked_usize_def split: if_splits option.splits
      Option.bind_splits)

end
