(* ===== verification/Srtp.thy ===== *)
theory Srtp
  imports Containers Srtp_Replay Rtp_Header
begin

unbundle bit_operations_syntax

text \<open>
  SRTP (\<open>src/src/media/srtp.rs\<close>).  AES-128 in counter mode, HMAC-SHA1 and
  base64 come from third-party crates: they are the fields of the parameter
  \<open>crypto_lib\<close>, and what a lemma needs of them is one of its hypotheses.  An operation
  returns its result and the context it leaves behind, on the error paths too, because the
  code creates a stream's entry and advances its rollover counter before it is done
  checking.  Packet counters are \<open>nat\<close>: the lemmas show them bounded by the key lifetime,
  at most \<open>2 ^ 48\<close>, far below the \<open>u64\<close> that holds them.
\<close>

section \<open>Definitions\<close>

definition SRTP_AUTH_TAG_LEN :: nat where "SRTP_AUTH_TAG_LEN = 10"
definition SRTP_MASTER_KEY_LEN :: nat where "SRTP_MASTER_KEY_LEN = 16"
definition SRTP_MASTER_SALT_LEN :: nat where "SRTP_MASTER_SALT_LEN = 14"
definition MAX_SRTP_PACKETS_PER_MASTER_KEY :: nat where "MAX_SRTP_PACKETS_PER_MASTER_KEY = 2 ^ 48"
definition MAX_SRTCP_PACKETS_PER_MASTER_KEY :: nat where "MAX_SRTCP_PACKETS_PER_MASTER_KEY = 2 ^ 31"
definition MAX_RECV_SSRCS :: nat where "MAX_RECV_SSRCS = 64"
definition MAX_SEND_SSRCS :: nat where "MAX_SEND_SSRCS = 64"

lemmas srtp_consts = SRTP_AUTH_TAG_LEN_def SRTP_MASTER_KEY_LEN_def SRTP_MASTER_SALT_LEN_def
  MAX_SRTP_PACKETS_PER_MASTER_KEY_def MAX_SRTCP_PACKETS_PER_MASTER_KEY_def
  MAX_RECV_SSRCS_def MAX_SEND_SSRCS_def

record crypto_lib =
  cl_aes128_ctr :: "bytes \<Rightarrow> bytes \<Rightarrow> nat \<Rightarrow> bytes"
  cl_hmac_sha1 :: "bytes \<Rightarrow> bytes \<Rightarrow> bytes"
  cl_base64_decode :: "string \<Rightarrow> bytes option"
  cl_base64_encode :: "bytes \<Rightarrow> string"

subsection \<open>Key derivation, initial vectors, header length\<close>

definition apply_keystream :: "crypto_lib \<Rightarrow> bytes \<Rightarrow> bytes \<Rightarrow> bytes \<Rightarrow> bytes" where
  "apply_keystream lib key iv buf = map2 (XOR) buf (cl_aes128_ctr lib key iv (length buf))"

definition srtp_kdf :: "crypto_lib \<Rightarrow> bytes \<Rightarrow> bytes \<Rightarrow> u8 \<Rightarrow> nat \<Rightarrow> bytes" where
  "srtp_kdf lib master_key master_salt label out_len =
     (let x = (replicate 14 0)[7 := label];
          iv = map2 (XOR) master_salt x @ [0, 0]
      in apply_keystream lib master_key iv (replicate out_len 0))"

definition compute_iv :: "bytes \<Rightarrow> u32 \<Rightarrow> u64 \<Rightarrow> bytes" where
  "compute_iv salt ssrc index =
     (let iv = replicate 4 0 @ to_be32 ssrc @ to_be64 (push_bit 16 index)
      in map2 (XOR) (take 14 iv) salt @ drop 14 iv)"

definition rtp_header_len :: "bytes \<Rightarrow> nat option" where
  "rtp_header_len packet =
     (if length packet < 12 then None
      else
        let cc = unat (packet ! 0 AND 0x0F);
            len = 12 + cc * 4
        in if length packet < len then None
           else if packet ! 0 AND 0x10 \<noteq> 0 then
             if length packet < len + 4 then None
             else
               let ext_words = unat (from_be16 (packet ! (len + 2)) (packet ! (len + 3)))
               in case Option.bind (Option.bind (checked_usize (ext_words * 4))
                         (\<lambda>b. checked_usize (b + 4))) (\<lambda>b. checked_usize (b + len)) of
                    None \<Rightarrow> None
                  | Some len \<Rightarrow> if length packet < len then None else Some len
           else Some len)"

subsection \<open>The SRTP context\<close>

record srtp_context =
  sx_cipher_key :: bytes
  sx_cipher_salt :: bytes
  sx_auth_key :: bytes
  sx_streams :: "(u32, srtp_stream_state) hash_map"
  sx_packet_lifetime :: nat

definition SrtpContext_from_sdes_key_with_lifetime ::
  "crypto_lib \<Rightarrow> string \<Rightarrow> nat \<Rightarrow> srtp_error + srtp_context" where
  "SrtpContext_from_sdes_key_with_lifetime lib key_b64 packet_lifetime =
     (if packet_lifetime = 0 \<or> MAX_SRTP_PACKETS_PER_MASTER_KEY < packet_lifetime
      then Inl BadKeyLifetime
      else case cl_base64_decode lib key_b64 of
        None \<Rightarrow> Inl InvalidBase64
      | Some key_material \<Rightarrow>
          if length key_material \<noteq> SRTP_MASTER_KEY_LEN + SRTP_MASTER_SALT_LEN
          then Inl (BadKeyMaterial (length key_material))
          else
            let master_key = take 16 key_material;
                master_salt = take 14 (drop 16 key_material)
            in Inr \<lparr>sx_cipher_key = srtp_kdf lib master_key master_salt 0x00 16,
                    sx_cipher_salt = srtp_kdf lib master_key master_salt 0x02 14,
                    sx_auth_key = srtp_kdf lib master_key master_salt 0x01 20,
                    sx_streams = [], sx_packet_lifetime = packet_lifetime\<rparr>)"

definition SrtpContext_from_sdes_key :: "crypto_lib \<Rightarrow> string \<Rightarrow> srtp_error + srtp_context" where
  "SrtpContext_from_sdes_key lib key_b64 =
     SrtpContext_from_sdes_key_with_lifetime lib key_b64 MAX_SRTP_PACKETS_PER_MASTER_KEY"

definition SrtpContext_tighten_packet_lifetime :: "srtp_context \<Rightarrow> nat \<Rightarrow> srtp_context" where
  "SrtpContext_tighten_packet_lifetime cx packet_lifetime = cx\<lparr>sx_packet_lifetime := packet_lifetime\<rparr>"

definition SrtpContext_reset_sequence_state :: "srtp_context \<Rightarrow> srtp_context" where
  "SrtpContext_reset_sequence_state cx =
     cx\<lparr>sx_streams := map (\<lambda>(k, st). (k, SrtpStreamState_reset_sequence_state st)) (sx_streams cx)\<rparr>"

text \<open>Writing back the stream the code holds a mutable reference to.\<close>

definition put_stream :: "u32 \<Rightarrow> srtp_stream_state \<Rightarrow> srtp_context \<Rightarrow> srtp_context" where
  "put_stream ssrc st cx = cx\<lparr>sx_streams := hm_insert ssrc st (sx_streams cx)\<rparr>"

definition SrtpContext_protect ::
  "crypto_lib \<Rightarrow> srtp_context \<Rightarrow> bytes \<Rightarrow> (srtp_error + bytes) \<times> srtp_context" where
  "SrtpContext_protect lib cx rtp_packet =
     (if length rtp_packet < 12 then (Inl PacketTooShort, cx)
      else
        let ssrc = from_be32 (rtp_packet ! 8) (rtp_packet ! 9) (rtp_packet ! 10) (rtp_packet ! 11);
            seq = from_be16 (rtp_packet ! 2) (rtp_packet ! 3)
        in if \<not> hm_contains_key (sx_streams cx) ssrc \<and> MAX_SEND_SSRCS \<le> hm_len (sx_streams cx)
           then (Inl (TooManySsrcs (hm_len (sx_streams cx))), cx)
           else
             let st = hm_entry (sx_streams cx) ssrc SrtpStreamState_default in
             if sx_packet_lifetime cx \<le> ss_protected_packets st
             then (Inl LifetimeExhausted, put_stream ssrc st cx)
             else
               let st = SrtpStreamState_update_roc st seq;
                   roc = ss_roc st;
                   index = push_bit 16 (ucast roc) OR ucast seq
               in case rtp_header_len rtp_packet of
                    None \<Rightarrow> (Inl PacketTooShortForHeader, put_stream ssrc st cx)
                  | Some header_len \<Rightarrow>
                      let iv = compute_iv (sx_cipher_salt cx) ssrc index;
                          output = take header_len rtp_packet
                            @ apply_keystream lib (sx_cipher_key cx) iv (drop header_len rtp_packet);
                          tag = cl_hmac_sha1 lib (sx_auth_key cx) (output @ to_be32 roc)
                      in (Inr (output @ take SRTP_AUTH_TAG_LEN tag),
                          put_stream ssrc
                            (st\<lparr>ss_protected_packets := ss_protected_packets st + 1\<rparr>) cx))"

definition SrtpContext_unprotect ::
  "crypto_lib \<Rightarrow> srtp_context \<Rightarrow> bytes \<Rightarrow> (srtp_error + bytes) \<times> srtp_context" where
  "SrtpContext_unprotect lib cx srtp_packet =
     (if length srtp_packet < 12 + SRTP_AUTH_TAG_LEN then (Inl PacketTooShort, cx)
      else
        let auth_portion = take (length srtp_packet - SRTP_AUTH_TAG_LEN) srtp_packet;
            received_tag = drop (length srtp_packet - SRTP_AUTH_TAG_LEN) srtp_packet;
            seq = from_be16 (srtp_packet ! 2) (srtp_packet ! 3);
            ssrc = from_be32 (srtp_packet ! 8) (srtp_packet ! 9) (srtp_packet ! 10) (srtp_packet ! 11);
            estimated_roc = (case hm_get (sx_streams cx) ssrc of
                               Some st \<Rightarrow> fst (SrtpStreamState_estimate_roc st seq)
                             | None \<Rightarrow> 0);
            computed_tag = cl_hmac_sha1 lib (sx_auth_key cx) (auth_portion @ to_be32 estimated_roc)
        in if take SRTP_AUTH_TAG_LEN computed_tag \<noteq> received_tag then (Inl AuthTagMismatch, cx)
           else if \<not> hm_contains_key (sx_streams cx) ssrc \<and> MAX_RECV_SSRCS \<le> hm_len (sx_streams cx)
           then (Inl (TooManySsrcs (hm_len (sx_streams cx))), cx)
           else
             let st = hm_entry (sx_streams cx) ssrc SrtpStreamState_default in
             if sx_packet_lifetime cx \<le> ss_accepted_packets st
             then (Inl LifetimeExhausted, put_stream ssrc st cx)
             else case SrtpStreamState_check_replay st seq of
               (Inl e, st) \<Rightarrow> (Inl e, put_stream ssrc st cx)
             | (Inr (_, index), st) \<Rightarrow>
                 (case rtp_header_len auth_portion of
                    None \<Rightarrow> (Inl PacketTooShortForHeader, put_stream ssrc st cx)
                  | Some header_len \<Rightarrow>
                      let iv = compute_iv (sx_cipher_salt cx) ssrc index;
                          output = take header_len auth_portion
                            @ apply_keystream lib (sx_cipher_key cx) iv (drop header_len auth_portion)
                      in (Inr output,
                          put_stream ssrc
                            (st\<lparr>ss_accepted_packets := ss_accepted_packets st + 1\<rparr>) cx)))"

section \<open>Headers and keystreams\<close>

definition packet_ssrc :: "bytes \<Rightarrow> u32" where
  "packet_ssrc p = from_be32 (p ! 8) (p ! 9) (p ! 10) (p ! 11)"

definition packet_seq :: "bytes \<Rightarrow> u16" where
  "packet_seq p = from_be16 (p ! 2) (p ! 3)"

text \<open>What is assumed of the cipher and the MAC: their output lengths.\<close>

definition crypto_ok :: "crypto_lib \<Rightarrow> bool" where
  "crypto_ok lib \<longleftrightarrow> (\<forall>key iv n. length (cl_aes128_ctr lib key iv n) = n)
     \<and> (\<forall>key msg. length (cl_hmac_sha1 lib key msg) = 20)"

lemma length_apply_keystream: "crypto_ok lib \<Longrightarrow> length (apply_keystream lib key iv buf) = length buf"
  by (simp add: apply_keystream_def crypto_ok_def)

lemma map2_xor_cancel: "length ks = length xs \<Longrightarrow> map2 (XOR) (map2 (XOR) xs ks) ks = xs" for xs :: bytes
  by (induction xs ks rule: list_induct2') (simp_all add: xor.assoc)

lemma apply_keystream_cancel:
  "crypto_ok lib \<Longrightarrow> apply_keystream lib key iv (apply_keystream lib key iv buf) = buf"
  by (simp add: apply_keystream_def crypto_ok_def map2_xor_cancel)

lemma rtp_header_len_bounds:
  "rtp_header_len p = Some n \<Longrightarrow> 12 + unat (p ! 0 AND 0x0F) * 4 \<le> n \<and> n \<le> length p
     \<and> (p ! 0 AND 0x10 \<noteq> 0 \<longrightarrow> 12 + unat (p ! 0 AND 0x0F) * 4 + 4 \<le> n)"
  by (auto simp: rtp_header_len_def Let_def checked_usize_def split: if_splits option.splits)

text \<open>The header length is a function of the header's bytes.\<close>

lemma rtp_header_len_prefix:
  assumes "rtp_header_len p = Some n" "take n q = take n p" "n \<le> length q"
  shows "rtp_header_len q = Some n"
proof -
  let ?c = "12 + unat (p ! 0 AND 0x0F) * 4"
  have b: "?c \<le> n" "n \<le> length p" "p ! 0 AND 0x10 \<noteq> 0 \<longrightarrow> ?c + 4 \<le> n"
    using rtp_header_len_bounds [OF assms(1)] by simp_all
  have nth: "q ! j = p ! j" if "j < n" for j
    using that assms(2) by (metis nth_take)
  have "q ! 0 = p ! 0" by (rule nth) (use b in linarith)
  moreover have "q ! (?c + 2) = p ! (?c + 2)" "q ! (?c + 3) = p ! (?c + 3)" if "p ! 0 AND 0x10 \<noteq> 0"
    by (rule nth; use b that in linarith)+
  ultimately show ?thesis
    using assms(1,3) b
    by (auto simp: rtp_header_len_def Let_def split: if_splits option.splits)
qed

text \<open>A packet as the sender puts it on the wire under a given rollover counter.\<close>

definition seal :: "crypto_lib \<Rightarrow> srtp_context \<Rightarrow> u32 \<Rightarrow> bytes \<Rightarrow> bytes" where
  "seal lib cx roc p =
     (let n = the (rtp_header_len p);
          out = take n p @ apply_keystream lib (sx_cipher_key cx)
            (compute_iv (sx_cipher_salt cx) (packet_ssrc p) (push_bit 16 (ucast roc) OR ucast (packet_seq p)))
            (drop n p)
      in out @ take SRTP_AUTH_TAG_LEN (cl_hmac_sha1 lib (sx_auth_key cx) (out @ to_be32 roc)))"

definition same_keys :: "srtp_context \<Rightarrow> srtp_context \<Rightarrow> bool" where
  "same_keys a b \<longleftrightarrow> sx_cipher_key a = sx_cipher_key b \<and> sx_cipher_salt a = sx_cipher_salt b
     \<and> sx_auth_key a = sx_auth_key b \<and> sx_packet_lifetime a = sx_packet_lifetime b"

lemma seal_same_keys: "same_keys a b \<Longrightarrow> seal lib a = seal lib b"
  by (simp add: same_keys_def seal_def fun_eq_iff)

lemma same_keys_put_stream [simp]: "same_keys a (put_stream ssrc st b) = same_keys a b"
  by (simp add: same_keys_def put_stream_def)

definition entry_of :: "srtp_context \<Rightarrow> u32 \<Rightarrow> srtp_stream_state" where
  "entry_of cx ssrc = hm_entry (sx_streams cx) ssrc SrtpStreamState_default"

definition has_room :: "srtp_context \<Rightarrow> u32 \<Rightarrow> bool" where
  "has_room cx ssrc \<longleftrightarrow> hm_contains_key (sx_streams cx) ssrc \<or> hm_len (sx_streams cx) < 64"

lemma put_stream_simps [simp]:
  "entry_of (put_stream ssrc st cx) ssrc = st" "has_room (put_stream ssrc st cx) ssrc"
  by (simp_all add: entry_of_def has_room_def put_stream_def hm_entry_def hm_contains_key_def)

lemma protect_seal:
  assumes "rtp_header_len p = Some n" "has_room cx (packet_ssrc p)"
    and "st = entry_of cx (packet_ssrc p)" "ss_protected_packets st < sx_packet_lifetime cx"
    and "st' = SrtpStreamState_update_roc st (packet_seq p)"
  shows "SrtpContext_protect lib cx p =
     (Inr (seal lib cx (ss_roc st') p),
      put_stream (packet_ssrc p) (st'\<lparr>ss_protected_packets := ss_protected_packets st' + 1\<rparr>) cx)"
proof -
  have "12 \<le> length p" using rtp_header_len_bounds [OF assms(1)] by simp
  with assms show ?thesis
    by (simp add: SrtpContext_protect_def seal_def packet_ssrc_def packet_seq_def entry_of_def
        has_room_def srtp_consts Let_def not_le)
qed

section \<open>Opening a sealed packet\<close>

lemma seal_parts:
  assumes "crypto_ok lib" "rtp_header_len p = Some n"
  obtains out tag where "seal lib cx roc p = out @ tag" "length out = length p" "length tag = 10"
    "take n out = take n p" "rtp_header_len out = Some n"
    "tag = take 10 (cl_hmac_sha1 lib (sx_auth_key cx) (out @ to_be32 roc))"
    "drop n out = apply_keystream lib (sx_cipher_key cx) (compute_iv (sx_cipher_salt cx) (packet_ssrc p)
       (push_bit 16 (ucast roc) OR ucast (packet_seq p))) (drop n p)"
proof -
  let ?body = "apply_keystream lib (sx_cipher_key cx) (compute_iv (sx_cipher_salt cx) (packet_ssrc p)
       (push_bit 16 (ucast roc) OR ucast (packet_seq p))) (drop n p)"
  let ?out = "take n p @ ?body"
  have n: "n \<le> length p" using rtp_header_len_bounds [OF assms(2)] by simp
  then have out: "length ?out = length p" "take n ?out = take n p" "drop n ?out = ?body"
    by (simp_all add: length_apply_keystream [OF assms(1)])
  have hdr: "rtp_header_len ?out = Some n"
    by (rule rtp_header_len_prefix [OF assms(2) out(2)]) (simp only: out(1) n)
  have "seal lib cx roc p = ?out @ take 10 (cl_hmac_sha1 lib (sx_auth_key cx) (?out @ to_be32 roc))"
    by (simp add: seal_def assms(2) Let_def SRTP_AUTH_TAG_LEN_def)
  moreover have "length (take 10 (cl_hmac_sha1 lib (sx_auth_key cx) (?out @ to_be32 roc))) = 10"
    using assms(1) by (simp add: crypto_ok_def)
  ultimately show thesis by (rule that [OF _ out(1) _ out(2) hdr refl out(3)])
qed

lemma header_fields_prefix:
  assumes "12 \<le> n" "take n q = take n p" "n \<le> length q"
  shows "packet_ssrc (q @ t) = packet_ssrc p" "packet_seq (q @ t) = packet_seq p"
proof -
  have "(q @ t) ! j = p ! j" if "j < n" for j
    using that assms(2,3) by (metis nth_append nth_take order_less_le_trans)
  with assms(1) show "packet_ssrc (q @ t) = packet_ssrc p" "packet_seq (q @ t) = packet_seq p"
    by (simp_all add: packet_ssrc_def packet_seq_def)
qed

lemma estimate_entry:
  "(case hm_get (sx_streams cx) ssrc of Some st \<Rightarrow> fst (SrtpStreamState_estimate_roc st seq) | None \<Rightarrow> 0)
     = fst (SrtpStreamState_estimate_roc (entry_of cx ssrc) seq)"
  by (simp add: entry_of_def hm_entry_def SrtpStreamState_default_def SrtpStreamState_estimate_roc_def
      split: option.split)

lemma check_replay_result:
  "SrtpStreamState_check_replay st seq = (Inr (r, index), st') \<Longrightarrow>
     index = push_bit 16 (ucast (fst (SrtpStreamState_estimate_roc st seq))) OR ucast seq"
  by (cases "ss_seq_initialized st")
    (auto simp: check_replay_started check_replay_first SrtpStreamState_estimate_roc_def Let_def
      split: if_splits)

text \<open>A receiver with the same keys whose estimate is the sender's rollover counter gets past
  authentication; it returns the packet unless the replay check refuses it.\<close>

lemma unprotect_seal:
  assumes lib: "crypto_ok lib" and hdr: "rtp_header_len p = Some n" and keys: "same_keys tx rx"
    and room: "has_room rx (packet_ssrc p)" and st: "st = entry_of rx (packet_ssrc p)"
    and life: "ss_accepted_packets st < sx_packet_lifetime rx"
    and roc: "fst (SrtpStreamState_estimate_roc st (packet_seq p)) = roc"
    and chk: "SrtpStreamState_check_replay st (packet_seq p) = (r, st')"
  shows "SrtpContext_unprotect lib rx (seal lib tx roc p) =
     (case r of Inl e \<Rightarrow> (Inl e, put_stream (packet_ssrc p) st' rx)
      | Inr _ \<Rightarrow> (Inr p, put_stream (packet_ssrc p)
                          (st'\<lparr>ss_accepted_packets := ss_accepted_packets st' + 1\<rparr>) rx))"
proof -
  obtain out tag where s: "seal lib tx roc p = out @ tag" "length out = length p" "length tag = 10"
    and pre: "take n out = take n p" "rtp_header_len out = Some n"
    and tag: "tag = take 10 (cl_hmac_sha1 lib (sx_auth_key tx) (out @ to_be32 roc))"
    and body: "drop n out = apply_keystream lib (sx_cipher_key tx) (compute_iv (sx_cipher_salt tx)
       (packet_ssrc p) (push_bit 16 (ucast roc) OR ucast (packet_seq p))) (drop n p)"
    by (rule seal_parts [OF lib hdr])
  have n: "12 \<le> n" "n \<le> length p" using rtp_header_len_bounds [OF hdr] by simp_all
  have fields: "packet_ssrc (out @ tag) = packet_ssrc p" "packet_seq (out @ tag) = packet_seq p"
    using header_fields_prefix [OF n(1) pre(1)] n s by simp_all
  have index: "index = push_bit 16 (ucast roc) OR ucast (packet_seq p)" if "r = Inr (a, index)" for a index
    using that chk roc check_replay_result by blast
  have k: "sx_auth_key rx = sx_auth_key tx" "sx_cipher_key rx = sx_cipher_key tx"
      "sx_cipher_salt rx = sx_cipher_salt tx"
    using keys by (simp_all add: same_keys_def)
  have "take n p @ drop n p = p" by simp
  then have plain: "take n out @ apply_keystream lib (sx_cipher_key rx) (compute_iv (sx_cipher_salt rx)
       (packet_ssrc p) (push_bit 16 (ucast roc) OR ucast (packet_seq p))) (drop n out) = p"
    by (simp only: pre body k apply_keystream_cancel [OF lib])
  have go: "(\<not> hm_contains_key (sx_streams rx) (packet_ssrc p) \<and> 64 \<le> hm_len (sx_streams rx)) = False"
    using room by (auto simp: has_room_def)
  have open_seal: "SrtpContext_unprotect lib rx (out @ tag) =
     (case r of Inl e \<Rightarrow> (Inl e, put_stream (packet_ssrc p) st' rx)
      | Inr (_, index) \<Rightarrow> (Inr (take n out @ apply_keystream lib (sx_cipher_key rx)
            (compute_iv (sx_cipher_salt rx) (packet_ssrc p) index) (drop n out)),
          put_stream (packet_ssrc p) (st'\<lparr>ss_accepted_packets := ss_accepted_packets st' + 1\<rparr>) rx))"
    using s n life chk pre(2) fields
    by (simp add: roc [unfolded st] st tag [symmetric] SrtpContext_unprotect_def Let_def srtp_consts not_le k go
        packet_ssrc_def [symmetric] packet_seq_def [symmetric] estimate_entry
        entry_of_def [symmetric] split: sum.split)
  show ?thesis
  proof (cases r)
    case (Inl e)
    show ?thesis unfolding s(1) open_seal Inl sum.case ..
  next
    case (Inr x)
    obtain a j where x: "x = (a, j)" by (cases x)
    have j: "j = push_bit 16 (ucast roc) OR ucast (packet_seq p)"
      by (rule index [of a]) (simp add: Inr x)
    show ?thesis unfolding s(1) open_seal Inr x j sum.case prod.case plain ..
  qed
qed

section \<open>A whole stream\<close>

text \<open>Well-formed packets of one SSRC, numbered consecutively from index \<open>i\<close>.\<close>

fun numbered :: "u32 \<Rightarrow> nat \<Rightarrow> bytes list \<Rightarrow> bool" where
  "numbered ssrc i [] = True"
| "numbered ssrc i (p # ps) = (rtp_header_len p \<noteq> None \<and> packet_ssrc p = ssrc
     \<and> packet_seq p = of_nat i \<and> numbered ssrc (Suc i) ps)"

lemma numbered_nth:
  "numbered ssrc i ps \<Longrightarrow> k < length ps \<Longrightarrow>
     rtp_header_len (ps ! k) \<noteq> None \<and> packet_ssrc (ps ! k) = ssrc \<and> packet_seq (ps ! k) = of_nat (i + k)"
  by (induction ps arbitrary: i k) (auto simp: nth_Cons split: nat.split)

definition sends_next :: "srtp_stream_state \<Rightarrow> nat \<Rightarrow> bool" where
  "sends_next st i \<longleftrightarrow> (if ss_seq_initialized st then Suc (stream_index st) = i else i < 65536 \<and> ss_roc st = 0)"

lemma update_roc_next:
  assumes "sends_next st i" "i < 2 ^ 48"
  shows "ss_roc (SrtpStreamState_update_roc st (of_nat i)) = of_nat (i div 65536)
    \<and> stream_index (SrtpStreamState_update_roc st (of_nat i)) = i"
proof (cases "ss_seq_initialized st")
  case True
  then have "stream_index st \<le> i" "near (2 ^ 48) (stream_index st) i"
    using assms by (auto simp: sends_next_def near_def)
  from update_roc_forward [OF True this] show ?thesis by (metis of_nat_unat ucast_id)
next
  case False
  then show ?thesis
    using assms(1)
    by (simp add: sends_next_def SrtpStreamState_update_roc_def stream_index_def ext_index_div_mod)
qed

lemma protect_stream:
  assumes "numbered ssrc i ps" "sends_next (entry_of cx ssrc) i" "i + length ps \<le> 2 ^ 48"
    and "has_room cx ssrc" "same_keys cx0 cx"
    and "ss_protected_packets (entry_of cx ssrc) + length ps \<le> sx_packet_lifetime cx"
    and "k < length ps"
  shows "results_with (SrtpContext_protect lib) cx ps ! k
     = Inr (seal lib cx0 (of_nat ((i + k) div 65536)) (ps ! k))"
  using assms
proof (induction ps arbitrary: i cx k)
  case (Cons p ps)
  let ?st = "entry_of cx ssrc"
  let ?st' = "SrtpStreamState_update_roc ?st (of_nat i)"
  obtain n where n: "rtp_header_len p = Some n" using Cons.prems(1) by auto
  have p: "packet_ssrc p = ssrc" "packet_seq p = of_nat i" using Cons.prems(1) by auto
  have roc: "ss_roc ?st' = of_nat (i div 65536)" "stream_index ?st' = i"
    using update_roc_next [OF Cons.prems(2)] Cons.prems(3) by auto
  have count: "ss_protected_packets ?st' = ss_protected_packets ?st"
    by (simp add: SrtpStreamState_update_roc_def)
  let ?cx' = "put_stream ssrc (?st'\<lparr>ss_protected_packets := ss_protected_packets ?st' + 1\<rparr>) cx"
  have step: "SrtpContext_protect lib cx p = (Inr (seal lib cx0 (of_nat (i div 65536)) p), ?cx')"
    using protect_seal [OF n, of cx ?st ?st' lib] Cons.prems(4-6) p roc(1) seal_same_keys [of cx0 cx lib] by simp
  have "sends_next (entry_of ?cx' ssrc) (Suc i)"
    using roc(2) update_roc_initialized [of ?st] by (simp add: sends_next_def stream_index_def)
  moreover have "sx_packet_lifetime ?cx' = sx_packet_lifetime cx" by (simp add: put_stream_def)
  ultimately have "results_with (SrtpContext_protect lib) ?cx' ps ! j
      = Inr (seal lib cx0 (of_nat ((Suc i + j) div 65536)) (ps ! j))" if "j < length ps" for j
    using Cons.prems that count by (intro Cons.IH) simp_all
  with step Cons.prems(7) show ?case by (cases k) simp_all
qed simp

text \<open>What a receiver's stream must be to number packet \<open>i\<close> correctly.\<close>

definition hears :: "srtp_stream_state \<Rightarrow> nat \<Rightarrow> bool" where
  "hears st i \<longleftrightarrow> (if ss_seq_initialized st then near (2 ^ 48) (stream_index st) i else i < 65536)"

lemma hears_estimate:
  assumes "hears st i"
  shows "fst (SrtpStreamState_estimate_roc st (of_nat i)) = of_nat (i div 65536)"
    and "guessed_index st (of_nat i) = i"
proof -
  have "unat (fst (SrtpStreamState_estimate_roc st (of_nat i))) = i div 65536"
    using assms by (cases "ss_seq_initialized st")
      (simp_all add: hears_def estimate_roc_near, simp add: SrtpStreamState_estimate_roc_def)
  then show "fst (SrtpStreamState_estimate_roc st (of_nat i)) = of_nat (i div 65536)"
    by (metis of_nat_unat ucast_id)
  show "guessed_index st (of_nat i) = i"
    using assms by (cases "ss_seq_initialized st")
      (simp_all add: hears_def guessed_index_near guessed_index_first ext_index_div_mod)
qed

lemma represents_counted [simp]:
  "srtp.represents (st\<lparr>ss_accepted_packets := n\<rparr>) acc = srtp.represents st acc"
  by (simp add: srtp.represents_def stream_ok_def stream_index_def)

lemma check_replay_counts [simp]:
  "ss_accepted_packets (snd (SrtpStreamState_check_replay st seq)) = ss_accepted_packets st"
  by (cases "ss_seq_initialized st") (simp_all add: check_replay_started check_replay_first)

definition heard_up_to :: "srtp_stream_state \<Rightarrow> nat \<Rightarrow> nat" where
  "heard_up_to st i = (if ss_seq_initialized st then max (stream_index st) i else i)"

lemma check_replay_heard:
  assumes "hears st i" "stream_ok st"
  shows "stream_index (snd (SrtpStreamState_check_replay st (of_nat i))) = heard_up_to st i"
proof (cases "ss_seq_initialized st")
  case True
  with hears_estimate(2) [OF assms(1)] show ?thesis by (simp add: check_replay_index heard_up_to_def)
next
  case False
  with assms show ?thesis
    by (simp add: check_replay_first stream_index_def hears_def stream_ok_def heard_up_to_def ext_index_div_mod)
qed

lemma unprotect_step:
  fixes i :: nat
  assumes "crypto_ok lib" "rtp_header_len p = Some n" "packet_ssrc p = ssrc" "packet_seq p = of_nat i"
    and "same_keys tx rx" "has_room rx ssrc" "hears (entry_of rx ssrc) i"
    and "ss_accepted_packets (entry_of rx ssrc) < sx_packet_lifetime rx"
    and "srtp.represents (entry_of rx ssrc) acc"
  obtains r st' where
    "SrtpContext_unprotect lib rx (seal lib tx (of_nat (i div 65536)) p) = (r, put_stream ssrc st' rx)"
    "result_ok r = (if fresh_index acc i then Some p else None)"
    "srtp.represents st' (if fresh_index acc i then insert i acc else acc)"
    "ss_seq_initialized st'" "stream_index st' = heard_up_to (entry_of rx ssrc) i"
    "ss_accepted_packets st' \<le> Suc (ss_accepted_packets (entry_of rx ssrc))"
proof -
  let ?st = "entry_of rx ssrc"
  obtain r st' where chk: "SrtpStreamState_check_replay ?st (of_nat i) = (r, st')" by fastforce
  have idx: "guessed_index ?st (of_nat i) = i" by (rule hears_estimate(2) [OF assms(7)])
  have sim: "if fresh_index acc i then (\<exists>x. r = Inr x) \<and> srtp.represents st' (insert i acc)
      else (\<exists>e. r = Inl e) \<and> st' = ?st"
    using srtp.simulate [OF assms(9), of "of_nat i"] unfolding idx chk by auto
  have st': "ss_seq_initialized st'" "stream_index st' = heard_up_to ?st i"
      "ss_accepted_packets st' = ss_accepted_packets ?st"
    using check_replay_initialized [of ?st "of_nat i"] check_replay_heard [OF assms(7)] assms(9)
      check_replay_counts [of ?st "of_nat i"] chk by (simp_all add: srtp.represents_def)
  have un: "SrtpContext_unprotect lib rx (seal lib tx (of_nat (i div 65536)) p) =
     (case r of Inl e \<Rightarrow> (Inl e, put_stream ssrc st' rx)
      | Inr _ \<Rightarrow> (Inr p, put_stream ssrc (st'\<lparr>ss_accepted_packets := ss_accepted_packets st' + 1\<rparr>) rx))"
    by (rule unprotect_seal [OF assms(1,2,5), unfolded assms(3,4), OF assms(6) refl assms(8)
          hears_estimate(1) [OF assms(7)] chk])
  show thesis
  proof (cases "fresh_index acc i")
    case True
    then obtain x where r: "r = Inr x" using sim by auto
    show ?thesis
      using True r un sim st'
      by (intro that [of "Inr p" "st'\<lparr>ss_accepted_packets := ss_accepted_packets st' + 1\<rparr>"])
        (simp_all add: stream_index_def)
  next
    case False
    then obtain e where r: "r = Inl e" using sim by auto
    show ?thesis
      using False r un sim st' assms(9) by (intro that [of "Inl e" st']) simp_all
  qed
qed

fun hears_all :: "srtp_stream_state \<Rightarrow> nat list \<Rightarrow> bool" where
  "hears_all st [] = True"
| "hears_all st (i # rest) = (hears st i \<and> jitter_ok (2 ^ 48) (heard_up_to st i) rest)"

lemma hears_all_started: "ss_seq_initialized st \<Longrightarrow> jitter_ok (2 ^ 48) (stream_index st) is \<Longrightarrow> hears_all st is"
  by (cases "is") (simp_all add: hears_def heard_up_to_def)

lemma unprotect_stream:
  assumes "crypto_ok lib" "numbered ssrc i ps" "\<forall>k \<in> set ks. k < length ps"
    and "same_keys tx rx" "has_room rx ssrc" "hears_all (entry_of rx ssrc) (map ((+) i) ks)"
    and "ss_accepted_packets (entry_of rx ssrc) + length ks \<le> sx_packet_lifetime rx"
    and "srtp.represents (entry_of rx ssrc) acc"
  shows "map result_ok (results_with (SrtpContext_unprotect lib) rx
           (map (\<lambda>k. seal lib tx (of_nat ((i + k) div 65536)) (ps ! k)) ks))
    = map2 (\<lambda>k fresh. if fresh then Some (ps ! k) else None) ks (spec_run acc (map ((+) i) ks))"
  using assms(3-)
proof (induction ks arbitrary: rx acc)
  case (Cons k ks)
  have p: "rtp_header_len (ps ! k) \<noteq> None" "packet_ssrc (ps ! k) = ssrc" "packet_seq (ps ! k) = of_nat (i + k)"
    using numbered_nth [OF assms(2)] Cons.prems(1) by auto
  then obtain n where n: "rtp_header_len (ps ! k) = Some n" by auto
  have hears: "hears (entry_of rx ssrc) (i + k)"
    and rest: "jitter_ok (2 ^ 48) (heard_up_to (entry_of rx ssrc) (i + k)) (map ((+) i) ks)"
    using Cons.prems(4) by simp_all
  have life: "ss_accepted_packets (entry_of rx ssrc) < sx_packet_lifetime rx" using Cons.prems(5) by simp
  obtain r st' where st':
    "SrtpContext_unprotect lib rx (seal lib tx (of_nat ((i + k) div 65536)) (ps ! k)) = (r, put_stream ssrc st' rx)"
    "result_ok r = (if fresh_index acc (i + k) then Some (ps ! k) else None)"
    "srtp.represents st' (if fresh_index acc (i + k) then insert (i + k) acc else acc)"
    "ss_seq_initialized st'" "stream_index st' = heard_up_to (entry_of rx ssrc) (i + k)"
    "ss_accepted_packets st' \<le> Suc (ss_accepted_packets (entry_of rx ssrc))"
    by (rule unprotect_step [OF assms(1) n p(2,3) Cons.prems(2,3) hears life Cons.prems(6)])
  have "sx_packet_lifetime (put_stream ssrc st' rx) = sx_packet_lifetime rx" by (simp add: put_stream_def)
  then have "map result_ok (results_with (SrtpContext_unprotect lib) (put_stream ssrc st' rx)
         (map (\<lambda>k. seal lib tx (of_nat ((i + k) div 65536)) (ps ! k)) ks))
      = map2 (\<lambda>k fresh. if fresh then Some (ps ! k) else None) ks
          (spec_run (if fresh_index acc (i + k) then insert (i + k) acc else acc) (map ((+) i) ks))"
    using Cons.prems(1,2,5) st'(3-6) rest by (intro Cons.IH) (simp_all add: hears_all_started)
  with st'(1,2) show ?case by simp
qed simp

section \<open>Properties of SRTP\<close>

lemma from_sdes_key_new:
  assumes "SrtpContext_from_sdes_key_with_lifetime lib key life = Inr cx"
  shows "entry_of cx ssrc = SrtpStreamState_default" "has_room cx ssrc" "sx_packet_lifetime cx = life"
    "sx_streams cx = []" "0 < life \<and> life \<le> 2 ^ 48"
  using assms
  by (auto simp: SrtpContext_from_sdes_key_with_lifetime_def Let_def entry_of_def hm_entry_def
      has_room_def hm_len_def srtp_consts split: if_splits option.splits)

text \<open>A stream through two contexts that have not seen its SSRC yet.\<close>

definition fresh_context :: "srtp_context \<Rightarrow> u32 \<Rightarrow> bool" where
  "fresh_context cx ssrc \<longleftrightarrow> entry_of cx ssrc = SrtpStreamState_default \<and> has_room cx ssrc"

lemma fresh_contextD: "fresh_context cx ssrc \<Longrightarrow> entry_of cx ssrc = SrtpStreamState_default"
  "fresh_context cx ssrc \<Longrightarrow> has_room cx ssrc"
  by (simp_all add: fresh_context_def)

lemma default_stream:
  "\<not> ss_seq_initialized SrtpStreamState_default" "stream_ok SrtpStreamState_default"
  "ss_roc SrtpStreamState_default = 0" "ss_protected_packets SrtpStreamState_default = 0"
  "ss_accepted_packets SrtpStreamState_default = 0"
  by (simp_all add: SrtpStreamState_default_def stream_ok_def)

lemma fresh_protect:
  assumes "fresh_context cx ssrc" "numbered ssrc i ps" "i < 65536" "i + length ps \<le> 2 ^ 48"
    and "length ps \<le> sx_packet_lifetime cx" "j < length ps"
  shows "results_with (SrtpContext_protect lib) cx ps ! j
    = Inr (seal lib cx (of_nat ((i + j) div 65536)) (ps ! j))"
  using assms(2-)
  by (intro protect_stream [where ssrc = ssrc])
    (simp_all add: sends_next_def same_keys_def default_stream fresh_contextD [OF assms(1)])

lemma fresh_unprotect:
  assumes "crypto_ok lib" "fresh_context rx ssrc" "same_keys tx rx" "numbered ssrc i ps"
    and "\<forall>j \<in> set (k # ks). j < length ps" "length (k # ks) \<le> sx_packet_lifetime rx"
    and "i + k < 65536" "jitter_ok (2 ^ 48) (i + k) (map ((+) i) ks)"
  shows "map result_ok (results_with (SrtpContext_unprotect lib) rx
      (map (\<lambda>j. seal lib tx (of_nat ((i + j) div 65536)) (ps ! j)) (k # ks)))
    = map2 (\<lambda>j fresh. if fresh then Some (ps ! j) else None) (k # ks)
        (spec_run {} (map ((+) i) (k # ks)))"
proof -
  have "srtp.represents (entry_of rx ssrc) {}"
    using srtp.represents_empty [OF default_stream(2,1)] by (simp add: fresh_contextD [OF assms(2)])
  moreover have "hears_all (entry_of rx ssrc) (map ((+) i) (k # ks))"
    using assms(7,8) by (simp add: hears_def heard_up_to_def default_stream fresh_contextD [OF assms(2)])
  ultimately show ?thesis
    using assms(1,3-6) by (intro unprotect_stream [where ssrc = ssrc]) (simp_all add: default_stream fresh_contextD [OF assms(2)])
qed

text \<open>C1. End to end: both sides derive a context from the same key.  The sender protects
  packets numbered consecutively from \<open>i\<close>; the network delivers the protected packets at the
  positions \<open>k # ks\<close>, losing, repeating and reordering them within half the sequence space.
  Then the receiver returns the original packet at every position the replay specification
  calls fresh, and nothing at the others.  Of the cipher and the MAC only their output
  lengths are assumed.\<close>

theorem srtp_stream_delivery:
  assumes "crypto_ok lib"
    and "SrtpContext_from_sdes_key_with_lifetime lib key life = Inr cx"
    and "numbered ssrc i ps" "i < 65536" "i + length ps \<le> 2 ^ 48" "length ps \<le> life"
    and "\<forall>j \<in> set (k # ks). j < length ps" "length (k # ks) \<le> life"
    and "i + k < 65536" "jitter_ok (2 ^ 48) (i + k) (map ((+) i) ks)"
  shows "map result_ok (results_with (SrtpContext_unprotect lib) cx
           (map (\<lambda>j. projr (results_with (SrtpContext_protect lib) cx ps ! j)) (k # ks)))
    = map2 (\<lambda>j fresh. if fresh then Some (ps ! j) else None) (k # ks)
        (spec_run {} (map ((+) i) (k # ks)))"
proof -
  have cx: "fresh_context cx ssrc" "sx_packet_lifetime cx = life" "same_keys cx cx"
    using from_sdes_key_new [OF assms(2)] by (simp_all add: fresh_context_def same_keys_def)
  have "map (\<lambda>j. projr (results_with (SrtpContext_protect lib) cx ps ! j)) (k # ks)
      = map (\<lambda>j. seal lib cx (of_nat ((i + j) div 65536)) (ps ! j)) (k # ks)"
    using fresh_protect [OF cx(1) assms(3-5)] assms(6,7) cx(2) by (intro map_cong) auto
  with fresh_unprotect [OF assms(1) cx(1,3) assms(3,7) _ assms(9,10)] assms(8) cx(2) show ?thesis
    by (simp only:)
qed

text \<open>A cipher and a MAC for the witnesses.\<close>

definition demo_crypto :: crypto_lib where
  "demo_crypto =
     \<lparr>cl_aes128_ctr = (\<lambda>key iv n. map (\<lambda>j. sum_list key + sum_list iv + of_nat j) [0..<n]),
      cl_hmac_sha1 = (\<lambda>key msg. replicate 20 (sum_list key + sum_list msg)),
      cl_base64_decode = (\<lambda>s. if length s = 40 then Some (replicate 30 7) else None),
      cl_base64_encode = (\<lambda>bs. replicate 40 (CHR ''a''))\<rparr>"

definition demo_packet :: "u8 \<Rightarrow> u8 \<Rightarrow> bytes" where
  "demo_packet hi lo = [0x80, 0, hi, lo, 0, 0, 0, 0, 0, 0, 0, 9, 1, 2, 3]"

lemma demo_crypto_ok: "crypto_ok demo_crypto"
  by (simp add: crypto_ok_def demo_crypto_def)

lemma demo_numbered: "numbered 9 65534 [demo_packet 0xFF 0xFE, demo_packet 0xFF 0xFF, demo_packet 0 0]"
  by (simp add: demo_packet_def rtp_header_len_def packet_ssrc_def packet_seq_def
      from_be32_def from_be16_def)

lemma demo_key_ok:
  "\<exists>cx. SrtpContext_from_sdes_key_with_lifetime demo_crypto (replicate 40 CHR ''a'') 10 = Inr cx"
  by (simp add: SrtpContext_from_sdes_key_with_lifetime_def demo_crypto_def srtp_consts Let_def)

theorem srtp_stream_delivery_witness:
  "\<exists>cx. SrtpContext_from_sdes_key_with_lifetime demo_crypto (replicate 40 CHR ''a'') 10 = Inr cx \<and>
     map result_ok (results_with (SrtpContext_unprotect demo_crypto) cx
       (map (\<lambda>j. projr (results_with (SrtpContext_protect demo_crypto) cx
          [demo_packet 0xFF 0xFE, demo_packet 0xFF 0xFF, demo_packet 0 0] ! j)) [0, 2, 1, 1]))
     = [Some (demo_packet 0xFF 0xFE), Some (demo_packet 0 0), Some (demo_packet 0xFF 0xFF), None]"
proof -
  obtain cx where cx: "SrtpContext_from_sdes_key_with_lifetime demo_crypto (replicate 40 CHR ''a'') 10 = Inr cx"
    by (metis demo_key_ok)
  show ?thesis
    using srtp_stream_delivery [OF demo_crypto_ok cx demo_numbered, of 0 "[2, 1, 1]"] cx
    by (simp add: near_def fresh_index_def)
qed

text \<open>A packet is authentic if its last ten bytes are the MAC of the rest and of the rollover
  counter the context expects for it.\<close>

definition authentic :: "crypto_lib \<Rightarrow> srtp_context \<Rightarrow> bytes \<Rightarrow> bool" where
  "authentic lib cx q \<longleftrightarrow> 22 \<le> length q \<and> drop (length q - 10) q = take 10 (cl_hmac_sha1 lib (sx_auth_key cx)
     (take (length q - 10) q
        @ to_be32 (fst (SrtpStreamState_estimate_roc (entry_of cx (packet_ssrc q)) (packet_seq q)))))"

text \<open>What an authentic packet leads to, by the outcome of the replay check.\<close>

definition unprotect_authentic ::
  "crypto_lib \<Rightarrow> srtp_context \<Rightarrow> bytes \<Rightarrow> (srtp_error + bytes) \<times> srtp_stream_state" where
  "unprotect_authentic lib cx q =
     (let st = entry_of cx (packet_ssrc q) in
      if sx_packet_lifetime cx \<le> ss_accepted_packets st then (Inl LifetimeExhausted, st)
      else case SrtpStreamState_check_replay st (packet_seq q) of
        (Inl e, st) \<Rightarrow> (Inl e, st)
      | (Inr (_, index), st) \<Rightarrow>
          (let auth_portion = take (length q - 10) q in
           case rtp_header_len auth_portion of
             None \<Rightarrow> (Inl PacketTooShortForHeader, st)
           | Some n \<Rightarrow> (Inr (take n auth_portion @ apply_keystream lib (sx_cipher_key cx)
                 (compute_iv (sx_cipher_salt cx) (packet_ssrc q) index) (drop n auth_portion)),
               st\<lparr>ss_accepted_packets := ss_accepted_packets st + 1\<rparr>)))"

lemma unprotect_eq:
  "SrtpContext_unprotect lib cx q =
     (if length q < 22 then (Inl PacketTooShort, cx)
      else if \<not> authentic lib cx q then (Inl AuthTagMismatch, cx)
      else if \<not> has_room cx (packet_ssrc q) then (Inl (TooManySsrcs (hm_len (sx_streams cx))), cx)
      else (fst (unprotect_authentic lib cx q),
            put_stream (packet_ssrc q) (snd (unprotect_authentic lib cx q)) cx))"
proof -
  have "12 + SRTP_AUTH_TAG_LEN = 22" by (simp add: SRTP_AUTH_TAG_LEN_def)
  moreover have "(\<not> hm_contains_key (sx_streams cx) (packet_ssrc q) \<and> MAX_RECV_SSRCS \<le> hm_len (sx_streams cx))
      \<longleftrightarrow> \<not> has_room cx (packet_ssrc q)"
    by (auto simp: has_room_def MAX_RECV_SSRCS_def)
  ultimately show ?thesis
    by (simp add: SrtpContext_unprotect_def unprotect_authentic_def authentic_def Let_def
        packet_ssrc_def [symmetric] packet_seq_def [symmetric] estimate_entry
        entry_of_def [symmetric] SRTP_AUTH_TAG_LEN_def eq_commute [of "drop _ _"]
        split: option.split sum.split prod.split)
qed

text \<open>C16. Only an authentic packet reaches the stream table: any other packet is refused and
  leaves the context as it was, so unauthenticated traffic can neither create streams nor
  move a rollover counter or a replay window.\<close>

theorem unprotect_unauthentic:
  assumes "\<not> authentic lib cx q"
  shows "\<exists>e. SrtpContext_unprotect lib cx q = (Inl e, cx)"
  using assms by (simp add: unprotect_eq)

definition demo_context :: srtp_context where
  "demo_context = \<lparr>sx_cipher_key = [1], sx_cipher_salt = replicate 14 2, sx_auth_key = [3],
     sx_streams = [], sx_packet_lifetime = 2\<rparr>"

theorem unprotect_unauthentic_witness:
  "\<exists>e. SrtpContext_unprotect demo_crypto demo_context (replicate 22 0) = (Inl e, demo_context)"
proof -
  have "\<not> authentic demo_crypto demo_context (replicate 22 0)"
    by code_simp
  then show ?thesis by (rule unprotect_unauthentic)
qed

text \<open>The contexts keep at most 64 streams, and no stream's counters pass the key's lifetime.\<close>

definition srtp_ctx_ok :: "srtp_context \<Rightarrow> bool" where
  "srtp_ctx_ok cx \<longleftrightarrow> hm_wf (sx_streams cx) \<and> hm_len (sx_streams cx) \<le> 64
     \<and> sx_packet_lifetime cx \<le> 2 ^ 48
     \<and> (\<forall>ssrc st. hm_get (sx_streams cx) ssrc = Some st \<longrightarrow> stream_ok st
          \<and> ss_protected_packets st \<le> sx_packet_lifetime cx \<and> ss_accepted_packets st \<le> sx_packet_lifetime cx)"

definition stream_within :: "nat \<Rightarrow> srtp_stream_state \<Rightarrow> bool" where
  "stream_within life st \<longleftrightarrow> stream_ok st \<and> ss_protected_packets st \<le> life \<and> ss_accepted_packets st \<le> life"

lemma srtp_ctx_ok_entry: "srtp_ctx_ok cx \<Longrightarrow> stream_within (sx_packet_lifetime cx) (entry_of cx ssrc)"
  by (auto simp: srtp_ctx_ok_def stream_within_def entry_of_def hm_entry_def SrtpStreamState_default_def
      stream_ok_def split: option.split)

lemma srtp_ctx_ok_put:
  assumes "srtp_ctx_ok cx" "has_room cx ssrc" "stream_within (sx_packet_lifetime cx) st"
  shows "srtp_ctx_ok (put_stream ssrc st cx)"
proof -
  have "hm_len (hm_insert ssrc st (sx_streams cx)) \<le> 64"
    using assms(1,2) by (auto simp: srtp_ctx_ok_def has_room_def hm.len_ins hm_contains_key_def)
  with assms show ?thesis by (auto simp: srtp_ctx_ok_def put_stream_def stream_within_def)
qed

lemma stream_within_update_roc: "stream_within life st \<Longrightarrow> stream_within life (SrtpStreamState_update_roc st seq)"
  by (simp add: stream_within_def SrtpStreamState_update_roc_def stream_ok_def)

lemma stream_within_check_replay:
  "stream_within life st \<Longrightarrow> stream_within life (snd (SrtpStreamState_check_replay st seq))"
  by (cases "ss_seq_initialized st")
    (auto simp: stream_within_def check_replay_started check_replay_first stream_ok_def)

lemma stream_within_authentic:
  assumes "stream_within (sx_packet_lifetime cx) (entry_of cx (packet_ssrc q))"
  shows "stream_within (sx_packet_lifetime cx) (snd (unprotect_authentic lib cx q))"
proof -
  let ?st = "entry_of cx (packet_ssrc q)"
  obtain r st' where chk: "SrtpStreamState_check_replay ?st (packet_seq q) = (r, st')" by fastforce
  have st': "stream_within (sx_packet_lifetime cx) st'" "ss_accepted_packets st' = ss_accepted_packets ?st"
    using stream_within_check_replay [OF assms, of "packet_seq q"]
      check_replay_counts [of ?st "packet_seq q"] chk by simp_all
  then have "stream_within (sx_packet_lifetime cx) (st'\<lparr>ss_accepted_packets := Suc (ss_accepted_packets st')\<rparr>)"
    if "\<not> sx_packet_lifetime cx \<le> ss_accepted_packets ?st"
    using that by (simp add: stream_within_def stream_ok_def)
  with assms st'(1) chk show ?thesis
    by (simp add: unprotect_authentic_def Let_def split: option.split sum.split prod.split)
qed

lemma srtp_ctx_ok_unprotect: "srtp_ctx_ok cx \<Longrightarrow> srtp_ctx_ok (snd (SrtpContext_unprotect lib cx q))"
  by (simp add: unprotect_eq srtp_ctx_ok_put srtp_ctx_ok_entry stream_within_authentic)

lemma protect_stream_put:
  "\<exists>st. snd (SrtpContext_protect lib cx p) = cx
    \<or> snd (SrtpContext_protect lib cx p) = put_stream (packet_ssrc p) st cx \<and> has_room cx (packet_ssrc p)
      \<and> (st = entry_of cx (packet_ssrc p) \<or> st = SrtpStreamState_update_roc (entry_of cx (packet_ssrc p)) (packet_seq p)
         \<or> ss_protected_packets (entry_of cx (packet_ssrc p)) < sx_packet_lifetime cx
           \<and> st = (SrtpStreamState_update_roc (entry_of cx (packet_ssrc p)) (packet_seq p))
               \<lparr>ss_protected_packets := Suc (ss_protected_packets (entry_of cx (packet_ssrc p)))\<rparr>)"
proof -
  have "ss_protected_packets (SrtpStreamState_update_roc st seq) = ss_protected_packets st" for st seq
    by (simp add: SrtpStreamState_update_roc_def)
  moreover have "(\<not> hm_contains_key (sx_streams cx) (packet_ssrc p) \<and> MAX_SEND_SSRCS \<le> hm_len (sx_streams cx))
      \<longleftrightarrow> \<not> has_room cx (packet_ssrc p)"
    by (auto simp: has_room_def MAX_SEND_SSRCS_def)
  ultimately show ?thesis
    by (auto simp: SrtpContext_protect_def Let_def packet_ssrc_def [symmetric] packet_seq_def [symmetric]
        entry_of_def [symmetric] split: option.split)
qed

lemma srtp_ctx_ok_protect:
  assumes "srtp_ctx_ok cx"
  shows "srtp_ctx_ok (snd (SrtpContext_protect lib cx p))"
proof -
  have *: "stream_within (sx_packet_lifetime cx) (entry_of cx (packet_ssrc p))"
    by (rule srtp_ctx_ok_entry [OF assms])
  note ** = stream_within_update_roc [OF *, of "packet_seq p"]
  from protect_stream_put [of lib cx p] assms * ** show ?thesis
    by (auto intro!: srtp_ctx_ok_put simp: stream_within_def stream_ok_def)
qed

lemma srtp_ctx_ok_reset:
  assumes "srtp_ctx_ok cx"
  shows "srtp_ctx_ok (SrtpContext_reset_sequence_state cx)"
proof -
  let ?f = "\<lambda>st. SrtpStreamState_reset_sequence_state st"
  have "map_of (map (\<lambda>(k, v). (k, ?f v)) m) = map_option ?f \<circ> map_of m" for m :: "(u32, srtp_stream_state) hash_map"
    by (rule ext) (induction m, auto)
  then have "hm_get (map (\<lambda>(k, v). (k, ?f v)) m) = map_option ?f \<circ> hm_get m"
    for m :: "(u32, srtp_stream_state) hash_map"
    by (simp add: hm_get_def)
  with assms show ?thesis
    by (auto simp: srtp_ctx_ok_def SrtpContext_reset_sequence_state_def hm_wf_def hm_len_def
        SrtpStreamState_reset_sequence_state_def stream_ok_def comp_def split_beta)
qed

datatype srtp_op = Protect bytes | Unprotect bytes | Reset_Sequence_State

fun srtp_apply :: "crypto_lib \<Rightarrow> srtp_op \<Rightarrow> srtp_context \<Rightarrow> srtp_context" where
  "srtp_apply lib (Protect p) cx = snd (SrtpContext_protect lib cx p)"
| "srtp_apply lib (Unprotect q) cx = snd (SrtpContext_unprotect lib cx q)"
| "srtp_apply lib Reset_Sequence_State cx = SrtpContext_reset_sequence_state cx"



end
