(* ===== verification/Srtcp.thy ===== *)
theory Srtcp
  imports Srtp
begin

unbundle bit_operations_syntax

text \<open>
  SRTCP (\<open>src/src/media/srtp.rs\<close>): the context that protects control packets under the same
  master key.  The sender numbers its packets with one 31-bit index for all its SSRCs; the
  receiver keeps a replay window per SSRC.
\<close>

section \<open>Definitions\<close>

definition compute_srtcp_iv :: "bytes \<Rightarrow> u32 \<Rightarrow> u32 \<Rightarrow> bytes" where
  "compute_srtcp_iv salt ssrc srtcp_index =
     (let iv = replicate 4 0 @ to_be32 ssrc @ to_be64 (push_bit 16 (ucast srtcp_index))
      in map2 (XOR) (take 14 iv) salt @ drop 14 iv)"

record srtcp_context =
  cx_cipher_key :: bytes
  cx_cipher_salt :: bytes
  cx_auth_key :: bytes
  cx_srtcp_index :: u32
  cx_recv_streams :: "(u32, srtcp_recv_state) hash_map"
  cx_send_streams :: "(u32, nat) hash_map"
  cx_protected_packets_total :: nat
  cx_packet_lifetime :: nat

definition SrtcpContext_from_sdes_key_with_lifetime ::
  "crypto_lib \<Rightarrow> string \<Rightarrow> nat \<Rightarrow> srtp_error + srtcp_context" where
  "SrtcpContext_from_sdes_key_with_lifetime lib key_b64 packet_lifetime =
     (if packet_lifetime = 0 \<or> MAX_SRTP_PACKETS_PER_MASTER_KEY < packet_lifetime
      then Inl BadKeyLifetime
      else case cl_base64_decode lib key_b64 of
        None \<Rightarrow> Inl InvalidBase64
      | Some key_material \<Rightarrow>
          if length key_material \<noteq> SRTP_MASTER_KEY_LEN + SRTP_MASTER_SALT_LEN
          then Inl (BadKeyMaterial (length key_material))
          else
            let master_key = take 16 key_material;
                master_salt = take 14 (drop 16 key_material)
            in Inr \<lparr>cx_cipher_key = srtp_kdf lib master_key master_salt 0x03 16,
                    cx_cipher_salt = srtp_kdf lib master_key master_salt 0x05 14,
                    cx_auth_key = srtp_kdf lib master_key master_salt 0x04 20,
                    cx_srtcp_index = 0, cx_recv_streams = [], cx_send_streams = [],
                    cx_protected_packets_total = 0,
                    cx_packet_lifetime = min packet_lifetime MAX_SRTCP_PACKETS_PER_MASTER_KEY\<rparr>)"

definition SrtcpContext_from_sdes_key :: "crypto_lib \<Rightarrow> string \<Rightarrow> srtp_error + srtcp_context" where
  "SrtcpContext_from_sdes_key lib key_b64 =
     SrtcpContext_from_sdes_key_with_lifetime lib key_b64 MAX_SRTCP_PACKETS_PER_MASTER_KEY"

definition SrtcpContext_tighten_packet_lifetime :: "srtcp_context \<Rightarrow> nat \<Rightarrow> srtcp_context" where
  "SrtcpContext_tighten_packet_lifetime cx packet_lifetime =
     cx\<lparr>cx_packet_lifetime := min packet_lifetime MAX_SRTCP_PACKETS_PER_MASTER_KEY\<rparr>"

definition put_sent :: "u32 \<Rightarrow> nat \<Rightarrow> srtcp_context \<Rightarrow> srtcp_context" where
  "put_sent ssrc n cx = cx\<lparr>cx_send_streams := hm_insert ssrc n (cx_send_streams cx)\<rparr>"

definition put_recv :: "u32 \<Rightarrow> srtcp_recv_state \<Rightarrow> srtcp_context \<Rightarrow> srtcp_context" where
  "put_recv ssrc st cx = cx\<lparr>cx_recv_streams := hm_insert ssrc st (cx_recv_streams cx)\<rparr>"

text \<open>The bytes after the first eight are encrypted, when there are any.\<close>

definition rtcp_crypt :: "crypto_lib \<Rightarrow> srtcp_context \<Rightarrow> u32 \<Rightarrow> u32 \<Rightarrow> bytes \<Rightarrow> bytes" where
  "rtcp_crypt lib cx ssrc index output =
     (if 8 < length output then
        take 8 output @ apply_keystream lib (cx_cipher_key cx)
          (compute_srtcp_iv (cx_cipher_salt cx) ssrc index) (drop 8 output)
      else output)"

definition SrtcpContext_protect_rtcp ::
  "crypto_lib \<Rightarrow> srtcp_context \<Rightarrow> bytes \<Rightarrow> (srtp_error + bytes) \<times> srtcp_context" where
  "SrtcpContext_protect_rtcp lib cx rtcp_packet =
     (if length rtcp_packet < 8 then (Inl PacketTooShort, cx)
      else if MAX_SRTCP_PACKETS_PER_MASTER_KEY \<le> cx_protected_packets_total cx
      then (Inl GlobalIndexExhausted, cx)
      else
        let ssrc = from_be32 (rtcp_packet ! 4) (rtcp_packet ! 5) (rtcp_packet ! 6) (rtcp_packet ! 7)
        in if \<not> hm_contains_key (cx_send_streams cx) ssrc
              \<and> MAX_SEND_SSRCS \<le> hm_len (cx_send_streams cx)
           then (Inl (TooManySsrcs (hm_len (cx_send_streams cx))), cx)
           else
             let protected_packets = hm_entry (cx_send_streams cx) ssrc 0 in
             if cx_packet_lifetime cx \<le> protected_packets
             then (Inl LifetimeExhausted, put_sent ssrc protected_packets cx)
             else
               let index = cx_srtcp_index cx;
                   output = rtcp_crypt lib cx ssrc index rtcp_packet
                     @ to_be32 (0x80000000 OR index);
                   tag = cl_hmac_sha1 lib (cx_auth_key cx) output
               in (Inr (output @ take SRTP_AUTH_TAG_LEN tag),
                   put_sent ssrc (protected_packets + 1)
                     (cx\<lparr>cx_srtcp_index := (index + 1) AND 0x7FFFFFFF,
                         cx_protected_packets_total := cx_protected_packets_total cx + 1\<rparr>)))"

definition SrtcpContext_unprotect_rtcp ::
  "crypto_lib \<Rightarrow> srtcp_context \<Rightarrow> bytes \<Rightarrow> (srtp_error + bytes) \<times> srtcp_context" where
  "SrtcpContext_unprotect_rtcp lib cx srtcp_packet =
     (if length srtcp_packet < 22 then (Inl PacketTooShort, cx)
      else
        let auth_start = length srtcp_packet - SRTP_AUTH_TAG_LEN;
            index_start = auth_start - 4;
            received_tag = drop auth_start srtcp_packet;
            auth_portion = take auth_start srtcp_packet;
            computed_tag = cl_hmac_sha1 lib (cx_auth_key cx) auth_portion
        in if take SRTP_AUTH_TAG_LEN computed_tag \<noteq> received_tag then (Inl AuthTagMismatch, cx)
           else
             let e_and_index = from_be32 (srtcp_packet ! index_start) (srtcp_packet ! (index_start + 1))
                   (srtcp_packet ! (index_start + 2)) (srtcp_packet ! (index_start + 3));
                 encrypted = (e_and_index AND 0x80000000 \<noteq> 0);
                 recv_index = e_and_index AND 0x7FFFFFFF;
                 ssrc = from_be32 (srtcp_packet ! 4) (srtcp_packet ! 5)
                   (srtcp_packet ! 6) (srtcp_packet ! 7)
             in if \<not> hm_contains_key (cx_recv_streams cx) ssrc
                   \<and> MAX_RECV_SSRCS \<le> hm_len (cx_recv_streams cx)
                then (Inl (TooManySsrcs (hm_len (cx_recv_streams cx))), cx)
                else
                  let recv_state = hm_entry (cx_recv_streams cx) ssrc SrtcpRecvState_default in
                  if cx_packet_lifetime cx \<le> cr_accepted_packets recv_state
                  then (Inl LifetimeExhausted, put_recv ssrc recv_state cx)
                  else case SrtcpRecvState_check_replay recv_state recv_index of
                    (Inl e, recv_state) \<Rightarrow> (Inl e, put_recv ssrc recv_state cx)
                  | (Inr _, recv_state) \<Rightarrow>
                      let output = take index_start srtcp_packet
                      in (Inr (if encrypted then rtcp_crypt lib cx ssrc recv_index output else output),
                          put_recv ssrc (recv_state\<lparr>cr_accepted_packets :=
                                           cr_accepted_packets recv_state + 1\<rparr>) cx))"

section \<open>Initial vectors\<close>

lemma map2_xor_inject:
  "length xs = length ks \<Longrightarrow> length ys = length ks \<Longrightarrow> map2 (XOR) xs ks = map2 (XOR) ys ks \<longleftrightarrow> xs = ys"
  for xs ys :: bytes
  by (metis map2_xor_cancel)

lemma push_bit_16_inject:
  fixes i j :: u64
  assumes "unat i < 2 ^ 48" "unat j < 2 ^ 48"
  shows "push_bit 16 i = push_bit 16 j \<longleftrightarrow> i = j"
proof -
  have "unat (push_bit 16 i) = unat i * 65536" if "unat i < 2 ^ 48" for i :: u64
    using that by (simp add: push_bit_eq_mult unat_word_ariths)
  with assms show ?thesis by (metis mult_right_cancel word_unat_eq_iff zero_neq_numeral)
qed

lemma iv_layout_inject:
  assumes "length salt = 14" "unat i < 2 ^ 48" "unat j < 2 ^ 48"
  shows "compute_iv salt a i = compute_iv salt b j \<longleftrightarrow> a = b \<and> i = j"
proof -
  let ?iv = "\<lambda>a i. replicate 4 0 @ to_be32 a @ to_be64 (push_bit 16 i) :: bytes"
  have "compute_iv salt a i = compute_iv salt b j \<longleftrightarrow> take 14 (?iv a i) = take 14 (?iv b j) \<and> drop 14 (?iv a i) = drop 14 (?iv b j)"
    using assms(1) by (simp add: compute_iv_def Let_def map2_xor_inject)
  also have "\<dots> \<longleftrightarrow> ?iv a i = ?iv b j"
    by (metis append_take_drop_id)
  also have "\<dots> \<longleftrightarrow> a = b \<and> i = j"
    using assms by (simp add: push_bit_16_inject)
  finally show ?thesis .
qed

lemma compute_srtcp_iv_eq: "compute_srtcp_iv salt ssrc index = compute_iv salt ssrc (ucast index)"
  by (simp add: compute_srtcp_iv_def compute_iv_def)

lemma unat_ucast_u64: "unat (ucast w :: u64) = unat w" for w :: u32
  using unat_u32_less [of w] by (simp add: unsigned_ucast_eq take_bit_eq_mod)

lemma compute_srtcp_iv_inject:
  "length salt = 14 \<Longrightarrow> compute_srtcp_iv salt a i = compute_srtcp_iv salt b j \<longleftrightarrow> a = b \<and> i = j"
  using unat_u32_less [of i] unat_u32_less [of j]
  by (simp add: compute_srtcp_iv_eq iv_layout_inject unat_ucast_u64)
    (metis unat_ucast_u64 word_unat_eq_iff)

section \<open>The sender\<close>

definition rtcp_ssrc :: "bytes \<Rightarrow> u32" where
  "rtcp_ssrc p = from_be32 (p ! 4) (p ! 5) (p ! 6) (p ! 7)"

text \<open>A control packet on the wire under a given index.\<close>

definition rtcp_seal :: "crypto_lib \<Rightarrow> srtcp_context \<Rightarrow> u32 \<Rightarrow> bytes \<Rightarrow> bytes" where
  "rtcp_seal lib cx index p =
     (let out = rtcp_crypt lib cx (rtcp_ssrc p) index p @ to_be32 (0x80000000 OR index)
      in out @ take 10 (cl_hmac_sha1 lib (cx_auth_key cx) out))"

definition sent_of :: "srtcp_context \<Rightarrow> u32 \<Rightarrow> nat" where
  "sent_of cx ssrc = hm_entry (cx_send_streams cx) ssrc 0"

definition may_send :: "srtcp_context \<Rightarrow> bytes \<Rightarrow> bool" where
  "may_send cx p \<longleftrightarrow> 8 \<le> length p \<and> cx_protected_packets_total cx < 2 ^ 31
     \<and> (hm_contains_key (cx_send_streams cx) (rtcp_ssrc p) \<or> hm_len (cx_send_streams cx) < 64)
     \<and> sent_of cx (rtcp_ssrc p) < cx_packet_lifetime cx"

lemma protect_rtcp_sends:
  "may_send cx p \<Longrightarrow> SrtcpContext_protect_rtcp lib cx p =
     (Inr (rtcp_seal lib cx (cx_srtcp_index cx) p),
      put_sent (rtcp_ssrc p) (Suc (sent_of cx (rtcp_ssrc p)))
        (cx\<lparr>cx_srtcp_index := (cx_srtcp_index cx + 1) AND 0x7FFFFFFF,
            cx_protected_packets_total := Suc (cx_protected_packets_total cx)\<rparr>))"
  by (auto simp: may_send_def SrtcpContext_protect_rtcp_def rtcp_seal_def rtcp_ssrc_def sent_of_def
      srtp_consts Let_def)

lemma protect_rtcp_refuses:
  "\<not> may_send cx p \<Longrightarrow> \<exists>e n. SrtcpContext_protect_rtcp lib cx p = (Inl e, cx)
     \<or> SrtcpContext_protect_rtcp lib cx p = (Inl e, put_sent (rtcp_ssrc p) n cx)"
  by (auto simp: may_send_def SrtcpContext_protect_rtcp_def rtcp_ssrc_def sent_of_def
      srtp_consts Let_def)

text \<open>The wire index counts the packets sent.\<close>

definition index_counts :: "srtcp_context \<Rightarrow> bool" where
  "index_counts cx \<longleftrightarrow> cx_protected_packets_total cx \<le> 2 ^ 31
     \<and> unat (cx_srtcp_index cx) = cx_protected_packets_total cx mod 2 ^ 31"

lemma unat_next_index: "unat ((i + 1) AND 0x7FFFFFFF) = Suc (unat i) mod 2 ^ 31" if "unat i < 2 ^ 31" for i :: u32
proof -
  have "(0x7FFFFFFF :: u32) = mask 31" by (simp add: mask_eq_exp_minus_1)
  then have "(i + 1) AND 0x7FFFFFFF = take_bit 31 (i + 1)" by (simp only: take_bit_eq_mask)
  moreover have "unat (i + 1) = Suc (unat i)" using that by (simp add: unat_word_ariths)
  ultimately show ?thesis by (simp only: unsigned_take_bit_eq) (simp only: take_bit_eq_mod)
qed

lemma index_counts_protect:
  assumes "index_counts cx"
  shows "index_counts (snd (SrtcpContext_protect_rtcp lib cx p))"
proof (cases "may_send cx p")
  case True
  then have t: "cx_protected_packets_total cx < 2 ^ 31" by (simp add: may_send_def)
  with assms have "unat (cx_srtcp_index cx) = cx_protected_packets_total cx" by (simp add: index_counts_def)
  with t show ?thesis
    using unat_next_index [of "cx_srtcp_index cx"]
    by (simp add: protect_rtcp_sends [OF True] put_sent_def index_counts_def)
next
  case False
  from protect_rtcp_refuses [OF this, of lib] assms show ?thesis
    by (auto simp: index_counts_def put_sent_def)
qed

text \<open>The initial vectors a sender uses, one per packet sent.\<close>

fun srtcp_ivs :: "crypto_lib \<Rightarrow> srtcp_context \<Rightarrow> bytes list \<Rightarrow> bytes list" where
  "srtcp_ivs lib cx [] = []"
| "srtcp_ivs lib cx (p # ps) =
     (case SrtcpContext_protect_rtcp lib cx p of
        (Inl _, cx') \<Rightarrow> srtcp_ivs lib cx' ps
      | (Inr _, cx') \<Rightarrow> compute_srtcp_iv (cx_cipher_salt cx) (rtcp_ssrc p) (cx_srtcp_index cx)
                          # srtcp_ivs lib cx' ps)"

lemma srtcp_ivs_distinct:
  assumes "index_counts cx" "length (cx_cipher_salt cx) = 14"
  shows "distinct (srtcp_ivs lib cx ps) \<and> (\<forall>iv \<in> set (srtcp_ivs lib cx ps).
     \<exists>ssrc i. iv = compute_srtcp_iv (cx_cipher_salt cx) ssrc i
       \<and> cx_protected_packets_total cx \<le> unat i)"
  using assms
proof (induction ps arbitrary: cx)
  case (Cons p ps)
  let ?cx' = "snd (SrtcpContext_protect_rtcp lib cx p)"
  have ok: "index_counts ?cx'" by (rule index_counts_protect [OF Cons.prems(1)])
  show ?case
  proof (cases "may_send cx p")
    case True
    have salt: "cx_cipher_salt ?cx' = cx_cipher_salt cx"
      and total: "cx_protected_packets_total ?cx' = Suc (cx_protected_packets_total cx)"
      by (simp_all add: protect_rtcp_sends [OF True] put_sent_def)
    have now: "unat (cx_srtcp_index cx) = cx_protected_packets_total cx"
      using Cons.prems(1) True by (simp add: index_counts_def may_send_def)
    have run: "srtcp_ivs lib cx (p # ps)
        = compute_srtcp_iv (cx_cipher_salt cx) (rtcp_ssrc p) (cx_srtcp_index cx) # srtcp_ivs lib ?cx' ps"
      by (simp add: protect_rtcp_sends [OF True])
    from Cons.IH [OF ok] salt total Cons.prems(2)
    have ih: "distinct (srtcp_ivs lib ?cx' ps)" "\<forall>iv \<in> set (srtcp_ivs lib ?cx' ps).
        \<exists>ssrc i. iv = compute_srtcp_iv (cx_cipher_salt cx) ssrc i \<and> cx_protected_packets_total cx < unat i"
      by (simp_all add: Suc_le_eq)
    then have "compute_srtcp_iv (cx_cipher_salt cx) (rtcp_ssrc p) (cx_srtcp_index cx) \<notin> set (srtcp_ivs lib ?cx' ps)"
      using now compute_srtcp_iv_inject [OF Cons.prems(2)] by fastforce
    with ih now show ?thesis unfolding run by (fastforce intro: less_imp_le)
  next
    case False
    then obtain e where e: "fst (SrtcpContext_protect_rtcp lib cx p) = Inl e"
      and same: "cx_cipher_salt ?cx' = cx_cipher_salt cx"
        "cx_protected_packets_total ?cx' = cx_protected_packets_total cx"
      using protect_rtcp_refuses [OF False, of lib] by (auto simp: put_sent_def)
    then have "srtcp_ivs lib cx (p # ps) = srtcp_ivs lib ?cx' ps"
      by (simp add: case_prod_beta e split: sum.split)
    with Cons.IH [OF ok] same Cons.prems(2) show ?thesis by simp
  qed
qed simp

section \<open>The receiver\<close>

lemma e_and_index:
  fixes i :: u32
  assumes "unat i < 2 ^ 31"
  shows "(0x80000000 OR i) AND 0x7FFFFFFF = i" "(0x80000000 OR i) AND 0x80000000 \<noteq> 0"
proof -
  have m: "(0x7FFFFFFF :: u32) = mask 31" by (simp add: mask_eq_exp_minus_1)
  have e: "bit (0x80000000 :: u32) n \<longleftrightarrow> n = 31" for n
    using bit_exp_iff [where ?'a = "32 word", of 31 n] by (auto simp: possible_bit_word)
  have "take_bit 31 i = i"
    by (simp only: word_unat_eq_iff unsigned_take_bit_eq take_bit_nat_eq_self [OF assms])
  then have hi: "n < 31" if "bit i n" for n
    using that by (metis bit_take_bit_iff)
  show "(0x80000000 OR i) AND 0x7FFFFFFF = i"
    unfolding m by (rule bit_word_eqI, unfold bit_and_iff bit_or_iff e bit_mask_iff) (auto dest: hi)
  have "bit ((0x80000000 OR i) AND 0x80000000) 31" unfolding bit_and_iff bit_or_iff e by simp
  then show "(0x80000000 OR i) AND 0x80000000 \<noteq> 0" by auto
qed

definition recv_of :: "srtcp_context \<Rightarrow> u32 \<Rightarrow> srtcp_recv_state" where
  "recv_of cx ssrc = hm_entry (cx_recv_streams cx) ssrc SrtcpRecvState_default"

definition may_hear :: "srtcp_context \<Rightarrow> u32 \<Rightarrow> bool" where
  "may_hear cx ssrc \<longleftrightarrow> (hm_contains_key (cx_recv_streams cx) ssrc \<or> hm_len (cx_recv_streams cx) < 64)
     \<and> cr_accepted_packets (recv_of cx ssrc) < cx_packet_lifetime cx"

definition same_rtcp_keys :: "srtcp_context \<Rightarrow> srtcp_context \<Rightarrow> bool" where
  "same_rtcp_keys a b \<longleftrightarrow> cx_cipher_key a = cx_cipher_key b \<and> cx_cipher_salt a = cx_cipher_salt b
     \<and> cx_auth_key a = cx_auth_key b"

lemma rtcp_crypt_cancel:
  assumes "crypto_ok lib" "same_rtcp_keys a b"
  shows "rtcp_crypt lib b ssrc i (rtcp_crypt lib a ssrc i p) = p"
  using assms length_apply_keystream [OF assms(1)] apply_keystream_cancel [OF assms(1)]
  by (auto simp: rtcp_crypt_def same_rtcp_keys_def)

lemma length_rtcp_crypt: "crypto_ok lib \<Longrightarrow> length (rtcp_crypt lib cx ssrc i p) = length p"
  using length_apply_keystream by (auto simp: rtcp_crypt_def)

lemma rtcp_ssrc_crypt: "8 \<le> length p \<Longrightarrow> rtcp_ssrc (rtcp_crypt lib cx ssrc i p @ t) = rtcp_ssrc p"
  by (auto simp: rtcp_ssrc_def rtcp_crypt_def nth_append)

text \<open>A receiver with the same keys gets a sealed packet past authentication, reads its index,
  and returns the packet unless the replay check refuses it.\<close>

lemma unprotect_rtcp_seal:
  assumes lib: "crypto_ok lib" and len: "8 \<le> length p" and i: "unat i < 2 ^ 31"
    and keys: "same_rtcp_keys tx rx" and hear: "may_hear rx (rtcp_ssrc p)"
    and chk: "SrtcpRecvState_check_replay (recv_of rx (rtcp_ssrc p)) i = (r, st')"
  shows "SrtcpContext_unprotect_rtcp lib rx (rtcp_seal lib tx i p) =
     (case r of Inl e \<Rightarrow> (Inl e, put_recv (rtcp_ssrc p) st' rx)
      | Inr _ \<Rightarrow> (Inr p, put_recv (rtcp_ssrc p) (st'\<lparr>cr_accepted_packets := cr_accepted_packets st' + 1\<rparr>) rx))"
proof -
  define body where "body = rtcp_crypt lib tx (rtcp_ssrc p) i p"
  define idx where "idx = to_be32 (0x80000000 OR i)"
  define tag where "tag = take 10 (cl_hmac_sha1 lib (cx_auth_key tx) (body @ idx))"
  have seal: "rtcp_seal lib tx i p = (body @ idx) @ tag"
    by (simp add: rtcp_seal_def body_def idx_def tag_def Let_def)
  have lens: "length body = length p" "length idx = 4" "length tag = 10"
    using lib by (simp_all add: body_def idx_def tag_def length_rtcp_crypt crypto_ok_def)
  have ssrc: "rtcp_ssrc ((body @ idx) @ tag) = rtcp_ssrc p"
    unfolding body_def append_assoc by (rule rtcp_ssrc_crypt [OF len])
  have word: "from_be32 (((body @ idx) @ tag) ! length p) (((body @ idx) @ tag) ! (length p + 1))
      (((body @ idx) @ tag) ! (length p + 2)) (((body @ idx) @ tag) ! (length p + 3)) = 0x80000000 OR i"
    using lens from_to_be32 [of "0x80000000 OR i"] by (simp add: nth_append idx_def [symmetric])
  have go: "(\<not> hm_contains_key (cx_recv_streams rx) (rtcp_ssrc p) \<and> 64 \<le> hm_len (cx_recv_streams rx)) = False"
      "\<not> cx_packet_lifetime rx \<le> cr_accepted_packets (recv_of rx (rtcp_ssrc p))"
    using hear by (auto simp: may_hear_def)
  have plain: "rtcp_crypt lib rx (rtcp_ssrc p) i body = p"
    unfolding body_def by (rule rtcp_crypt_cancel [OF lib keys])
  have auth: "take 10 (cl_hmac_sha1 lib (cx_auth_key rx) (body @ idx)) = tag"
    using keys by (simp add: tag_def same_rtcp_keys_def)
  show ?thesis
    unfolding seal SrtcpContext_unprotect_rtcp_def Let_def
    using lens len go(2) word ssrc chk plain e_and_index [OF i] auth
    by (simp add: srtp_consts go(1) rtcp_ssrc_def [symmetric] recv_of_def [symmetric] split: sum.split)
qed

section \<open>Properties\<close>

text \<open>Control packets of one SSRC.\<close>

definition rtcp_from :: "u32 \<Rightarrow> bytes \<Rightarrow> bool" where
  "rtcp_from ssrc p \<longleftrightarrow> 8 \<le> length p \<and> rtcp_ssrc p = ssrc"

lemma put_sent_simps [simp]:
  "sent_of (put_sent ssrc n cx) ssrc = n" "hm_contains_key (cx_send_streams (put_sent ssrc n cx)) ssrc"
  "cx_protected_packets_total (put_sent ssrc n cx) = cx_protected_packets_total cx"
  "cx_packet_lifetime (put_sent ssrc n cx) = cx_packet_lifetime cx"
  "cx_srtcp_index (put_sent ssrc n cx) = cx_srtcp_index cx"
  "same_rtcp_keys a (put_sent ssrc n cx) = same_rtcp_keys a cx"
  by (simp_all add: put_sent_def sent_of_def hm_entry_def hm_contains_key_def same_rtcp_keys_def)

lemma put_recv_simps [simp]:
  "recv_of (put_recv ssrc st cx) ssrc = st" "hm_contains_key (cx_recv_streams (put_recv ssrc st cx)) ssrc"
  "cx_packet_lifetime (put_recv ssrc st cx) = cx_packet_lifetime cx"
  "same_rtcp_keys a (put_recv ssrc st cx) = same_rtcp_keys a cx"
  by (simp_all add: put_recv_def recv_of_def hm_entry_def hm_contains_key_def same_rtcp_keys_def)

lemma rtcp_seal_same_keys: "same_rtcp_keys a b \<Longrightarrow> rtcp_seal lib a = rtcp_seal lib b"
  by (simp add: same_rtcp_keys_def rtcp_seal_def rtcp_crypt_def fun_eq_iff)

lemma protect_rtcp_stream:
  assumes "list_all (rtcp_from ssrc) ps" "index_counts cx" "same_rtcp_keys cx0 cx"
    and "cx_protected_packets_total cx + length ps \<le> 2 ^ 31"
    and "hm_contains_key (cx_send_streams cx) ssrc \<or> hm_len (cx_send_streams cx) < 64"
    and "sent_of cx ssrc + length ps \<le> cx_packet_lifetime cx"
    and "k < length ps"
  shows "results_with (SrtcpContext_protect_rtcp lib) cx ps ! k
     = Inr (rtcp_seal lib cx0 (of_nat (cx_protected_packets_total cx + k)) (ps ! k))"
  using assms
proof (induction ps arbitrary: cx k)
  case (Cons p ps)
  have p: "8 \<le> length p" "rtcp_ssrc p = ssrc" using Cons.prems(1) by (simp_all add: rtcp_from_def)
  then have may: "may_send cx p" using Cons.prems(4-6) by (auto simp: may_send_def)
  have now: "cx_srtcp_index cx = of_nat (cx_protected_packets_total cx)"
    using Cons.prems(2,4) by (metis index_counts_def may may_send_def mod_less of_nat_unat ucast_id)
  let ?cx' = "snd (SrtcpContext_protect_rtcp lib cx p)"
  have cx': "sent_of ?cx' ssrc = Suc (sent_of cx ssrc)" "hm_contains_key (cx_send_streams ?cx') ssrc"
      "cx_protected_packets_total ?cx' = Suc (cx_protected_packets_total cx)"
      "cx_packet_lifetime ?cx' = cx_packet_lifetime cx" "same_rtcp_keys cx0 ?cx'"
    using Cons.prems(3) by (simp_all add: protect_rtcp_sends [OF may] p) (simp add: same_rtcp_keys_def)
  have "results_with (SrtcpContext_protect_rtcp lib) ?cx' ps ! j
      = Inr (rtcp_seal lib cx0 (of_nat (cx_protected_packets_total ?cx' + j)) (ps ! j))" if "j < length ps" for j
    using Cons.prems(1,4,6) that cx' index_counts_protect [OF Cons.prems(2)] by (intro Cons.IH) simp_all
  with Cons.prems(7) show ?case
    using rtcp_seal_same_keys [OF Cons.prems(3), of lib] now
    by (cases k) (simp_all add: cx', simp add: protect_rtcp_sends [OF may])
qed simp

lemma srtcp_represents_counted [simp]:
  "srtcp.represents (st\<lparr>cr_accepted_packets := n\<rparr>) acc = srtcp.represents st acc"
  by (simp add: srtcp.represents_def)

lemma srtcp_check_counts [simp]:
  "cr_accepted_packets (snd (SrtcpRecvState_check_replay st i)) = cr_accepted_packets st"
  by (simp add: SrtcpRecvState_check_replay_def Let_def)

lemma unprotect_rtcp_stream:
  assumes "crypto_ok lib" "list_all (rtcp_from ssrc) ps" "length ps \<le> 2 ^ 31" "\<forall>k \<in> set ks. k < length ps"
    and "same_rtcp_keys tx rx"
    and "hm_contains_key (cx_recv_streams rx) ssrc \<or> hm_len (cx_recv_streams rx) < 64"
    and "cr_accepted_packets (recv_of rx ssrc) + length ks \<le> cx_packet_lifetime rx"
    and "srtcp.represents (recv_of rx ssrc) acc"
  shows "map result_ok (results_with (SrtcpContext_unprotect_rtcp lib) rx
           (map (\<lambda>k. rtcp_seal lib tx (of_nat k) (ps ! k)) ks))
    = map2 (\<lambda>k fresh. if fresh then Some (ps ! k) else None) ks (spec_run acc ks)"
  using assms(4-)
proof (induction ks arbitrary: rx acc)
  case (Cons k ks)
  let ?st = "recv_of rx ssrc"
  have k: "k < length ps" using Cons.prems(1) by simp
  then have p: "8 \<le> length (ps ! k)" "rtcp_ssrc (ps ! k) = ssrc"
    using assms(2) by (auto simp: list_all_length rtcp_from_def)
  have idx: "unat (of_nat k :: u32) = k" using k assms(3) by (intro unat_of_nat_small) simp
  then have small: "unat (of_nat k :: u32) < 2 ^ 31" using k assms(3) by simp
  have hear: "may_hear rx ssrc" using Cons.prems(3,4) by (simp add: may_hear_def)
  obtain r st' where chk: "SrtcpRecvState_check_replay ?st (of_nat k) = (r, st')" by fastforce
  have count: "cr_accepted_packets st' = cr_accepted_packets ?st"
    using srtcp_check_counts [of ?st "of_nat k"] chk by simp
  have sim: "if fresh_index acc k then (\<exists>x. r = Inr x) \<and> srtcp.represents st' (insert k acc)
      else (\<exists>e. r = Inl e) \<and> st' = ?st"
    using srtcp.simulate [OF Cons.prems(5), of "of_nat k"] unfolding idx chk by auto
  define s where "s = (if fresh_index acc k then st'\<lparr>cr_accepted_packets := cr_accepted_packets st' + 1\<rparr> else st')"
  have un: "\<exists>q. SrtcpContext_unprotect_rtcp lib rx (rtcp_seal lib tx (of_nat k) (ps ! k)) = (q, put_recv ssrc s rx)
      \<and> result_ok q = (if fresh_index acc k then Some (ps ! k) else None)"
    using unprotect_rtcp_seal [OF assms(1) p(1) small Cons.prems(2), unfolded p(2), OF hear chk] sim
    by (auto simp: s_def)
  have "srtcp.represents s (if fresh_index acc k then insert k acc else acc)"
    "cr_accepted_packets s \<le> Suc (cr_accepted_packets ?st)"
    using sim Cons.prems(5) count by (auto simp: s_def)
  then have "map result_ok (results_with (SrtcpContext_unprotect_rtcp lib) (put_recv ssrc s rx)
         (map (\<lambda>k. rtcp_seal lib tx (of_nat k) (ps ! k)) ks))
      = map2 (\<lambda>k fresh. if fresh then Some (ps ! k) else None) ks
          (spec_run (if fresh_index acc k then insert k acc else acc) ks)"
    using Cons.prems(1,2,4) by (intro Cons.IH) simp_all
  with un show ?case by auto
qed simp

lemma length_srtp_kdf: "crypto_ok lib \<Longrightarrow> length (srtp_kdf lib key salt label n) = n"
  by (simp add: srtp_kdf_def Let_def length_apply_keystream)

lemma srtcp_from_sdes_key_new:
  assumes "SrtcpContext_from_sdes_key_with_lifetime lib key life = Inr cx"
  shows "cx_srtcp_index cx = 0" "cx_recv_streams cx = []" "cx_send_streams cx = []"
    "cx_protected_packets_total cx = 0" "cx_packet_lifetime cx = min life (2 ^ 31)"
    "crypto_ok lib \<Longrightarrow> length (cx_cipher_salt cx) = 14"
  using assms
  by (auto simp: SrtcpContext_from_sdes_key_with_lifetime_def Let_def srtp_consts length_srtp_kdf
      split: if_splits option.splits)

text \<open>C13. End to end: both sides derive an SRTCP context from the same key, the sender protects
  control packets, and the network delivers them at the positions \<open>ks\<close>, in any order, with
  any loss and repetition.  The receiver returns the original packet at every position the
  replay specification calls fresh, and nothing at the others.\<close>

theorem srtcp_stream_delivery:
  assumes "crypto_ok lib"
    and "SrtcpContext_from_sdes_key_with_lifetime lib key life = Inr cx"
    and "list_all (rtcp_from ssrc) ps" "length ps \<le> min life (2 ^ 31)"
    and "\<forall>k \<in> set ks. k < length ps" "length ks \<le> min life (2 ^ 31)"
  shows "map result_ok (results_with (SrtcpContext_unprotect_rtcp lib) cx
           (map (\<lambda>k. projr (results_with (SrtcpContext_protect_rtcp lib) cx ps ! k)) ks))
    = map2 (\<lambda>k fresh. if fresh then Some (ps ! k) else None) ks (spec_run {} ks)"
proof -
  note new = srtcp_from_sdes_key_new [OF assms(2)]
  have keys: "same_rtcp_keys cx cx" by (simp add: same_rtcp_keys_def)
  have fresh: "sent_of cx ssrc = 0" "recv_of cx ssrc = SrtcpRecvState_default" "index_counts cx"
    by (simp_all add: new sent_of_def recv_of_def hm_entry_def index_counts_def)
  have sent: "results_with (SrtcpContext_protect_rtcp lib) cx ps ! k = Inr (rtcp_seal lib cx (of_nat k) (ps ! k))"
    if "k < length ps" for k
    using protect_rtcp_stream [OF assms(3) fresh(3) keys, of k lib] assms(4) that
    by (simp add: new fresh hm_len_def)
  have "srtcp.represents (recv_of cx ssrc) {}" "cr_accepted_packets (recv_of cx ssrc) = 0"
    by (simp_all add: fresh srtcp.represents_empty SrtcpRecvState_default_def)
  then have "map result_ok (results_with (SrtcpContext_unprotect_rtcp lib) cx
      (map (\<lambda>k. rtcp_seal lib cx (of_nat k) (ps ! k)) ks))
    = map2 (\<lambda>k fresh. if fresh then Some (ps ! k) else None) ks (spec_run {} ks)"
    using assms(1,3-6) keys by (intro unprotect_rtcp_stream) (simp_all add: new hm_len_def)
  moreover have "map (\<lambda>k. projr (results_with (SrtcpContext_protect_rtcp lib) cx ps ! k)) ks
      = map (\<lambda>k. rtcp_seal lib cx (of_nat k) (ps ! k)) ks"
    using assms(5) by (intro map_cong) (auto simp: sent)
  ultimately show ?thesis by (simp only:)
qed

lemma demo_srtcp_key_ok:
  "\<exists>cx. SrtcpContext_from_sdes_key_with_lifetime demo_crypto (replicate 40 CHR ''a'') 10 = Inr cx"
  by (simp add: SrtcpContext_from_sdes_key_with_lifetime_def demo_crypto_def srtp_consts Let_def)

theorem srtcp_stream_delivery_witness:
  "\<exists>cx. SrtcpContext_from_sdes_key_with_lifetime demo_crypto (replicate 40 CHR ''a'') 10 = Inr cx \<and>
     map result_ok (results_with (SrtcpContext_unprotect_rtcp demo_crypto) cx
       (map (\<lambda>k. projr (results_with (SrtcpContext_protect_rtcp demo_crypto) cx
          [replicate 8 1, replicate 12 1] ! k)) [1, 0, 1]))
     = [Some (replicate 12 1), Some (replicate 8 1), None]"
proof -
  obtain cx where cx: "SrtcpContext_from_sdes_key_with_lifetime demo_crypto (replicate 40 CHR ''a'') 10 = Inr cx"
    by (metis demo_srtcp_key_ok)
  have "list_all (rtcp_from (from_be32 1 1 1 1)) [replicate 8 1, replicate 12 1]"
    by (simp add: rtcp_from_def rtcp_ssrc_def)
  from srtcp_stream_delivery [OF demo_crypto_ok cx this, of "[1, 0, 1]"] cx show ?thesis
    by (simp add: fresh_index_def)
qed



text \<open>The initial vectors of two RTP packets under one key are equal only if the packets
  have the same SSRC and the same 48-bit index, and every vector leaves the low 16 bits to
  the block counter.\<close>

lemma compute_iv_unique:
  assumes "length salt = 14" "unat i < 2 ^ 48" "unat j < 2 ^ 48"
  shows "(compute_iv salt a i = compute_iv salt b j \<longleftrightarrow> a = b \<and> i = j)
    \<and> length (compute_iv salt a i) = 16 \<and> drop 14 (compute_iv salt a i) = [0, 0]"
proof -
  have "bit (push_bit 16 i) n = False" if "n < 16" for n using that by (simp add: bit_simps)
  then have "drop 6 (to_be64 (push_bit 16 i)) = [0, 0]"
    by (simp add: to_be64_def to_be32_def to_be16_def) (auto simp: bit_eq_iff bit_simps)
  with assms show ?thesis
    by (simp add: iv_layout_inject) (simp add: compute_iv_def Let_def)
qed

theorem compute_iv_unique_witness:
  "compute_iv (replicate 14 1) 5 6 \<noteq> compute_iv (replicate 14 1) 5 7"
  using compute_iv_unique [of "replicate 14 1" 6 7 5 5] by simp

end
