(* ===== verification/Rtcp_Stats.thy ===== *)
theory Rtcp_Stats
  imports Complex_Main Seq_Tracking
begin

unbundle bit_operations_syntax

text \<open>
  The reception and transmission statistics behind RTCP reports
  (\<open>RtcpStats\<close> of \<open>src/src/media/rtcp.rs\<close>).  A function that reads a clock takes what it
  reads as an argument: an instant for each \<open>Instant::now\<close>, \<open>unix\<close> for the time since the
  epoch.
  The round-trip time, an \<open>f64\<close> in the source, is a \<open>rat\<close>: a 32-bit number times 1000
  divided by \<open>2 ^ 16\<close> needs 39 significant bits, so every \<open>f64\<close> operation on it is exact.
\<close>

section \<open>Definitions\<close>

subsection \<open>Reports\<close>

record report_block =
  rb_ssrc :: u32
  rb_fraction_lost :: u8
  rb_cumulative_lost :: "32 word"
  rb_highest_seq :: u32
  rb_jitter :: u32
  rb_last_sr :: u32
  rb_delay_since_last_sr :: u32

record sender_report =
  sr_ssrc :: u32
  sr_ntp_timestamp :: u64
  sr_rtp_timestamp :: u32
  sr_sender_packet_count :: u32
  sr_sender_octet_count :: u32
  sr_report_blocks :: "report_block list"

record receiver_report =
  rr_ssrc :: u32
  rr_report_blocks :: "report_block list"

record remote_receiver_report =
  rq_packets_lost :: "32 word"
  rq_highest_sequence :: u32
  rq_jitter :: u32
  rq_received_at :: instant
  rq_generation :: u64
  rq_count :: u64

subsection \<open>The statistics\<close>

record rtcp_stats =
  rs_packets_received :: u32
  rs_octets_received :: u32
  rs_jitter :: u32
  rs_last_sr_ntp :: u32
  rs_last_sr_received :: "instant option"
  rs_last_sr_ssrc :: "u32 option"
  rs_seq_initialized :: bool
  rs_base_seq :: u32
  rs_extended_max_seq :: u32
  rs_expected_prior :: u32
  rs_received_prior :: u32
  rs_last_jitter_sample :: "(instant \<times> u32 \<times> u32) option"
  rs_packets_sent :: u32
  rs_octets_sent :: u32
  rs_our_last_sr_ntp_middle :: u32
  rs_rtt_ms :: "rat option"
  rs_rtt_observed_at :: "instant option"
  rs_remote_receiver_report :: "remote_receiver_report option"
  rs_remote_report_generation :: u64
  rs_remote_report_count :: u64
  rs_current_ssrc :: "u32 option"
  rs_lost_accumulated :: u32

definition RtcpStats_new :: rtcp_stats where
  "RtcpStats_new =
     \<lparr>rs_packets_received = 0, rs_octets_received = 0, rs_jitter = 0, rs_last_sr_ntp = 0,
      rs_last_sr_received = None, rs_last_sr_ssrc = None, rs_seq_initialized = False,
      rs_base_seq = 0, rs_extended_max_seq = 0, rs_expected_prior = 0, rs_received_prior = 0,
      rs_last_jitter_sample = None, rs_packets_sent = 0, rs_octets_sent = 0,
      rs_our_last_sr_ntp_middle = 0, rs_rtt_ms = None, rs_rtt_observed_at = None,
      rs_remote_receiver_report = None, rs_remote_report_generation = 0,
      rs_remote_report_count = 0, rs_current_ssrc = None, rs_lost_accumulated = 0\<rparr>"

definition RtcpStats_expected_packets :: "rtcp_stats \<Rightarrow> u32" where
  "RtcpStats_expected_packets s =
     (if \<not> rs_seq_initialized s then 0 else rs_extended_max_seq s - rs_base_seq s + 1)"

definition RtcpStats_current_gen_lost :: "rtcp_stats \<Rightarrow> u32" where
  "RtcpStats_current_gen_lost s =
     saturating_sub (RtcpStats_expected_packets s) (rs_packets_received s)"

definition RtcpStats_cumulative_lost :: "rtcp_stats \<Rightarrow> u32" where
  "RtcpStats_cumulative_lost s =
     saturating_add (rs_lost_accumulated s) (RtcpStats_current_gen_lost s)"

text \<open>The three parts of \<open>record_received\<close>: a new source starts a generation, the packet is
  counted and its sequence number noted, and the jitter estimate is updated.\<close>

definition start_generation :: "u32 \<Rightarrow> rtcp_stats \<Rightarrow> rtcp_stats" where
  "start_generation ssrc s =
     (if rs_current_ssrc s = Some ssrc then s
      else
        let s = (if rs_current_ssrc s \<noteq> None
                 then s\<lparr>rs_lost_accumulated :=
                           saturating_add (rs_lost_accumulated s) (RtcpStats_current_gen_lost s)\<rparr>
                 else s)
        in s\<lparr>rs_current_ssrc := Some ssrc, rs_seq_initialized := False, rs_packets_received := 0,
             rs_octets_received := 0, rs_expected_prior := 0, rs_received_prior := 0,
             rs_last_jitter_sample := None, rs_jitter := 0\<rparr>)"

definition advance_max_seq :: "u32 \<Rightarrow> u16 \<Rightarrow> u32" where
  "advance_max_seq extended_max_seq seq =
     (let delta = seq - ucast extended_max_seq in
      if delta \<noteq> 0 \<and> delta < 0x8000 then extended_max_seq + ucast delta else extended_max_seq)"

definition track_seq :: "rtcp_stats \<Rightarrow> u16 \<Rightarrow> rtcp_stats" where
  "track_seq s seq =
     (if \<not> rs_seq_initialized s then
        s\<lparr>rs_base_seq := ucast seq, rs_extended_max_seq := ucast seq, rs_seq_initialized := True\<rparr>
      else s\<lparr>rs_extended_max_seq := advance_max_seq (rs_extended_max_seq s) seq\<rparr>)"

text \<open>Rust's signed division truncates towards zero; \<open>saturating_sub\<close> on \<open>i64\<close> clamps.\<close>

definition trunc_div :: "int \<Rightarrow> int \<Rightarrow> int" where
  "trunc_div a b = sgn a * (\<bar>a\<bar> div b)"

definition clamp_i64 :: "int \<Rightarrow> int" where
  "clamp_i64 a = max (- (2 ^ 63)) (min (2 ^ 63 - 1) a)"

definition jitter_sample :: "instant \<Rightarrow> u32 \<Rightarrow> u32 \<Rightarrow> instant \<Rightarrow> u32 \<Rightarrow> int" where
  "jitter_sample now timestamp clock_rate previous_arrival previous_timestamp =
     (let arrival_us = min (int (as_micros (saturating_duration_since now previous_arrival))) (2 ^ 63 - 1);
          timestamp_delta = sint (timestamp - previous_timestamp);
          media_us = trunc_div (timestamp_delta * 1000000) (uint clock_rate)
      in min \<bar>clamp_i64 (arrival_us - media_us)\<bar> (2 ^ 32 - 1))"

definition smooth_jitter :: "int \<Rightarrow> u32 \<Rightarrow> u32" where
  "smooth_jitter d jitter = (let delta = drop_bit 4 (d - uint jitter) in of_int (max (uint jitter + delta) 0))"

definition update_jitter :: "instant \<Rightarrow> u32 \<Rightarrow> u32 \<Rightarrow> rtcp_stats \<Rightarrow> rtcp_stats" where
  "update_jitter now timestamp clock_rate s =
     (if 0 < clock_rate then
        let jitter = (case rs_last_jitter_sample s of
              Some (previous_arrival, previous_timestamp, previous_rate) \<Rightarrow>
                if previous_rate = clock_rate
                then smooth_jitter (jitter_sample now timestamp clock_rate
                       previous_arrival previous_timestamp) (rs_jitter s)
                else 0
            | None \<Rightarrow> 0)
        in s\<lparr>rs_jitter := jitter, rs_last_jitter_sample := Some (now, timestamp, clock_rate)\<rparr>
      else s)"

definition RtcpStats_record_received ::
  "instant \<Rightarrow> rtcp_stats \<Rightarrow> u32 \<Rightarrow> u16 \<Rightarrow> u32 \<Rightarrow> nat \<Rightarrow> u32 \<Rightarrow> rtcp_stats" where
  "RtcpStats_record_received now s ssrc seq timestamp payload_len clock_rate =
     (let s = start_generation ssrc s;
          s = s\<lparr>rs_packets_received := rs_packets_received s + 1,
                rs_octets_received := rs_octets_received s + of_nat payload_len\<rparr>
      in update_jitter now timestamp clock_rate (track_seq s seq))"

definition RtcpStats_fraction_lost_and_update :: "rtcp_stats \<Rightarrow> u8 \<times> rtcp_stats" where
  "RtcpStats_fraction_lost_and_update s =
     (let expected = RtcpStats_expected_packets s;
          expected_interval = expected - rs_expected_prior s;
          received_interval = rs_packets_received s - rs_received_prior s;
          s = s\<lparr>rs_expected_prior := expected, rs_received_prior := rs_packets_received s\<rparr>
      in if expected_interval = 0 \<or> expected_interval \<le> received_interval then (0, s)
         else
           let lost_interval = expected_interval - received_interval
           in (ucast (min (push_bit 8 (ucast lost_interval) div ucast expected_interval) (255 :: u64)), s))"

definition RtcpStats_highest_seq :: "rtcp_stats \<Rightarrow> u32" where
  "RtcpStats_highest_seq s = rs_extended_max_seq s"

definition RtcpStats_record_sent :: "rtcp_stats \<Rightarrow> nat \<Rightarrow> rtcp_stats" where
  "RtcpStats_record_sent s payload_len =
     s\<lparr>rs_packets_sent := rs_packets_sent s + 1,
       rs_octets_sent := rs_octets_sent s + of_nat payload_len\<rparr>"

text \<open>The middle 32 bits of an NTP timestamp.\<close>

definition ntp_middle :: "u64 \<Rightarrow> u32" where
  "ntp_middle ntp = ucast (drop_bit 16 ntp AND 0xFFFFFFFF)"

definition RtcpStats_process_sr :: "instant \<Rightarrow> rtcp_stats \<Rightarrow> sender_report \<Rightarrow> rtcp_stats" where
  "RtcpStats_process_sr now s sr =
     s\<lparr>rs_last_sr_ntp := ntp_middle (sr_ntp_timestamp sr), rs_last_sr_received := Some now,
       rs_last_sr_ssrc := Some (sr_ssrc sr)\<rparr>"

text \<open>NTP time from the time since the Unix epoch, in nanoseconds.\<close>

definition ntp_now :: "duration \<Rightarrow> u64" where
  "ntp_now unix =
     (let ntp_secs = of_nat (unix div 1000000000) + 2208988800;
          ntp_frac = of_nat ((unix mod 1000000000) * 2 ^ 32 div 1000000000)
      in push_bit 32 ntp_secs OR ntp_frac)"

definition compact_ntp_ms :: "u32 \<Rightarrow> rat" where
  "compact_ntp_ms d =
     (of_nat (unat (drop_bit 16 d)) + of_nat (unat (d AND 0xFFFF)) / 65536) * 1000"

definition RtcpStats_process_rr ::
  "duration \<Rightarrow> instant \<Rightarrow> instant \<Rightarrow> rtcp_stats \<Rightarrow> report_block \<Rightarrow> u32 \<Rightarrow> rtcp_stats" where
  "RtcpStats_process_rr unix received_at observed_at s block our_ssrc =
     (if rb_ssrc block \<noteq> our_ssrc then s
      else
        let count = saturating_add (rs_remote_report_count s) 1;
            s = s\<lparr>rs_remote_report_count := count,
                  rs_remote_receiver_report := Some
                    \<lparr>rq_packets_lost = rb_cumulative_lost block,
                     rq_highest_sequence = rb_highest_seq block, rq_jitter = rb_jitter block,
                     rq_received_at = received_at, rq_generation = rs_remote_report_generation s,
                     rq_count = count\<rparr>\<rparr>
        in if rb_last_sr block = 0 then s
           else
             let rtt_ntp = ntp_middle (ntp_now unix) - rb_last_sr block - rb_delay_since_last_sr block;
                 rtt = compact_ntp_ms rtt_ntp
             in if 0 \<le> rtt \<and> rtt < 10000
                then s\<lparr>rs_rtt_ms := Some rtt, rs_rtt_observed_at := Some observed_at\<rparr>
                else s)"

definition RtcpStats_reset_remote_receiver_report :: "rtcp_stats \<Rightarrow> rtcp_stats" where
  "RtcpStats_reset_remote_receiver_report s =
     s\<lparr>rs_remote_report_generation := saturating_add (rs_remote_report_generation s) 1,
       rs_remote_report_count := 0, rs_remote_receiver_report := None\<rparr>"

definition RtcpStats_record_sr_sent :: "rtcp_stats \<Rightarrow> u64 \<Rightarrow> rtcp_stats" where
  "RtcpStats_record_sr_sent s ntp = s\<lparr>rs_our_last_sr_ntp_middle := ntp_middle ntp\<rparr>"

section \<open>The high-water mark\<close>

lemma ucast_of_nat_unat: "(ucast w :: u16) = of_nat (unat w)" for w :: u32
  by simp

lemma unat_seq_delta:
  fixes e :: u32
  assumes "near (2 ^ 32 - 1) (unat e) i"
  shows "unat (of_nat i - ucast e :: u16) = (if unat e \<le> i then i - unat e else 65536 - (unat e - i))"
proof (cases "unat e \<le> i")
  case True
  then have "(of_nat i - ucast e :: u16) = of_nat (i - unat e)"
    by (simp add: of_nat_diff)
  moreover have "unat (of_nat (i - unat e) :: u16) = i - unat e"
    using True assms by (intro unat_of_nat_small) (auto simp: near_def)
  ultimately show ?thesis using True by (simp only: if_True)
next
  case False
  then have "(of_nat (65536 - (unat e - i)) :: u16) = of_nat 65536 - (of_nat (unat e) - of_nat i)"
  proof -
    have le: "unat e - i \<le> 65536" "i \<le> unat e" using False assms by (auto simp: near_def)
    show ?thesis unfolding of_nat_diff [OF le(1)] of_nat_diff [OF le(2)] ..
  qed
  also have "\<dots> = of_nat i - ucast e" by simp
  finally have "unat (of_nat i - ucast e :: u16) = unat (of_nat (65536 - (unat e - i)) :: u16)" by simp
  also have "\<dots> = 65536 - (unat e - i)" using False by (intro unat_of_nat_small) simp
  finally show ?thesis using False by simp
qed

lemma unat_advance_max_seq:
  fixes e :: u32
  assumes near: "near (2 ^ 32 - 1) (unat e) i"
  shows "unat (advance_max_seq e (of_nat i)) = max (unat e) i"
proof -
  define d where "d = (of_nat i - ucast e :: u16)"
  have d: "unat d = (if unat e \<le> i then i - unat e else 65536 - (unat e - i))"
    unfolding d_def by (rule unat_seq_delta [OF near])
  have adv: "advance_max_seq e (of_nat i) = (if d \<noteq> 0 \<and> d < 0x8000 then e + ucast d else e)"
    by (simp add: advance_max_seq_def d_def Let_def)
  have cond: "d \<noteq> 0 \<and> d < 0x8000 \<longleftrightarrow> 0 < unat d \<and> unat d < 0x8000"
    by (simp add: word_less_nat_alt unat_gt_0)
  have up: "unat (ucast d :: u32) = unat d"
    using unat_u16_less [of d] by (simp add: unsigned_ucast_eq take_bit_eq_mod)
  have sum: "unat (e + ucast d) = unat e + unat d" if "unat e + unat d < 4294967296"
    using that by (simp add: unat_word_ariths up)
  show ?thesis
    unfolding adv cond using d sum near by (auto simp: near_def)
qed

interpretation rtcp_seq: high_mark "2 ^ 32 - 1" "\<lambda>_. True" unat advance_max_seq
  by unfold_locales (simp_all only: unat_advance_max_seq)

section \<open>Loss\<close>

text \<open>An arrival: the packet's true index, when it came, and what \<open>record_received\<close> is told.\<close>

type_synonym arrival = "nat \<times> instant \<times> u32 \<times> nat \<times> u32"

fun receive :: "u32 \<Rightarrow> arrival \<Rightarrow> rtcp_stats \<Rightarrow> rtcp_stats" where
  "receive ssrc (i, now, timestamp, payload_len, clock_rate) s =
     RtcpStats_record_received now s ssrc (of_nat i) timestamp payload_len clock_rate"

lemma update_jitter_simps [simp]:
  "rs_current_ssrc (update_jitter now ts rate s) = rs_current_ssrc s"
  "rs_seq_initialized (update_jitter now ts rate s) = rs_seq_initialized s"
  "rs_base_seq (update_jitter now ts rate s) = rs_base_seq s"
  "rs_extended_max_seq (update_jitter now ts rate s) = rs_extended_max_seq s"
  "rs_packets_received (update_jitter now ts rate s) = rs_packets_received s"
  "rs_lost_accumulated (update_jitter now ts rate s) = rs_lost_accumulated s"
  by (simp_all add: update_jitter_def Let_def)

definition in_generation :: "u32 \<Rightarrow> nat \<Rightarrow> u32 \<Rightarrow> rtcp_stats \<Rightarrow> bool" where
  "in_generation ssrc base acc s \<longleftrightarrow> rs_current_ssrc s = Some ssrc \<and> rs_seq_initialized s
     \<and> unat (rs_base_seq s) = base \<and> rs_lost_accumulated s = acc"

lemma receive_first:
  assumes "rs_current_ssrc s \<noteq> Some ssrc" "fst a < 65536"
    and "acc = (if rs_current_ssrc s = None then rs_lost_accumulated s else RtcpStats_cumulative_lost s)"
  shows "in_generation ssrc (fst a) acc (receive ssrc a s)"
    "unat (rs_extended_max_seq (receive ssrc a s)) = fst a"
    "rs_packets_received (receive ssrc a s) = 1"
proof -
  have "unat (ucast (of_nat (fst a) :: u16) :: u32) = fst a"
    using assms(2) by (simp add: unsigned_ucast_eq take_bit_eq_mod unat_of_nat)
  with assms show "in_generation ssrc (fst a) acc (receive ssrc a s)"
      "unat (rs_extended_max_seq (receive ssrc a s)) = fst a"
      "rs_packets_received (receive ssrc a s) = 1"
    by (cases a; simp add: RtcpStats_record_received_def start_generation_def track_seq_def Let_def
        in_generation_def RtcpStats_cumulative_lost_def)+
qed

lemma receive_next:
  assumes "in_generation ssrc base acc s"
  shows "in_generation ssrc base acc (receive ssrc a s)"
    "rs_extended_max_seq (receive ssrc a s) = advance_max_seq (rs_extended_max_seq s) (of_nat (fst a))"
    "rs_packets_received (receive ssrc a s) = rs_packets_received s + 1"
  using assms
  by (cases a; simp add: RtcpStats_record_received_def start_generation_def track_seq_def Let_def
      in_generation_def)+

lemma receive_run:
  assumes "in_generation ssrc base acc s"
  shows "in_generation ssrc base acc (fold (receive ssrc) as s)
    \<and> rs_extended_max_seq (fold (receive ssrc) as s)
        = run_with advance_max_seq (rs_extended_max_seq s) (map of_nat (map fst as))
    \<and> rs_packets_received (fold (receive ssrc) as s) = rs_packets_received s + of_nat (length as)"
  using assms
proof (induction "as" arbitrary: s)
  case (Cons a "as")
  note r = receive_next [OF Cons.prems, of a]
  show ?case using Cons.IH [OF r(1)] r(2,3) by simp
qed simp

text \<open>A generation is what arrives from one SSRC: its first packet starts the count.  Its loss
  is the number of indices from the first to the largest, less the packets received.\<close>

definition generation_ok :: "arrival list \<Rightarrow> bool" where
  "generation_ok as \<longleftrightarrow> as \<noteq> [] \<and> fst (hd as) < 65536
     \<and> jitter_ok (2 ^ 32 - 1) (fst (hd as)) (map fst (tl as)) \<and> length as < 2 ^ 32"

definition generation_lost :: "arrival list \<Rightarrow> nat" where
  "generation_lost as = Suc (Max (set (map fst as)) - fst (hd as)) - length as"

lemma fold_max_Max: "fold max xs (x :: nat) = Max (set (x # xs))"
  by (metis Max.set_eq_fold)

lemma jitter_ok_limit: "jitter_ok limit h is \<Longrightarrow> h < limit \<Longrightarrow> i \<in> set (h # is) \<Longrightarrow> i < limit"
  by (induction "is" arbitrary: h) (auto simp: near_def max_def split: if_splits)

lemma generation_counts:
  assumes "generation_ok as" "rs_current_ssrc s \<noteq> Some ssrc"
    and "acc = (if rs_current_ssrc s = None then rs_lost_accumulated s else RtcpStats_cumulative_lost s)"
  defines "s' \<equiv> fold (receive ssrc) as s"
  shows "rs_current_ssrc s' = Some ssrc" "rs_lost_accumulated s' = acc"
    "unat (RtcpStats_highest_seq s') = Max (set (map fst as))"
    "unat (RtcpStats_current_gen_lost s') = generation_lost as"
proof -
  obtain a rest where as: "as = a # rest" using assms(1) by (cases "as") (auto simp: generation_ok_def)
  let ?M = "Max (set (map fst as))"
  have a: "fst a < 65536" "jitter_ok (2 ^ 32 - 1) (fst a) (map fst rest)" "Suc (length rest) < 2 ^ 32"
    using assms(1) by (simp_all add: as generation_ok_def)
  note first = receive_first [OF assms(2) a(1) assms(3)]
  note run = receive_run [OF first(1), of rest]
  have s': "s' = fold (receive ssrc) rest (receive ssrc a s)" by (simp add: s'_def as)
  have gen: "in_generation ssrc (fst a) acc s'" using run s' by simp
  then show "rs_current_ssrc s' = Some ssrc" "rs_lost_accumulated s' = acc"
    by (simp_all add: in_generation_def)
  have high: "unat (rs_extended_max_seq s') = ?M"
    using run rtcp_seq.run_high [OF TrueI, of "rs_extended_max_seq (receive ssrc a s)" "map fst rest"] a(2) first(2)
    by (simp add: s' fold_max_Max as)
  then show "unat (RtcpStats_highest_seq s') = ?M" by (simp add: RtcpStats_highest_seq_def)
  have count: "unat (rs_packets_received s') = length as"
    using run first(3) a(3) unat_of_nat_small(2) [of "Suc (length rest)"] by (simp add: s' as)
  have M: "fst a \<le> ?M" "?M < 2 ^ 32 - 1"
    using jitter_ok_limit [OF a(2), of ?M] a(1) Max_in [of "set (map fst as)"] by (auto simp: as)
  then have "rs_base_seq s' \<le> rs_extended_max_seq s'"
    using gen high by (simp add: word_le_nat_alt in_generation_def)
  then have "unat (rs_extended_max_seq s' - rs_base_seq s') = ?M - fst a"
    using gen high by (simp add: unat_sub in_generation_def word_le_nat_alt)
  then have "unat (RtcpStats_expected_packets s') = Suc (?M - fst a)"
    using gen M by (simp add: RtcpStats_expected_packets_def in_generation_def unat_word_ariths)
  then show "unat (RtcpStats_current_gen_lost s') = generation_lost as"
    by (simp add: RtcpStats_current_gen_lost_def unat_saturating_sub count generation_lost_def) (simp add: as)
qed

section \<open>Properties\<close>

text \<open>A leg is a sequence of generations, each from another SSRC than the one before.\<close>

fun leg_ok :: "u32 option \<Rightarrow> (u32 \<times> arrival list) list \<Rightarrow> bool" where
  "leg_ok prev [] = True"
| "leg_ok prev ((ssrc, as) # gs) = (prev \<noteq> Some ssrc \<and> generation_ok as \<and> leg_ok (Some ssrc) gs)"

definition receive_leg :: "(u32 \<times> arrival list) list \<Rightarrow> rtcp_stats \<Rightarrow> rtcp_stats" where
  "receive_leg = fold (\<lambda>(ssrc, as). fold (receive ssrc) as)"

lemma leg_lost:
  assumes "leg_ok (rs_current_ssrc s) gs"
    and "rs_current_ssrc s = None \<Longrightarrow> RtcpStats_current_gen_lost s = 0"
  shows "unat (RtcpStats_cumulative_lost (receive_leg gs s))
    = min (unat (RtcpStats_cumulative_lost s) + sum_list (map (generation_lost \<circ> snd) gs)) (2 ^ 32 - 1)"
  using assms
proof (induction gs arbitrary: s)
  case Nil
  then show ?case using unat_u32_less [of "RtcpStats_cumulative_lost s"] by (simp add: receive_leg_def)
next
  case (Cons g gs)
  obtain ssrc "as" where g: "g = (ssrc, as)" by (cases g)
  let ?s = "fold (receive ssrc) as s"
  have zero: "saturating_add w 0 = w" for w :: u32
    using unat_saturating_add [of w 0] unat_u32_less [of w] by (simp add: word_unat_eq_iff)
  note gen = generation_counts [of "as" s ssrc, OF _ _ refl]
  have acc: "(if rs_current_ssrc s = None then rs_lost_accumulated s else RtcpStats_cumulative_lost s)
      = RtcpStats_cumulative_lost s"
    using Cons.prems(2) by (simp add: RtcpStats_cumulative_lost_def zero)
  have now: "unat (RtcpStats_cumulative_lost ?s) = min (unat (RtcpStats_cumulative_lost s) + generation_lost as) (2 ^ 32 - 1)"
    using Cons.prems(1) gen(2,4) unfolding acc
    by (simp add: g RtcpStats_cumulative_lost_def [of ?s] unat_saturating_add)
  have "unat (RtcpStats_cumulative_lost (receive_leg gs ?s))
      = min (unat (RtcpStats_cumulative_lost ?s) + sum_list (map (generation_lost \<circ> snd) gs)) (2 ^ 32 - 1)"
    using Cons.prems(1) gen(1) by (intro Cons.IH) (simp_all add: g)
  with now show ?case by (simp add: g receive_leg_def comp_def min_def)
qed



lemma smooth_jitter_between:
  assumes "0 \<le> d" "d < 2 ^ 32"
  shows "min d (uint jitter) \<le> uint (smooth_jitter d jitter)
    \<and> uint (smooth_jitter d jitter) \<le> max d (uint jitter)"
proof -
  have j: "0 \<le> uint jitter" "uint jitter < 2 ^ 32"
    using uint_ge_0 [of jitter] uint_lt2p [of jitter] by simp_all
  let ?x = "uint jitter + (d - uint jitter) div 16"
  have x: "min d (uint jitter) \<le> ?x" "?x \<le> max d (uint jitter)" by linarith+
  with j assms have x0: "0 \<le> ?x" "?x < 2 ^ 32" by linarith+
  then have "smooth_jitter d jitter = word_of_int ?x"
    by (simp add: smooth_jitter_def drop_bit_eq_div max_def)
  moreover have "uint (word_of_int ?x :: u32) = ?x"
    using x0 unfolding uint_word_of_int by (intro mod_pos_pos_trivial) simp_all
  ultimately show ?thesis using x by simp
qed

text \<open>While the clock rate stays the same, the jitter estimate moves towards the newest
  sample \<open>|D|\<close> without passing it: it stays between the old estimate and the sample, so it
  neither diverges nor wraps.\<close>

lemma jitter_between:
  assumes "0 < clock_rate" "rs_last_jitter_sample s = Some (t0, ts0, clock_rate)"
  shows "let d = jitter_sample now timestamp clock_rate t0 ts0;
             j = uint (rs_jitter (update_jitter now timestamp clock_rate s))
         in min d (uint (rs_jitter s)) \<le> j \<and> j \<le> max d (uint (rs_jitter s))"
proof -
  let ?d = "jitter_sample now timestamp clock_rate t0 ts0"
  have "0 \<le> ?d" "?d < 2 ^ 32" by (simp_all add: jitter_sample_def Let_def)
  moreover have "rs_jitter (update_jitter now timestamp clock_rate s) = smooth_jitter ?d (rs_jitter s)"
    using assms by (simp add: update_jitter_def)
  ultimately show ?thesis using smooth_jitter_between by (simp add: Let_def)
qed

theorem jitter_between_witness:
  "(let s = RtcpStats_new\<lparr>rs_last_jitter_sample := Some (0, 0, 8000), rs_jitter := 500\<rparr>;
        d = jitter_sample 21000000 160 8000 0 0;
        j = uint (rs_jitter (update_jitter 21000000 160 8000 s))
    in min d 500 \<le> j \<and> j \<le> max d 500)"
  using jitter_between [of 8000 "RtcpStats_new\<lparr>rs_last_jitter_sample := Some (0, 0, 8000), rs_jitter := 500\<rparr>" 0 0 21000000 160]
  by simp

end
