(* ===== verification/Rtcp_Packets.thy ===== *)
theory Rtcp_Packets
  imports Rtcp_Stats
begin

unbundle bit_operations_syntax

text \<open>
  RTCP on the wire (\<open>src/src/media/rtcp.rs\<close>): the report the bridge sends, the check of a
  whole compound datagram, and the parser.  The reason of a BYE packet is kept as the bytes
  that the source decodes with \<open>String::from_utf8_lossy\<close>.
\<close>

section \<open>Definitions\<close>

definition RTCP_SR :: u8 where "RTCP_SR = 200"
definition RTCP_RR :: u8 where "RTCP_RR = 201"
definition RTCP_SDES :: u8 where "RTCP_SDES = 202"
definition RTCP_BYE :: u8 where "RTCP_BYE = 203"

lemmas rtcp_types = RTCP_SR_def RTCP_RR_def RTCP_SDES_def RTCP_BYE_def

record bye_packet =
  bp_ssrc_list :: "u32 list"
  bp_reason :: "bytes option"

datatype rtcp_packet =
    SenderReport sender_report
  | ReceiverReport receiver_report
  | Bye bye_packet

subsection \<open>Building a report\<close>

text \<open>The delay since the last sender report, in units of 1/65536 second.\<close>

definition delay_since_sr :: "duration \<Rightarrow> u32" where
  "delay_since_sr elapsed =
     push_bit 16 (of_nat (min (elapsed div 1000000000) 0xFFFF))
     OR of_nat (elapsed mod 1000000000 div 1000 * 65536 div 1000000)"

definition build_sr_rr ::
  "duration \<Rightarrow> instant \<Rightarrow> u32 \<Rightarrow> u32 \<Rightarrow> rtcp_stats \<Rightarrow> u32 \<Rightarrow> u32 \<Rightarrow> bytes \<times> rtcp_stats" where
  "build_sr_rr unix now our_ssrc remote_ssrc stats rtp_timestamp clock_rate =
     (let ntp = ntp_now unix;
          stats = RtcpStats_record_sr_sent stats ntp;
          rc = 1 :: u8;
          header = [0x80 OR rc, RTCP_SR];
          len = 6 + ucast rc * 6 :: u16;
          sender = to_be16 len @ to_be32 our_ssrc @ to_be64 ntp @ to_be32 rtp_timestamp
            @ to_be32 (rs_packets_sent stats) @ to_be32 (rs_octets_sent stats);
          (fraction_lost, stats) = RtcpStats_fraction_lost_and_update stats;
          cum_lost = RtcpStats_current_gen_lost stats AND 0x00FFFFFF;
          rate = (if 0 < clock_rate then clock_rate else 8000);
          jitter_ts = ucast (ucast (rs_jitter stats) * ucast rate div (1000000 :: u64)) :: u32;
          (last_sr, dlsr) =
            (if rs_last_sr_ssrc stats = Some remote_ssrc then
               (rs_last_sr_ntp stats,
                case rs_last_sr_received stats of
                  Some t \<Rightarrow> delay_since_sr (saturating_duration_since now t)
                | None \<Rightarrow> 0)
             else (0, 0))
      in (header @ sender @ to_be32 remote_ssrc
          @ [fraction_lost, ucast (drop_bit 16 cum_lost AND 0xFF), ucast (drop_bit 8 cum_lost AND 0xFF),
             ucast (cum_lost AND 0xFF)]
          @ to_be32 (RtcpStats_highest_seq stats) @ to_be32 jitter_ts @ to_be32 last_sr @ to_be32 dlsr,
          stats))"

subsection \<open>Checking a compound datagram\<close>

text \<open>The items of one SDES chunk, up to the null item that ends it.\<close>

function sdes_items :: "bytes \<Rightarrow> nat \<Rightarrow> nat option" where
  "sdes_items content offset =
     (if length content \<le> offset then None
      else if content ! offset = 0 then Some ((offset + 4) div 4 * 4)
      else if length content < offset + 2 then None
      else
        let offset = offset + 2 + unat (content ! (offset + 1)) in
        if length content < offset then None else sdes_items content offset)"
  by pat_completeness auto

termination
  by (relation "measure (\<lambda>(content, offset). length content - offset)") (auto simp: Let_def)

declare sdes_items.simps [simp del]

fun sdes_chunks :: "bytes \<Rightarrow> nat \<Rightarrow> nat \<Rightarrow> nat option" where
  "sdes_chunks content 0 offset = Some offset"
| "sdes_chunks content (Suc n) offset =
     (if length content < offset + 4 then None
      else case sdes_items content (offset + 4) of
        None \<Rightarrow> None
      | Some offset \<Rightarrow> sdes_chunks content n offset)"

definition valid_content :: "u8 \<Rightarrow> nat \<Rightarrow> bytes \<Rightarrow> bool" where
  "valid_content pt count content =
     (if pt = RTCP_SR then 28 + count * 24 \<le> length content
      else if pt = RTCP_RR then 8 + count * 24 \<le> length content
      else if pt = RTCP_BYE then
        let end = 4 + count * 4 in
        if count = 0 \<or> length content < end then False
        else \<not> (end < length content \<and> length content < end + 1 + unat (content ! end))
      else if pt = RTCP_SDES then
        (case sdes_chunks content count 4 of None \<Rightarrow> False | Some offset \<Rightarrow> offset = length content)
      else if 204 \<le> pt \<and> pt \<le> 206 then 12 \<le> length content
      else if pt = 207 then 8 \<le> length content
      else True)"

definition packet_size :: "bytes \<Rightarrow> nat" where
  "packet_size data = (unat (from_be16 (data ! 2) (data ! 3)) + 1) * 4"

text \<open>One turn of the loop: the size of the packet at the head, if it is well formed.\<close>

definition valid_head :: "bytes \<Rightarrow> nat option" where
  "valid_head data =
     (if length data < 4 \<or> drop_bit 6 (data ! 0) \<noteq> 2 \<or> \<not> (192 \<le> data ! 1 \<and> data ! 1 \<le> 223) then None
      else
        let size = packet_size data in
        if length data < size then None
        else
          let content = take size data;
              stripped =
                (if data ! 0 AND 0x20 \<noteq> 0 then
                   let padding = unat (content ! (size - 1)) in
                   if size \<noteq> length data \<or> padding = 0 \<or> size - 4 < padding then None
                   else Some (take (size - padding) content)
                 else Some content)
          in case stripped of
               None \<Rightarrow> None
             | Some content \<Rightarrow>
                 if valid_content (data ! 1) (unat (data ! 0 AND 31)) content then Some size else None)"

lemma valid_head_size: "valid_head data = Some n \<Longrightarrow> n = packet_size data \<and> 4 \<le> n \<and> n \<le> length data"
  by (auto simp: valid_head_def Let_def packet_size_def split: if_splits)

function valid_packets :: "bytes \<Rightarrow> bool" where
  "valid_packets data =
     (if data = [] then True
      else case valid_head data of None \<Rightarrow> False | Some n \<Rightarrow> valid_packets (drop n data))"
  by pat_completeness auto

termination
  by (relation "measure length") (auto dest!: valid_head_size)

declare valid_packets.simps [simp del]

definition valid_compound :: "bytes \<Rightarrow> bool" where
  "valid_compound data = (if data = [] then False else valid_packets data)"

subsection \<open>Parsing\<close>

definition be32_at :: "bytes \<Rightarrow> nat \<Rightarrow> u32" where
  "be32_at data off = from_be32 (data ! off) (data ! (off + 1)) (data ! (off + 2)) (data ! (off + 3))"

definition be64_at :: "bytes \<Rightarrow> nat \<Rightarrow> u64" where
  "be64_at data off = from_be64 (data ! off) (data ! (off + 1)) (data ! (off + 2)) (data ! (off + 3))
     (data ! (off + 4)) (data ! (off + 5)) (data ! (off + 6)) (data ! (off + 7))"

definition report_block_at :: "bytes \<Rightarrow> nat \<Rightarrow> report_block" where
  "report_block_at data off =
     \<lparr>rb_ssrc = be32_at data off,
      rb_fraction_lost = data ! (off + 4),
      rb_cumulative_lost = from_be32 (if data ! (off + 5) AND 0x80 \<noteq> 0 then 0xff else 0)
        (data ! (off + 5)) (data ! (off + 6)) (data ! (off + 7)),
      rb_highest_seq = be32_at data (off + 8),
      rb_jitter = be32_at data (off + 12),
      rb_last_sr = be32_at data (off + 16),
      rb_delay_since_last_sr = be32_at data (off + 20)\<rparr>"

fun report_blocks_from :: "bytes \<Rightarrow> nat \<Rightarrow> nat \<Rightarrow> report_block list" where
  "report_blocks_from data 0 off = []"
| "report_blocks_from data (Suc n) off =
     (if length data < off + 24 then []
      else report_block_at data off # report_blocks_from data n (off + 24))"

definition parse_report_blocks :: "bytes \<Rightarrow> u8 \<Rightarrow> report_block list" where
  "parse_report_blocks data count = report_blocks_from data (unat count) 0"

fun bye_ssrcs :: "bytes \<Rightarrow> nat \<Rightarrow> nat \<Rightarrow> u32 list \<times> nat" where
  "bye_ssrcs content 0 off = ([], off)"
| "bye_ssrcs content (Suc n) off =
     (if length content < off + 4 then ([], off)
      else let (rest, end) = bye_ssrcs content n (off + 4) in (be32_at content off # rest, end))"

definition bye_reason :: "bytes \<Rightarrow> nat \<Rightarrow> bytes option" where
  "bye_reason content off =
     (if off < length content then
        let len = unat (content ! off); off = off + 1
        in if 0 < len \<and> off + len \<le> length content then Some (take len (drop off content)) else None
      else None)"

text \<open>The packet at the head, and what it contributes to the result.\<close>

definition parse_content :: "u8 \<Rightarrow> u8 \<Rightarrow> bytes \<Rightarrow> rtcp_packet list" where
  "parse_content pt rc content =
     (if pt = RTCP_SR \<and> 28 \<le> length content then
        [SenderReport
           \<lparr>sr_ssrc = be32_at content 4, sr_ntp_timestamp = be64_at content 8,
            sr_rtp_timestamp = be32_at content 16, sr_sender_packet_count = be32_at content 20,
            sr_sender_octet_count = be32_at content 24,
            sr_report_blocks = parse_report_blocks (drop 28 content) rc\<rparr>]
      else if pt = RTCP_RR \<and> 8 \<le> length content then
        [ReceiverReport
           \<lparr>rr_ssrc = be32_at content 4,
            rr_report_blocks = parse_report_blocks (drop 8 content) rc\<rparr>]
      else if pt = RTCP_BYE then
        let (ssrc_list, off) = bye_ssrcs content (unat rc) 4
        in [Bye \<lparr>bp_ssrc_list = ssrc_list, bp_reason = bye_reason content off\<rparr>]
      else [])"

definition content_len :: "bool \<Rightarrow> bytes \<Rightarrow> nat" where
  "content_len padding pkt_data =
     (if padding \<and> pkt_data \<noteq> [] then
        let pad_count = unat (last pkt_data) in
        if 0 < pad_count \<and> pad_count \<le> length pkt_data then length pkt_data - pad_count
        else length pkt_data
      else length pkt_data)"

definition packet_len_at :: "bytes \<Rightarrow> nat \<Rightarrow> nat" where
  "packet_len_at data offset = (unat (from_be16 (data ! (offset + 2)) (data ! (offset + 3))) + 1) * 4"

definition parse_packet_at :: "bytes \<Rightarrow> nat \<Rightarrow> rtcp_packet list" where
  "parse_packet_at data offset =
     (let padding = (drop_bit 5 (data ! offset) AND 0x01 \<noteq> 0);
          rc = data ! offset AND 0x1F;
          pt = data ! (offset + 1);
          pkt_data = take (packet_len_at data offset) (drop offset data);
          pkt_content = take (content_len padding pkt_data) pkt_data
      in parse_content pt rc pkt_content)"

function parse_from :: "bytes \<Rightarrow> nat \<Rightarrow> rtcp_packet list" where
  "parse_from data offset =
     (if offset + 4 \<le> length data \<and> drop_bit 6 (data ! offset) AND 0x03 = 2
         \<and> offset + packet_len_at data offset \<le> length data
      then parse_packet_at data offset @ parse_from data (offset + packet_len_at data offset)
      else [])"
  by pat_completeness auto

termination
  by (relation "measure (\<lambda>(data, offset). length data - offset)") (auto simp: packet_len_at_def)

declare parse_from.simps [simp del]

definition parse_rtcp :: "bytes \<Rightarrow> rtcp_packet list" where
  "parse_rtcp data = parse_from data 0"

section \<open>The parser packet by packet\<close>

lemma parse_from_shift: "parse_from (xs @ data) (length xs + off) = parse_from data off"
proof (induction "length data - off" arbitrary: off rule: less_induct)
  case less
  have nth: "(xs @ data) ! (length xs + k) = data ! k" for k by simp
  have len: "packet_len_at (xs @ data) (length xs + off) = packet_len_at data off"
    unfolding packet_len_at_def add.assoc nth ..
  have pkt: "parse_packet_at (xs @ data) (length xs + off) = parse_packet_at data off"
    unfolding parse_packet_at_def len add.assoc nth by simp
  have IH: "parse_from (xs @ data) (length xs + (off + packet_len_at data off))
      = parse_from data (off + packet_len_at data off)" if "off + 4 \<le> length data"
    using that by (intro less) (simp add: packet_len_at_def)
  show ?case
    unfolding parse_from.simps [of "xs @ data" "length xs + off"] parse_from.simps [of data off] len pkt
      add.assoc nth
    using IH by (auto simp: add.assoc)
qed

lemma parse_from_drop: "offset \<le> length data \<Longrightarrow> parse_from data offset = parse_rtcp (drop offset data)"
  using parse_from_shift [of "take offset data" "drop offset data" 0] by (simp add: parse_rtcp_def)

text \<open>What one packet parses to, given exactly its bytes.\<close>

definition packet_content :: "bytes \<Rightarrow> bytes" where
  "packet_content c = take (content_len (drop_bit 5 (c ! 0) AND 0x01 \<noteq> 0) c) c"

lemma take_small_nth: "k < n \<Longrightarrow> take n xs ! k = xs ! k"
  by simp

lemma parse_head:
  assumes "4 \<le> length data" "drop_bit 6 (data ! 0) AND 3 = 2" "packet_size data \<le> length data"
  shows "parse_rtcp data = parse_content (data ! 1) (data ! 0 AND 0x1F) (packet_content (take (packet_size data) data))
     @ parse_rtcp (drop (packet_size data) data)"
proof -
  have "0 < packet_size data" by (simp add: packet_size_def)
  then have h: "take (packet_size data) data ! 0 = data ! 0" by simp
  have n: "packet_len_at data 0 = packet_size data" by (simp add: packet_len_at_def packet_size_def numeral_2_eq_2)
  have "parse_rtcp data = parse_packet_at data 0 @ parse_from data (packet_size data)"
    unfolding parse_rtcp_def parse_from.simps [of data 0] n using assms by simp
  moreover have "parse_packet_at data 0
      = parse_content (data ! 1) (data ! 0 AND 0x1F) (packet_content (take (packet_size data) data))"
    by (simp add: parse_packet_at_def packet_content_def n h Let_def)
  ultimately show ?thesis using parse_from_drop [OF assms(3)] by simp
qed

lemma parse_rtcp_Nil [simp]: "parse_rtcp [] = []"
  by (simp add: parse_rtcp_def parse_from.simps)

section \<open>Valid datagrams\<close>

lemma drop_bit_6_and_3: "drop_bit 6 b AND 3 = drop_bit 6 b" for b :: u8
proof -
  have "(3 :: u8) = mask 2" by (simp add: mask_eq_exp_minus_1)
  then show ?thesis by (simp only: take_bit_eq_mask [symmetric]) (auto simp: bit_eq_iff bit_simps dest: bit_imp_le_length)
qed

lemma padding_flag: "drop_bit 5 b AND 0x01 \<noteq> 0 \<longleftrightarrow> b AND 0x20 \<noteq> 0" for b :: u8
proof -
  have "drop_bit 5 b AND 1 \<noteq> 0 \<longleftrightarrow> bit b 5" by (simp add: and_one_eq bit_iff_odd_drop_bit odd_iff_mod_2_eq_one)
  moreover have "b AND 0x20 \<noteq> 0 \<longleftrightarrow> bit b 5"
    using and_exp_eq_0_iff_not_bit [of b 5] by simp
  ultimately show ?thesis by simp
qed

lemma valid_head_content:
  assumes "valid_head data = Some n"
  shows "drop_bit 6 (data ! 0) = 2" "n = packet_size data" "4 \<le> n" "n \<le> length data"
    "valid_content (data ! 1) (unat (data ! 0 AND 31)) (packet_content (take n data))"
proof -
  show n: "n = packet_size data" "4 \<le> n" "n \<le> length data"
    using valid_head_size [OF assms] by simp_all
  show "drop_bit 6 (data ! 0) = 2"
    using assms by (auto simp: valid_head_def split: if_splits)
  have last: "last (take n data) = take n data ! (n - 1)"
    using n by (subst last_conv_nth) (auto simp: min_def)
  have 0: "take n data ! 0 = data ! 0" using n by simp
  show "valid_content (data ! 1) (unat (data ! 0 AND 31)) (packet_content (take n data))"
  proof (cases "data ! 0 AND 0x20 = 0")
    case True
    with assms n show ?thesis
      by (auto simp: valid_head_def Let_def packet_content_def content_len_def 0 padding_flag min_def split: if_splits)
  next
    case False
    let ?p = "unat (take n data ! (n - 1))"
    from assms False n(1) have p: "0 < ?p" "?p \<le> n - 4"
      and v: "valid_content (data ! 1) (unat (data ! 0 AND 31)) (take (n - ?p) (take n data))"
      by (auto simp: valid_head_def Let_def split: if_splits)
    have "length (take n data) = n" "take n data \<noteq> []" using n by auto
    then have "content_len True (take n data) = n - ?p"
      unfolding content_len_def last using p by (simp add: Let_def)
    with v False show ?thesis by (simp only: packet_content_def 0 padding_flag) simp
  qed
qed

text \<open>The packets of a datagram, as slices.\<close>

function subpackets :: "bytes \<Rightarrow> bytes list" where
  "subpackets data = (case valid_head data of None \<Rightarrow> [] | Some n \<Rightarrow> take n data # subpackets (drop n data))"
  by pat_completeness auto

termination
  by (relation "measure length") (auto dest!: valid_head_size)

declare subpackets.simps [simp del]

lemma length_report_blocks: "off + n * 24 \<le> length data \<Longrightarrow> length (report_blocks_from data n off) = n"
  by (induction n arbitrary: off) simp_all

lemma bye_ssrcs_complete:
  "off + n * 4 \<le> length content \<Longrightarrow> length (fst (bye_ssrcs content n off)) = n \<and> snd (bye_ssrcs content n off) = off + n * 4"
  by (induction n arbitrary: off) (simp_all add: split_beta Let_def)

text \<open>A packet is parsed in full if everything its header announces comes out: as many report
  blocks, or as many sources that left, as its count says.\<close>

definition parsed_in_full :: "bytes \<Rightarrow> bool" where
  "parsed_in_full c \<longleftrightarrow>
     (let count = unat (c ! 0 AND 31) in
      if c ! 1 = RTCP_SR then
        (case parse_rtcp c of [SenderReport sr] \<Rightarrow> length (sr_report_blocks sr) = count | _ \<Rightarrow> False)
      else if c ! 1 = RTCP_RR then
        (case parse_rtcp c of [ReceiverReport rr] \<Rightarrow> length (rr_report_blocks rr) = count | _ \<Rightarrow> False)
      else if c ! 1 = RTCP_BYE then
        (case parse_rtcp c of [Bye b] \<Rightarrow> 0 < count \<and> length (bp_ssrc_list b) = count | _ \<Rightarrow> False)
      else parse_rtcp c = [])"

lemma parse_content_full:
  assumes "valid_content pt (unat rc) content" "parse_rtcp c = parse_content pt rc content"
    and "c ! 1 = pt" "c ! 0 AND 31 = rc"
  shows "parsed_in_full c"
  using assms bye_ssrcs_complete [of 4 "unat rc" content]
    length_report_blocks [of 0 "unat rc" "drop 28 content"] length_report_blocks [of 0 "unat rc" "drop 8 content"]
  by (auto simp: parsed_in_full_def valid_content_def parse_content_def parse_report_blocks_def rtcp_types
      Let_def split: prod.split if_splits)

lemma valid_head_parses:
  assumes "valid_head data = Some n"
  shows "parse_rtcp data = parse_rtcp (take n data) @ parse_rtcp (drop n data)" "parsed_in_full (take n data)"
proof -
  note v = valid_head_content [OF assms]
  let ?c = "take n data"
  have c: "?c ! 0 = data ! 0" "?c ! 1 = data ! 1" "packet_size ?c = n" "length ?c = n"
    using v(2-4) by (simp_all add: packet_size_def)
  have version: "drop_bit 6 (data ! 0) AND 3 = 2" using v(1) by (simp add: drop_bit_6_and_3)
  have whole: "parse_rtcp data = parse_content (data ! 1) (data ! 0 AND 0x1F) (packet_content ?c) @ parse_rtcp (drop n data)"
    using parse_head [OF _ version] v(2-4) by simp
  have part: "parse_rtcp ?c = parse_content (data ! 1) (data ! 0 AND 0x1F) (packet_content ?c)"
    using parse_head [of ?c] c v(3) version by simp
  from whole part show "parse_rtcp data = parse_rtcp ?c @ parse_rtcp (drop n data)" by simp
  show "parsed_in_full ?c"
    by (rule parse_content_full [OF v(5) part]) (simp_all only: c)
qed

lemma valid_packets_parse:
  "valid_packets data \<Longrightarrow> concat (subpackets data) = data
     \<and> parse_rtcp data = concat (map parse_rtcp (subpackets data))
     \<and> list_all parsed_in_full (subpackets data)"
proof (induction data rule: valid_packets.induct)
  case (1 data)
  show ?case
  proof (cases "data = []")
    case True
    then show ?thesis by (simp add: subpackets.simps valid_head_def)
  next
    case False
    with 1(2) obtain n where n: "valid_head data = Some n" "valid_packets (drop n data)"
      by (subst (asm) valid_packets.simps) (auto split: option.splits)
    show ?thesis
      using 1(1) [OF False n] valid_head_parses [OF n(1)] n(1)
      by (simp add: subpackets.simps [of data])
  qed
qed

section \<open>Properties\<close>

text \<open>C18. Whatever \<open>valid_compound\<close> accepts, the parser reads completely: the datagram is the
  concatenation of its packets, parsing it is parsing them one after the other, and each
  report or BYE comes out with everything its header announces.\<close>

theorem valid_compound_parses_in_full:
  assumes "valid_compound data"
  shows "concat (subpackets data) = data
    \<and> parse_rtcp data = concat (map parse_rtcp (subpackets data))
    \<and> list_all parsed_in_full (subpackets data)"
  using assms by (intro valid_packets_parse) (simp add: valid_compound_def split: if_splits)

theorem valid_compound_parses_in_full_witness:
  "let data = [0x80, 201, 0, 1, 0, 0, 0, 5, 0x81, 203, 0, 1, 0, 0, 0, 5] in
   valid_compound data \<and> list_all parsed_in_full (subpackets data)"
proof -
  have "valid_compound [0x80, 201, 0, 1, 0, 0, 0, 5, 0x81, 203, 0, 1, 0, 0, 0, 5]"
    by (simp add: valid_compound_def valid_packets.simps valid_head_def packet_size_def valid_content_def
        rtcp_types from_be16_def)
  with valid_compound_parses_in_full [OF this] show ?thesis by simp
qed

section \<open>The report the bridge sends\<close>

lemma to_be32_bytes:
  obtains a b c d where "to_be32 w = [a, b, c, d]" "from_be32 a b c d = w"
proof -
  obtain a b c d where "to_be32 w = [a, b, c, d]" by (simp add: to_be32_def to_be16_def)
  with from_to_be32 [of w] that show thesis by simp
qed

lemma to_be64_bytes:
  obtains a b c d e f g h where "to_be64 w = [a, b, c, d, e, f, g, h]" "from_be64 a b c d e f g h = w"
proof -
  obtain a b c d e f g h where "to_be64 w = [a, b, c, d, e, f, g, h]"
    by (simp add: to_be64_def to_be32_def to_be16_def)
  with from_to_be64 [of w] that show thesis by simp
qed

text \<open>The signed reading of the low 24 bits.\<close>

definition signed24 :: "u32 \<Rightarrow> 32 word" where
  "signed24 w = (if bit w 23 then (w AND 0xFFFFFF) OR 0xFF000000 else w AND 0xFFFFFF)"

lemma lost_bytes:
  fixes w :: u32
  defines "c \<equiv> w AND 0x00FFFFFF"
  shows "from_be32 (if ucast (drop_bit 16 c AND 0xFF) AND (0x80 :: u8) \<noteq> 0 then 0xff else 0)
      (ucast (drop_bit 16 c AND 0xFF)) (ucast (drop_bit 8 c AND 0xFF)) (ucast (c AND 0xFF)) = signed24 w"
proof -
  have m: "(0xFFFFFF :: u32) = mask 24" "(0xFF :: u32) = mask 8" "(0xFF :: u8) = mask 8"
    "(0xFF000000 :: u32) = push_bit 24 (mask 8)" "(0x80 :: u8) = push_bit 7 1"
    by (simp_all add: mask_eq_exp_minus_1 push_bit_eq_mult)
  have top: "ucast (drop_bit 16 c AND 0xFF) AND (0x80 :: u8) \<noteq> 0 \<longleftrightarrow> bit w 23"
  proof -
    have "ucast (drop_bit 16 c AND 0xFF) AND (0x80 :: u8) \<noteq> 0 \<longleftrightarrow> bit (ucast (drop_bit 16 c AND 0xFF) :: u8) 7"
      using and_exp_eq_0_iff_not_bit [of "ucast (drop_bit 16 c AND 0xFF) :: u8" 7] by simp
    also have "\<dots> \<longleftrightarrow> bit w 23" unfolding c_def m by (simp add: bit_simps)
    finally show ?thesis .
  qed
  have bytes: "ucast (drop_bit 8 (ucast (drop_bit 16 (signed24 w)) :: u16)) = (if bit w 23 then 0xff else 0 :: u8)"
      "ucast (ucast (drop_bit 16 (signed24 w)) :: u16) = (ucast (drop_bit 16 c AND 0xFF) :: u8)"
      "ucast (drop_bit 8 (ucast (signed24 w) :: u16)) = (ucast (drop_bit 8 c AND 0xFF) :: u8)"
      "ucast (ucast (signed24 w) :: u16) = (ucast (c AND 0xFF) :: u8)"
    unfolding signed24_def c_def m by (rule bit_word_eqI; auto simp: bit_simps)+
  have "to_be32 (signed24 w) = [if bit w 23 then 0xff else 0, ucast (drop_bit 16 c AND 0xFF),
      ucast (drop_bit 8 c AND 0xFF), ucast (c AND 0xFF)]"
    by (simp add: to_be32_def to_be16_def bytes)
  with from_to_be32 [of "signed24 w"] show ?thesis unfolding top by simp
qed

text \<open>The timing fields of the report: zero unless the last sender report came from the source
  reported on.\<close>

definition sr_timing :: "instant \<Rightarrow> u32 \<Rightarrow> rtcp_stats \<Rightarrow> u32 \<times> u32" where
  "sr_timing now remote_ssrc stats =
     (if rs_last_sr_ssrc stats = Some remote_ssrc then
        (rs_last_sr_ntp stats,
         case rs_last_sr_received stats of
           Some t \<Rightarrow> delay_since_sr (saturating_duration_since now t) | None \<Rightarrow> 0)
      else (0, 0))"

definition jitter_units :: "u32 \<Rightarrow> rtcp_stats \<Rightarrow> u32" where
  "jitter_units clock_rate stats =
     ucast (ucast (rs_jitter stats) * ucast (if 0 < clock_rate then clock_rate else 8000) div (1000000 :: u64))"

lemma fraction_lost_keeps:
  "snd (RtcpStats_fraction_lost_and_update s)
     = s\<lparr>rs_expected_prior := RtcpStats_expected_packets s, rs_received_prior := rs_packets_received s\<rparr>"
  by (simp add: RtcpStats_fraction_lost_and_update_def Let_def)

lemma fraction_lost_sr_sent:
  "fst (RtcpStats_fraction_lost_and_update (RtcpStats_record_sr_sent s ntp)) = fst (RtcpStats_fraction_lost_and_update s)"
  by (simp add: RtcpStats_fraction_lost_and_update_def RtcpStats_record_sr_sent_def RtcpStats_expected_packets_def Let_def)

lemma build_sr_rr_bytes:
  "fst (build_sr_rr unix now our_ssrc remote_ssrc s ts rate) =
     (let lost = RtcpStats_current_gen_lost s AND 0x00FFFFFF in
      [0x81, 200, 0, 12] @ to_be32 our_ssrc @ to_be64 (ntp_now unix) @ to_be32 ts
      @ to_be32 (rs_packets_sent s) @ to_be32 (rs_octets_sent s) @ to_be32 remote_ssrc
      @ [fst (RtcpStats_fraction_lost_and_update s), ucast (drop_bit 16 lost AND 0xFF),
         ucast (drop_bit 8 lost AND 0xFF), ucast (lost AND 0xFF)]
      @ to_be32 (rs_extended_max_seq s) @ to_be32 (jitter_units rate s)
      @ to_be32 (fst (sr_timing now remote_ssrc s)) @ to_be32 (snd (sr_timing now remote_ssrc s)))"
proof -
  let ?s = "RtcpStats_record_sr_sent s (ntp_now unix)"
  obtain f s' where f: "RtcpStats_fraction_lost_and_update ?s = (f, s')" by fastforce
  have f': "f = fst (RtcpStats_fraction_lost_and_update s)"
    using f fraction_lost_sr_sent [of s "ntp_now unix"] by simp
  have s': "s' = ?s\<lparr>rs_expected_prior := RtcpStats_expected_packets ?s, rs_received_prior := rs_packets_received ?s\<rparr>"
    using f fraction_lost_keeps [of ?s] by simp
  have lost: "RtcpStats_current_gen_lost s' = RtcpStats_current_gen_lost s"
    by (simp add: s' RtcpStats_current_gen_lost_def RtcpStats_expected_packets_def RtcpStats_record_sr_sent_def)
  have "to_be16 12 = [0, 12]" by (simp add: to_be16_def)
  then show ?thesis
    unfolding build_sr_rr_def f lost
    by (simp add: f lost f' RTCP_SR_def Let_def sr_timing_def jitter_units_def)
      (simp add: s' RtcpStats_record_sr_sent_def RtcpStats_highest_seq_def)
qed

text \<open>A 52-byte sender report with one block, byte by byte.\<close>

lemma report_bytes_parse:
  assumes data: "data = [0x81, 200, 0, 12, a0, a1, a2, a3, n0, n1, n2, n3, n4, n5, n6, n7, b0, b1, b2, b3,
      c0, c1, c2, c3, d0, d1, d2, d3, e0, e1, e2, e3, f, q0, q1, q2, h0, h1, h2, h3,
      j0, j1, j2, j3, l0, l1, l2, l3, m0, m1, m2, m3]"
  shows "valid_compound data" and "parse_rtcp data = [SenderReport
     \<lparr>sr_ssrc = from_be32 a0 a1 a2 a3, sr_ntp_timestamp = from_be64 n0 n1 n2 n3 n4 n5 n6 n7,
      sr_rtp_timestamp = from_be32 b0 b1 b2 b3, sr_sender_packet_count = from_be32 c0 c1 c2 c3,
      sr_sender_octet_count = from_be32 d0 d1 d2 d3,
      sr_report_blocks =
        [\<lparr>rb_ssrc = from_be32 e0 e1 e2 e3, rb_fraction_lost = f,
          rb_cumulative_lost = from_be32 (if q0 AND 0x80 \<noteq> 0 then 0xff else 0) q0 q1 q2,
          rb_highest_seq = from_be32 h0 h1 h2 h3, rb_jitter = from_be32 j0 j1 j2 j3,
          rb_last_sr = from_be32 l0 l1 l2 l3, rb_delay_since_last_sr = from_be32 m0 m1 m2 m3\<rparr>]\<rparr>]"
proof -
  have len: "length data = 52" and hd: "data ! 0 = 0x81" "data ! Suc 0 = 200" and sz: "packet_size data = 52"
    by (simp_all add: data packet_size_def from_be16_def)
  have "valid_head data = Some 52"
    by (simp add: valid_head_def len hd sz valid_content_def RTCP_SR_def)
  then show "valid_compound data"
    using len by (auto simp: valid_compound_def valid_packets.simps)
  have "packet_content (take 52 data) = data"
    by (simp add: packet_content_def content_len_def len hd)
  then have "parse_rtcp data = parse_content 200 1 data"
    using parse_head [of data] len hd sz by simp
  also have "\<dots> = [SenderReport
        \<lparr>sr_ssrc = be32_at data 4, sr_ntp_timestamp = be64_at data 8, sr_rtp_timestamp = be32_at data 16,
         sr_sender_packet_count = be32_at data 20, sr_sender_octet_count = be32_at data 24,
         sr_report_blocks = [report_block_at (drop 28 data) 0]\<rparr>]"
    by (simp add: parse_content_def RTCP_SR_def len parse_report_blocks_def)
  finally show "parse_rtcp data = [SenderReport
     \<lparr>sr_ssrc = from_be32 a0 a1 a2 a3, sr_ntp_timestamp = from_be64 n0 n1 n2 n3 n4 n5 n6 n7,
      sr_rtp_timestamp = from_be32 b0 b1 b2 b3, sr_sender_packet_count = from_be32 c0 c1 c2 c3,
      sr_sender_octet_count = from_be32 d0 d1 d2 d3,
      sr_report_blocks =
        [\<lparr>rb_ssrc = from_be32 e0 e1 e2 e3, rb_fraction_lost = f,
          rb_cumulative_lost = from_be32 (if q0 AND 0x80 \<noteq> 0 then 0xff else 0) q0 q1 q2,
          rb_highest_seq = from_be32 h0 h1 h2 h3, rb_jitter = from_be32 j0 j1 j2 j3,
          rb_last_sr = from_be32 l0 l1 l2 l3, rb_delay_since_last_sr = from_be32 m0 m1 m2 m3\<rparr>]\<rparr>]"
    by (simp add: data be32_at_def be64_at_def report_block_at_def)
qed

lemma build_sr_rr_report:
  "valid_compound (fst (build_sr_rr unix now our_ssrc remote_ssrc s ts rate))
   \<and> parse_rtcp (fst (build_sr_rr unix now our_ssrc remote_ssrc s ts rate)) =
     [SenderReport
        \<lparr>sr_ssrc = our_ssrc, sr_ntp_timestamp = ntp_now unix, sr_rtp_timestamp = ts,
         sr_sender_packet_count = rs_packets_sent s, sr_sender_octet_count = rs_octets_sent s,
         sr_report_blocks =
           [\<lparr>rb_ssrc = remote_ssrc, rb_fraction_lost = fst (RtcpStats_fraction_lost_and_update s),
             rb_cumulative_lost = signed24 (RtcpStats_current_gen_lost s),
             rb_highest_seq = RtcpStats_highest_seq s, rb_jitter = jitter_units rate s,
             rb_last_sr = fst (sr_timing now remote_ssrc s),
             rb_delay_since_last_sr = snd (sr_timing now remote_ssrc s)\<rparr>]\<rparr>]"
proof -
  let ?lost = "RtcpStats_current_gen_lost s AND 0x00FFFFFF"
  obtain a0 a1 a2 a3 where a: "to_be32 our_ssrc = [a0, a1, a2, a3]" "from_be32 a0 a1 a2 a3 = our_ssrc" by (rule to_be32_bytes)
  obtain n0 n1 n2 n3 n4 n5 n6 n7 where n: "to_be64 (ntp_now unix) = [n0, n1, n2, n3, n4, n5, n6, n7]"
    "from_be64 n0 n1 n2 n3 n4 n5 n6 n7 = ntp_now unix" by (rule to_be64_bytes)
  obtain b0 b1 b2 b3 where b: "to_be32 ts = [b0, b1, b2, b3]" "from_be32 b0 b1 b2 b3 = ts" by (rule to_be32_bytes)
  obtain c0 c1 c2 c3 where c: "to_be32 (rs_packets_sent s) = [c0, c1, c2, c3]" "from_be32 c0 c1 c2 c3 = rs_packets_sent s" by (rule to_be32_bytes)
  obtain d0 d1 d2 d3 where d: "to_be32 (rs_octets_sent s) = [d0, d1, d2, d3]" "from_be32 d0 d1 d2 d3 = rs_octets_sent s" by (rule to_be32_bytes)
  obtain e0 e1 e2 e3 where e: "to_be32 remote_ssrc = [e0, e1, e2, e3]" "from_be32 e0 e1 e2 e3 = remote_ssrc" by (rule to_be32_bytes)
  obtain h0 h1 h2 h3 where h: "to_be32 (rs_extended_max_seq s) = [h0, h1, h2, h3]" "from_be32 h0 h1 h2 h3 = rs_extended_max_seq s" by (rule to_be32_bytes)
  obtain j0 j1 j2 j3 where j: "to_be32 (jitter_units rate s) = [j0, j1, j2, j3]" "from_be32 j0 j1 j2 j3 = jitter_units rate s" by (rule to_be32_bytes)
  obtain l0 l1 l2 l3 where l: "to_be32 (fst (sr_timing now remote_ssrc s)) = [l0, l1, l2, l3]"
    "from_be32 l0 l1 l2 l3 = fst (sr_timing now remote_ssrc s)" by (rule to_be32_bytes)
  obtain m0 m1 m2 m3 where m: "to_be32 (snd (sr_timing now remote_ssrc s)) = [m0, m1, m2, m3]"
    "from_be32 m0 m1 m2 m3 = snd (sr_timing now remote_ssrc s)" by (rule to_be32_bytes)
  have data: "fst (build_sr_rr unix now our_ssrc remote_ssrc s ts rate) =
     [0x81, 200, 0, 12, a0, a1, a2, a3, n0, n1, n2, n3, n4, n5, n6, n7, b0, b1, b2, b3,
      c0, c1, c2, c3, d0, d1, d2, d3, e0, e1, e2, e3, fst (RtcpStats_fraction_lost_and_update s),
      ucast (drop_bit 16 ?lost AND 0xFF), ucast (drop_bit 8 ?lost AND 0xFF), ucast (?lost AND 0xFF),
      h0, h1, h2, h3, j0, j1, j2, j3, l0, l1, l2, l3, m0, m1, m2, m3]"
    unfolding build_sr_rr_bytes Let_def a(1) n(1) b(1) c(1) d(1) e(1) h(1) j(1) l(1) m(1) by simp
  show ?thesis
    unfolding report_bytes_parse(2) [OF data] a(2) n(2) b(2) c(2) d(2) e(2) h(2) j(2) l(2) m(2) lost_bytes
    using report_bytes_parse(1) [OF data] by (simp add: RtcpStats_highest_seq_def)
qed

lemma sint_u32: "sint x = int (unat x) - (if bit x 31 then 2 ^ 32 else 0)" for x :: u32
proof -
  have "sint x = take_bit 32 (uint x) - 2 ^ 32 * of_bool (bit (uint x) 31)"
    using signed_take_bit_eq_take_bit_minus [of 31 "uint x"] by (simp add: sint_uint)
  moreover have "take_bit 32 (uint x) = uint x" "bit (uint x) 31 = bit x 31"
    by (simp_all add: bit_unsigned_iff take_bit_int_eq_self_iff) (use uint_lt2p [of x] in simp)
  ultimately show ?thesis by simp
qed

lemma signed24_value:
  assumes "unat w < 2 ^ 24"
  shows "sint (signed24 w) = (if unat w < 2 ^ 23 then int (unat w) else int (unat w) - 2 ^ 24)"
proof -
  have m: "(0xFFFFFF :: u32) = mask 24" by (simp add: mask_eq_exp_minus_1)
  have w: "w AND 0xFFFFFF = w"
    unfolding m take_bit_eq_mask [symmetric]
    by (simp only: word_unat_eq_iff unsigned_take_bit_eq take_bit_nat_eq_self [OF assms])
  have hi: "\<not> bit w k" if "24 \<le> k" for k
    using that w m by (metis bit_take_bit_iff not_less take_bit_eq_mask)
  have "bit (unat w) 23 \<longleftrightarrow> bit w 23" by (simp add: bit_unsigned_iff)
  then have odd: "bit w 23 \<longleftrightarrow> odd (unat w div 2 ^ 23)" by (simp only: bit_iff_odd [of "unat w"])
  have "unat w div 2 ^ 23 < 2" using assms by (intro less_mult_imp_div_less) simp
  then have "unat w div 2 ^ 23 = 0 \<or> unat w div 2 ^ 23 = 1" by linarith
  then have top: "bit w 23 \<longleftrightarrow> \<not> unat w < 2 ^ 23"
    unfolding odd by (metis div_eq_0_iff dvd_0_right odd_one power_not_zero zero_neq_numeral)
  show ?thesis
  proof (cases "unat w < 2 ^ 23")
    case True
    then have s: "signed24 w = w" using top w by (simp add: signed24_def)
    have "\<not> bit w 31" using hi [of 31] by simp
    with True s show ?thesis by (simp add: sint_u32)
  next
    case False
    have "bit (0xFF000000 :: u32) k \<longleftrightarrow> 24 \<le> k \<and> k < 32" for k
    proof -
      have "(0xFF000000 :: u32) = push_bit 24 (mask 8)" by (simp add: mask_eq_exp_minus_1 push_bit_eq_mult)
      then show ?thesis by (simp only: bit_push_bit_iff bit_mask_iff) (auto simp: possible_bit_word)
    qed
    note b = this
    have "w + 0xFF000000 = w OR 0xFF000000" by (rule disjunctive_add) (use hi b in blast)
    then have "signed24 w = w + 0xFF000000" using False top w by (simp add: signed24_def)
    moreover have "unat (w + 0xFF000000) = unat w + 0xFF000000"
      using assms by (simp add: unat_word_ariths)
    moreover have "bit (signed24 w) 31"
      using False top w b [of 31] unfolding signed24_def by (simp add: bit_or_iff del: bit_numeral_iff)
    ultimately show ?thesis using False unfolding sint_u32 by simp
  qed
qed

text \<open>C19. The report the bridge builds is a valid compound datagram, and parses back to one
  sender report with one block: the sender's counters, the fraction and the number of
  packets lost from the reported source (as a signed 24-bit number), the highest sequence
  number, the jitter in timestamp units and the timing of that source's last report.\<close>

theorem build_sr_rr_parses:
  "valid_compound (fst (build_sr_rr unix now our_ssrc remote_ssrc s ts rate))
   \<and> parse_rtcp (fst (build_sr_rr unix now our_ssrc remote_ssrc s ts rate)) =
     [SenderReport
        \<lparr>sr_ssrc = our_ssrc, sr_ntp_timestamp = ntp_now unix, sr_rtp_timestamp = ts,
         sr_sender_packet_count = rs_packets_sent s, sr_sender_octet_count = rs_octets_sent s,
         sr_report_blocks =
           [\<lparr>rb_ssrc = remote_ssrc, rb_fraction_lost = fst (RtcpStats_fraction_lost_and_update s),
             rb_cumulative_lost = signed24 (RtcpStats_current_gen_lost s),
             rb_highest_seq = RtcpStats_highest_seq s, rb_jitter = jitter_units rate s,
             rb_last_sr = fst (sr_timing now remote_ssrc s),
             rb_delay_since_last_sr = snd (sr_timing now remote_ssrc s)\<rparr>]\<rparr>]"
  by (rule build_sr_rr_report)



end
