(* ===== verification/Text.thy ===== *)
theory Text
  imports Rtpbridge_Prelude "HOL-Library.Char_ord"
begin

unbundle bit_operations_syntax

text \<open>
  What the SDP code uses of Rust's \<open>str\<close>, of number parsing and printing, and of
  \<open>std::net\<close>.  Text is a list of characters with code points below 256.  Parsing an
  address follows the standard library's recursive descent parser, printing one its
  \<open>Display\<close>: both are read back by the lemmas of this theory.
\<close>

section \<open>Definitions\<close>

subsection \<open>Characters and splitting\<close>

abbreviation code_point :: "char \<Rightarrow> nat" where
  "code_point c \<equiv> of_char c"

definition is_whitespace :: "char \<Rightarrow> bool" where
  "is_whitespace c \<longleftrightarrow> (let n = code_point c in 9 \<le> n \<and> n \<le> 13 \<or> n = 32 \<or> n = 133 \<or> n = 160)"

definition trim :: "string \<Rightarrow> string" where
  "trim s = rev (dropWhile is_whitespace (rev (dropWhile is_whitespace s)))"

fun split_by :: "(char \<Rightarrow> bool) \<Rightarrow> string \<Rightarrow> string list" where
  "split_by P [] = [[]]"
| "split_by P (c # cs) =
     (let ws = split_by P cs in if P c then [] # ws else (c # hd ws) # tl ws)"

definition split_char :: "char \<Rightarrow> string \<Rightarrow> string list" where
  "split_char d s = split_by (\<lambda>c. c = d) s"

definition split_whitespace :: "string \<Rightarrow> string list" where
  "split_whitespace s = filter (\<lambda>w. w \<noteq> []) (split_by is_whitespace s)"

definition split_once :: "char \<Rightarrow> string \<Rightarrow> (string \<times> string) option" where
  "split_once d s =
     (if d \<in> set s then Some (takeWhile (\<lambda>c. c \<noteq> d) s, tl (dropWhile (\<lambda>c. c \<noteq> d) s)) else None)"

definition starts_with :: "string \<Rightarrow> string \<Rightarrow> bool" where
  "starts_with p s \<longleftrightarrow> take (length p) s = p"

definition strip_prefix :: "string \<Rightarrow> string \<Rightarrow> string option" where
  "strip_prefix p s = (if starts_with p s then Some (drop (length p) s) else None)"

definition strip_cr :: "string \<Rightarrow> string" where
  "strip_cr s = (if s \<noteq> [] \<and> last s = CHR 0x0D then butlast s else s)"

definition text_lines :: "string \<Rightarrow> string list" where
  "text_lines s =
     (let ws = split_char (CHR 0x0A) s
      in map strip_cr (butlast ws) @ (if last ws = [] then [] else [last ws]))"

definition char_lower :: "char \<Rightarrow> char" where
  "char_lower c = (if CHR ''A'' \<le> c \<and> c \<le> CHR ''Z'' then char_of (of_char c + 32 :: nat) else c)"

definition char_upper :: "char \<Rightarrow> char" where
  "char_upper c = (if CHR ''a'' \<le> c \<and> c \<le> CHR ''z'' then char_of (of_char c - 32 :: nat) else c)"

definition to_ascii_lowercase :: "string \<Rightarrow> string" where
  "to_ascii_lowercase s = map char_lower s"

definition to_ascii_uppercase :: "string \<Rightarrow> string" where
  "to_ascii_uppercase s = map char_upper s"

definition eq_ignore_ascii_case :: "string \<Rightarrow> string \<Rightarrow> bool" where
  "eq_ignore_ascii_case s t \<longleftrightarrow> to_ascii_lowercase s = to_ascii_lowercase t"

fun join :: "string \<Rightarrow> string list \<Rightarrow> string" where
  "join sep [] = []"
| "join sep [w] = w"
| "join sep (w # ws) = w @ sep @ join sep ws"

subsection \<open>Numbers\<close>

definition to_digit :: "nat \<Rightarrow> char \<Rightarrow> nat option" where
  "to_digit radix c =
     (let n = code_point c;
          d = (if 48 \<le> n \<and> n \<le> 57 then n - 48
               else if 97 \<le> n \<and> n \<le> 122 then n - 87
               else if 65 \<le> n \<and> n \<le> 90 then n - 55 else 99)
      in if d < radix then Some d else None)"

definition from_digits :: "nat \<Rightarrow> string \<Rightarrow> nat" where
  "from_digits radix s = foldl (\<lambda>n c. n * radix + the (to_digit radix c)) 0 s"

definition is_digit :: "nat \<Rightarrow> char \<Rightarrow> bool" where
  "is_digit radix c \<longleftrightarrow> to_digit radix c \<noteq> None"

text \<open>\<open>str::parse\<close> at an unsigned type of the given width.\<close>

definition parse_uint :: "nat \<Rightarrow> string \<Rightarrow> nat option" where
  "parse_uint bits s =
     (let ds = (if starts_with ''+'' s then tl s else s) in
      if ds \<noteq> [] \<and> list_all (is_digit 10) ds \<and> from_digits 10 ds < 2 ^ bits
      then Some (from_digits 10 ds) else None)"

definition parse_u8 :: "string \<Rightarrow> u8 option" where
  "parse_u8 s = map_option of_nat (parse_uint 8 s)"

definition parse_u16 :: "string \<Rightarrow> u16 option" where
  "parse_u16 s = map_option of_nat (parse_uint 16 s)"

definition parse_u32 :: "string \<Rightarrow> u32 option" where
  "parse_u32 s = map_option of_nat (parse_uint 32 s)"

definition digit_char :: "nat \<Rightarrow> char" where
  "digit_char d = char_of (if d < 10 then 48 + d else 87 + d)"

fun show_radix :: "nat \<Rightarrow> nat \<Rightarrow> string" where
  "show_radix radix n =
     (if n < radix \<or> radix < 2 then [digit_char n]
      else show_radix radix (n div radix) @ [digit_char (n mod radix)])"

declare show_radix.simps [simp del]

definition show_nat :: "nat \<Rightarrow> string" where
  "show_nat n = show_radix 10 n"

subsection \<open>Addresses\<close>

datatype ip_addr = V4 u8 u8 u8 u8 | V6 "128 word"

record socket_addr =
  sa_ip :: ip_addr
  sa_port :: u16

fun is_ipv6 :: "ip_addr \<Rightarrow> bool" where
  "is_ipv6 (V4 _ _ _ _) = False"
| "is_ipv6 (V6 _) = True"

definition segments :: "128 word \<Rightarrow> u16 list" where
  "segments w = map (\<lambda>i. ucast (drop_bit (16 * (7 - i)) w)) [0..<8]"

definition from_segments :: "u16 list \<Rightarrow> 128 word" where
  "from_segments gs = foldl (\<lambda>w g. push_bit 16 w OR ucast g) 0 gs"

definition to_ipv4_mapped :: "128 word \<Rightarrow> ip_addr option" where
  "to_ipv4_mapped w =
     (if drop_bit 32 w = 0xFFFF
      then Some (V4 (ucast (drop_bit 24 w)) (ucast (drop_bit 16 w)) (ucast (drop_bit 8 w)) (ucast w))
      else None)"

fun to_canonical :: "ip_addr \<Rightarrow> ip_addr" where
  "to_canonical (V4 a b c d) = V4 a b c d"
| "to_canonical (V6 w) = (case to_ipv4_mapped w of Some ip \<Rightarrow> ip | None \<Rightarrow> V6 w)"

text \<open>The standard library's parser: each reader returns its value and the remaining input.\<close>

definition read_char :: "char \<Rightarrow> string \<Rightarrow> string option" where
  "read_char c s = (case s of [] \<Rightarrow> None | d # rest \<Rightarrow> if d = c then Some rest else None)"

definition read_number :: "nat \<Rightarrow> nat \<Rightarrow> bool \<Rightarrow> nat \<Rightarrow> string \<Rightarrow> (nat \<times> string) option" where
  "read_number radix max_digits allow_zero_prefix limit s =
     (let ds = takeWhile (is_digit radix) s;
          n = from_digits radix ds
      in if length ds > max_digits \<or> length ds = 0
            \<or> (\<not> allow_zero_prefix \<and> starts_with ''0'' ds \<and> length ds > 1) \<or> limit \<le> n
         then None else Some (n, dropWhile (is_digit radix) s))"

definition read_separator :: "char \<Rightarrow> nat \<Rightarrow> (string \<Rightarrow> ('a \<times> string) option) \<Rightarrow> string \<Rightarrow> ('a \<times> string) option" where
  "read_separator sep index inner s =
     (if index = 0 then inner s
      else case read_char sep s of None \<Rightarrow> None | Some rest \<Rightarrow> inner rest)"

definition read_octet :: "nat \<Rightarrow> string \<Rightarrow> (u8 \<times> string) option" where
  "read_octet index s =
     map_option (\<lambda>(n, rest). (of_nat n, rest))
       (read_separator (CHR ''.'') index (read_number 10 3 False 256) s)"

definition read_ipv4_addr :: "string \<Rightarrow> (u8 list \<times> string) option" where
  "read_ipv4_addr s =
     (case read_octet 0 s of None \<Rightarrow> None | Some (a, s) \<Rightarrow>
      case read_octet 1 s of None \<Rightarrow> None | Some (b, s) \<Rightarrow>
      case read_octet 2 s of None \<Rightarrow> None | Some (c, s) \<Rightarrow>
      case read_octet 3 s of None \<Rightarrow> None | Some (d, s) \<Rightarrow> Some ([a, b, c, d], s))"

text \<open>\<open>read_groups\<close> from position \<open>i\<close> of at most \<open>i + n\<close> groups.\<close>

fun read_groups :: "nat \<Rightarrow> nat \<Rightarrow> string \<Rightarrow> u16 list \<times> bool \<times> string" where
  "read_groups 0 i s = ([], False, s)"
| "read_groups (Suc n) i s =
     (case (if n = 0 then None else read_separator (CHR '':'') i read_ipv4_addr s) of
        Some (q, rest) \<Rightarrow> ([from_be16 (q ! 0) (q ! 1), from_be16 (q ! 2) (q ! 3)], True, rest)
      | None \<Rightarrow>
          (case read_separator (CHR '':'') i (read_number 16 4 True 65536) s of
             None \<Rightarrow> ([], False, s)
           | Some (g, rest) \<Rightarrow>
               (case read_groups n (Suc i) rest of
                  (gs, ipv4, rest) \<Rightarrow> (of_nat g # gs, ipv4, rest))))"

definition read_ipv6_addr :: "string \<Rightarrow> (128 word \<times> string) option" where
  "read_ipv6_addr s =
     (case read_groups 8 0 s of (head, head_ipv4, s) \<Rightarrow>
      if length head = 8 then Some (from_segments head, s)
      else if head_ipv4 then None
      else case read_char (CHR '':'') s of None \<Rightarrow> None | Some s \<Rightarrow>
        (case read_char (CHR '':'') s of None \<Rightarrow> None | Some s \<Rightarrow>
          (case read_groups (8 - (length head + 1)) 0 s of (tail, _, s) \<Rightarrow>
             Some (from_segments (head @ replicate (8 - length head - length tail) 0 @ tail), s))))"

definition read_ip_addr :: "string \<Rightarrow> (ip_addr \<times> string) option" where
  "read_ip_addr s =
     (case read_ipv4_addr s of
        Some (q, rest) \<Rightarrow> Some (V4 (q ! 0) (q ! 1) (q ! 2) (q ! 3), rest)
      | None \<Rightarrow> map_option (\<lambda>(w, rest). (V6 w, rest)) (read_ipv6_addr s))"

definition parse_ip :: "string \<Rightarrow> ip_addr option" where
  "parse_ip s = (case read_ip_addr s of Some (ip, []) \<Rightarrow> Some ip | _ \<Rightarrow> None)"

subsection \<open>Printing addresses\<close>

definition show_ipv4 :: "u8 \<Rightarrow> u8 \<Rightarrow> u8 \<Rightarrow> u8 \<Rightarrow> string" where
  "show_ipv4 a b c d = join ''.'' (map (\<lambda>x. show_nat (unat x)) [a, b, c, d])"

text \<open>The first longest run of zero groups, as its start and its length.\<close>

fun longest_zeros :: "u16 list \<Rightarrow> nat \<Rightarrow> nat \<times> nat \<Rightarrow> nat \<times> nat \<Rightarrow> nat \<times> nat" where
  "longest_zeros [] i current longest = longest"
| "longest_zeros (g # gs) i (start, len) longest =
     (if g = 0 then
        let current = (if len = 0 then i else start, Suc len)
        in longest_zeros gs (Suc i) current (if snd longest < snd current then current else longest)
      else longest_zeros gs (Suc i) (0, 0) longest)"

definition show_groups :: "u16 list \<Rightarrow> string" where
  "show_groups gs = join '':'' (map (\<lambda>g. show_radix 16 (unat g)) gs)"

definition show_ipv6 :: "128 word \<Rightarrow> string" where
  "show_ipv6 w =
     (case to_ipv4_mapped w of
        Some (V4 a b c d) \<Rightarrow> ''::ffff:'' @ show_ipv4 a b c d
      | _ \<Rightarrow>
          let gs = segments w;
              (start, len) = longest_zeros gs 0 (0, 0) (0, 0)
          in if 1 < len then show_groups (take start gs) @ ''::'' @ show_groups (drop (start + len) gs)
             else show_groups gs)"

fun show_ip :: "ip_addr \<Rightarrow> string" where
  "show_ip (V4 a b c d) = show_ipv4 a b c d"
| "show_ip (V6 w) = show_ipv6 w"

section \<open>Lemmas\<close>

subsection \<open>Digits and numbers\<close>

lemma of_char_digit_char [simp]: "d < 36 \<Longrightarrow> of_char (digit_char d) = (if d < 10 then 48 + d else 87 + d)"
  by (simp add: digit_char_def)

lemma to_digit_digit_char [simp]: "d < radix \<Longrightarrow> radix \<le> 36 \<Longrightarrow> to_digit radix (digit_char d) = Some d"
  by (simp add: to_digit_def)

lemma is_digit_digit_char [simp]: "d < radix \<Longrightarrow> radix \<le> 36 \<Longrightarrow> is_digit radix (digit_char d)"
  by (simp add: is_digit_def)

lemma digit_char_eq_iff: "d < 36 \<Longrightarrow> digit_char d = c \<longleftrightarrow> (if d < 10 then 48 + d else 87 + d) = of_char c"
  by (metis of_char_digit_char of_char_eq_iff)

lemma from_digits_snoc [simp]:
  "from_digits radix (s @ [c]) = from_digits radix s * radix + the (to_digit radix c)"
  by (simp add: from_digits_def)

lemma show_radix_digits: "1 < radix \<Longrightarrow> radix \<le> 36 \<Longrightarrow> list_all (is_digit radix) (show_radix radix n)"
  by (induction radix n rule: show_radix.induct) (simp add: show_radix.simps)

lemma from_digits_show: "1 < radix \<Longrightarrow> radix \<le> 36 \<Longrightarrow> from_digits radix (show_radix radix n) = n"
proof (induction radix n rule: show_radix.induct)
  case (1 radix n)
  then show ?case
    by (cases "n < radix") (simp_all add: show_radix.simps [of radix n] from_digits_def [of _ "[_]"])
qed

lemma show_radix_not_Nil [simp]: "show_radix radix n \<noteq> []"
  by (simp add: show_radix.simps)

lemma length_show_radix: "1 < radix \<Longrightarrow> n < radix ^ k \<Longrightarrow> 0 < k \<Longrightarrow> length (show_radix radix n) \<le> k"
proof (induction k arbitrary: n)
  case (Suc k)
  then show ?case
    by (cases "n < radix")
      (auto simp: show_radix.simps [of radix n] less_mult_imp_div_less mult.commute power_0 split: nat.splits
        intro!: Suc.IH Nat.gr0I)
qed simp

text \<open>No leading zero is printed.\<close>

lemma hd_show_radix: "1 < radix \<Longrightarrow> radix \<le> 36 \<Longrightarrow> hd (show_radix radix n) = CHR ''0'' \<longleftrightarrow> n = 0"
proof (induction radix n rule: show_radix.induct)
  case (1 radix n)
  show ?case
  proof (cases "n < radix")
    case True
    with 1 show ?thesis by (simp add: show_radix.simps [of radix n] digit_char_eq_iff)
  next
    case False
    with 1 have "hd (show_radix radix (n div radix)) = CHR ''0'' \<longleftrightarrow> n div radix = 0" by simp
    with False 1 show ?thesis
      by (simp add: show_radix.simps [of radix n] div_eq_0_iff)
  qed
qed

lemma is_digit_ranges:
  "is_digit 10 c \<longleftrightarrow> 48 \<le> code_point c \<and> code_point c \<le> 57"
  "is_digit 16 c \<longleftrightarrow> (48 \<le> code_point c \<and> code_point c \<le> 57)
     \<or> (97 \<le> code_point c \<and> code_point c \<le> 102) \<or> (65 \<le> code_point c \<and> code_point c \<le> 70)"
  by (auto simp: is_digit_def to_digit_def Let_def)

lemma show_nat_digits: "c \<in> set (show_nat n) \<Longrightarrow> 48 \<le> code_point c \<and> code_point c \<le> 57"
  using show_radix_digits [of 10 n] by (simp add: show_nat_def list_all_iff is_digit_ranges)

lemma show_nat_not_Nil [simp]: "show_nat n \<noteq> []"
  by (simp add: show_nat_def)

lemma parse_show_nat: "n < 2 ^ bits \<Longrightarrow> parse_uint bits (show_nat n) = Some n"
proof -
  have "\<not> starts_with ''+'' (show_nat n)"
    using show_nat_digits [of "hd (show_nat n)" n]
    by (cases "show_nat n") (auto simp: starts_with_def)
  then show "n < 2 ^ bits \<Longrightarrow> ?thesis"
    by (simp add: parse_uint_def show_nat_def show_radix_digits from_digits_show)
qed

lemma unat_bounds: "unat (x :: u8) < 2 ^ 8" "unat (y :: u16) < 2 ^ 16" "unat (z :: u32) < 2 ^ 32"
  by (rule order.strict_trans2 [OF unsigned_less]; simp)+

lemma parse_show_word [simp]:
  "parse_u8 (show_nat (unat x)) = Some x"
  "parse_u16 (show_nat (unat y)) = Some y"
  "parse_u32 (show_nat (unat z)) = Some z"
  using unat_bounds(1) [of x] unat_bounds(2) [of y] unat_bounds(3) [of z]
  by (simp_all add: parse_u8_def parse_u16_def parse_u32_def parse_show_nat)

subsection \<open>Printed addresses are read back\<close>

lemma takeWhile_show:
  assumes "1 < radix" "radix \<le> 36" "s = [] \<or> \<not> is_digit radix (hd s)"
  shows "takeWhile (is_digit radix) (show_radix radix n @ s) = show_radix radix n"
    "dropWhile (is_digit radix) (show_radix radix n @ s) = s"
proof -
  have "takeWhile (is_digit radix) s = []" "dropWhile (is_digit radix) s = s"
    using assms(3) by (cases s; auto)+
  with show_radix_digits [OF assms(1,2), of n]
  show "takeWhile (is_digit radix) (show_radix radix n @ s) = show_radix radix n"
    "dropWhile (is_digit radix) (show_radix radix n @ s) = s"
    by (simp_all add: takeWhile_append2 dropWhile_append2 list_all_iff)
qed

lemma read_number_show:
  assumes "1 < radix" "radix \<le> 36" "s = [] \<or> \<not> is_digit radix (hd s)"
    and "n < radix ^ k" "0 < k" "n < limit"
  shows "read_number radix k allow limit (show_radix radix n @ s) = Some (n, s)"
proof -
  have "length (show_radix radix n) \<le> k" by (rule length_show_radix [OF assms(1,4,5)])
  moreover have "\<not> (starts_with ''0'' (show_radix radix n) \<and> 1 < length (show_radix radix n))"
  proof
    assume a: "starts_with ''0'' (show_radix radix n) \<and> 1 < length (show_radix radix n)"
    then have "hd (show_radix radix n) = CHR ''0''"
      by (cases "show_radix radix n") (simp_all add: starts_with_def)
    then have "n = 0" using hd_show_radix [OF assms(1,2), of n] by simp
    with a assms(1) show False by (simp add: show_radix.simps)
  qed
  ultimately show ?thesis
    using assms(6) by (auto simp: read_number_def Let_def takeWhile_show [OF assms(1-3)]
        from_digits_show [OF assms(1,2)])
qed

lemma read_octet_show:
  assumes "s = [] \<or> \<not> is_digit 10 (hd s)"
  shows "read_octet 0 (show_nat (unat x) @ s) = Some (x, s)"
    "i \<noteq> 0 \<Longrightarrow> read_octet i (CHR ''.'' # show_nat (unat x) @ s) = Some (x, s)"
proof -
  have "read_number 10 3 False 256 (show_nat (unat x) @ s) = Some (unat x, s)"
    using unat_bounds(1) [of x] unfolding show_nat_def by (intro read_number_show assms) simp_all
  then show "read_octet 0 (show_nat (unat x) @ s) = Some (x, s)"
    "i \<noteq> 0 \<Longrightarrow> read_octet i (CHR ''.'' # show_nat (unat x) @ s) = Some (x, s)"
    by (simp_all add: read_octet_def read_separator_def read_char_def)
qed

lemma not_digit_dot: "\<not> is_digit 10 (CHR ''.'')" "\<not> is_digit 16 (CHR ''.'')" "\<not> is_digit 16 (CHR '':'')"
  "\<not> is_digit 10 (CHR '':'')"
  by (simp_all add: is_digit_ranges)

lemma read_show_ipv4:
  "s = [] \<or> \<not> is_digit 10 (hd s) \<Longrightarrow> read_ipv4_addr (show_ipv4 a b c d @ s) = Some ([a, b, c, d], s)"
  by (simp add: read_ipv4_addr_def show_ipv4_def read_octet_show not_digit_dot)

lemma parse_show_ipv4: "parse_ip (show_ipv4 a b c d) = Some (V4 a b c d)"
  using read_show_ipv4 [of "[]"] by (simp add: parse_ip_def read_ip_addr_def)

lemma no_dot_no_ipv4: "CHR ''.'' \<notin> set s \<Longrightarrow> read_ipv4_addr s = None"
proof -
  assume "CHR ''.'' \<notin> set s"
  then have "read_char (CHR ''.'') (dropWhile (is_digit 10) s) = None"
    by (auto simp: read_char_def dest: set_dropWhileD split: list.splits)
      (metis list.set_intros(1) set_dropWhileD)
  then show ?thesis
    by (auto simp: read_ipv4_addr_def read_octet_def read_separator_def read_number_def Let_def
        split: option.splits if_splits)
qed

lemma not_number:
  "s = [] \<or> \<not> is_digit radix (hd s) \<Longrightarrow> read_number radix k allow limit s = None"
  by (cases s) (auto simp: read_number_def)

definition groups_text :: "u16 list \<Rightarrow> string" where
  "groups_text gs = concat (map (\<lambda>g. CHR '':'' # show_radix 16 (unat g)) gs)"

lemma groups_text_Nil [simp]: "groups_text [] = []"
  by (simp add: groups_text_def)

lemma show_groups_Cons: "show_groups (g # gs) = show_radix 16 (unat g) @ groups_text gs"
proof (induction gs arbitrary: g)
  case (Cons h gs)
  then show ?case by (simp add: show_groups_def groups_text_def)
qed (simp add: show_groups_def groups_text_def)

lemma no_dot_hex: "CHR ''.'' \<notin> set (show_radix 16 n)"
  using show_radix_digits [of 16 n] by (auto simp: list_all_iff not_digit_dot)

lemma no_dot_groups: "CHR ''.'' \<notin> set (groups_text gs)" "CHR ''.'' \<notin> set (show_groups gs)"
proof -
  show "CHR ''.'' \<notin> set (groups_text gs)" for gs
    by (auto simp: groups_text_def no_dot_hex)
  then show "CHR ''.'' \<notin> set (show_groups gs)"
    by (cases gs) (simp_all add: show_groups_Cons no_dot_hex, simp add: show_groups_def)
qed

lemma read_group_show:
  "s = [] \<or> \<not> is_digit 16 (hd s) \<Longrightarrow>
   read_number 16 4 True 65536 (show_radix 16 (unat (g :: u16)) @ s) = Some (unat g, s)"
  using unat_bounds(2) [of g] by (intro read_number_show) simp_all

definition group_end :: "string \<Rightarrow> bool" where
  "group_end s \<longleftrightarrow> CHR ''.'' \<notin> set s \<and> (s = [] \<or> (\<exists>t. s = ''::'' @ t))"

lemma group_end_next: "group_end s \<Longrightarrow> groups_text gs @ s = [] \<or> \<not> is_digit 16 (hd (groups_text gs @ s))"
  by (cases gs) (auto simp: groups_text_def group_end_def not_digit_dot)

lemma read_groups_text:
  "group_end s \<Longrightarrow> length gs \<le> n \<Longrightarrow> 0 < i \<Longrightarrow> read_groups n i (groups_text gs @ s) = (gs, False, s)"
proof (induction gs arbitrary: n i)
  case Nil
  then show ?case
    by (cases n) (auto simp: groups_text_def group_end_def read_separator_def read_char_def
        no_dot_no_ipv4 not_number not_digit_dot split: option.splits)
next
  case (Cons g gs)
  then obtain m where n: "n = Suc m" by (cases n) auto
  have eq: "groups_text (g # gs) @ s = CHR '':'' # show_radix 16 (unat g) @ groups_text gs @ s"
    by (simp add: groups_text_def)
  have "CHR ''.'' \<notin> set (show_radix 16 (unat g) @ groups_text gs @ s)"
    using Cons.prems(1) by (simp add: no_dot_hex no_dot_groups group_end_def)
  with Cons n show ?case
    by (simp add: eq read_separator_def read_char_def no_dot_no_ipv4
        read_group_show [OF group_end_next])
      auto
qed

lemma read_groups_show:
  assumes "group_end s" "length gs \<le> n"
  shows "read_groups n 0 (show_groups gs @ s) = (gs, False, s)"
proof (cases gs)
  case Nil
  with assms show ?thesis
    by (cases n) (auto simp: show_groups_def group_end_def read_separator_def
        no_dot_no_ipv4 not_number not_digit_dot split: option.splits)
next
  case (Cons g hs)
  then obtain m where n: "n = Suc m" using assms(2) by (cases n) auto
  have "CHR ''.'' \<notin> set (show_radix 16 (unat g) @ groups_text hs @ s)"
    using assms(1) by (simp add: no_dot_hex no_dot_groups group_end_def)
  with Cons n assms show ?thesis
    by (simp add: show_groups_Cons read_separator_def no_dot_no_ipv4 read_groups_text
        read_group_show [OF group_end_next])
      auto
qed

lemma bit_from_be16 [simp]:
  "bit (from_be16 a b) n \<longleftrightarrow> n < 16 \<and> (if n < 8 then bit b n else bit a (n - 8))"
  by (auto simp: from_be16_def bit_simps dest: bit_imp_le_length)

lemma from_segments_snoc: "from_segments (gs @ [g]) = push_bit 16 (from_segments gs) OR ucast g"
  by (simp add: from_segments_def)

lemma bit_from_segments:
  "n < 128 \<Longrightarrow> bit (from_segments gs) n \<longleftrightarrow>
     n < 16 * length gs \<and> bit (rev gs ! (n div 16)) (n mod 16)"
proof (induction gs arbitrary: n rule: rev_induct)
  case (snoc g gs)
  show ?case
  proof (cases "n < 16")
    case True
    then show ?thesis by (simp add: from_segments_snoc bit_simps)
  next
    case False
    then have "n div 16 = Suc ((n - 16) div 16)" "n mod 16 = (n - 16) mod 16"
      by (simp_all add: le_div_geq le_mod_geq)
    with False snoc show ?thesis
      by (auto simp: from_segments_snoc bit_simps dest: bit_imp_le_length)
  qed
qed (simp add: from_segments_def)

lemma from_segments_segments: "from_segments (segments w) = w"
proof (rule bit_word_eqI)
  fix n assume "n < LENGTH(128)"
  then have n: "n < 128" "n div 16 < 8" by simp_all
  have "16 * (7 - (7 - n div 16)) + n mod 16 = n" using n by simp
  with n show "bit (from_segments (segments w)) n = bit w n"
    by (simp add: bit_from_segments segments_def rev_nth bit_simps)
qed

lemma length_segments [simp]: "length (segments w) = 8"
  by (simp add: segments_def)

definition zero_run :: "u16 list \<Rightarrow> nat \<times> nat \<Rightarrow> bool" where
  "zero_run gs z \<longleftrightarrow> fst z + snd z \<le> length gs \<and> (\<forall>k < snd z. gs ! (fst z + k) = 0)"

lemma longest_zeros_run:
  "zero_run (pre @ gs) longest \<Longrightarrow> zero_run (pre @ gs) current \<Longrightarrow>
   snd current = 0 \<or> fst current + snd current = length pre \<Longrightarrow>
   zero_run (pre @ gs) (longest_zeros gs (length pre) current longest)"
proof (induction gs arbitrary: pre current longest)
  case (Cons g gs)
  obtain start len where cur: "current = (start, len)" by fastforce
  have run: "zero_run (pre @ 0 # gs) (if len = 0 then length pre else start, Suc len)"
    if "g = 0"
    using Cons.prems(2,3) that by (auto simp: cur zero_run_def nth_append less_Suc_eq)
  show ?case
  proof (cases "g = 0")
    case True
    with Cons.prems run Cons.IH [of "pre @ [0]" _ "(if len = 0 then length pre else start, Suc len)"]
    show ?thesis by (cases "len = 0") (simp_all add: cur Let_def)
  next
    case False
    with Cons.prems Cons.IH [of "pre @ [g]" longest "(0, 0)"] show ?thesis
      by (simp add: cur zero_run_def [of _ "(0, 0)"])
  qed
qed simp

lemma zero_run_split:
  assumes "zero_run gs (start, len)"
  shows "take start gs @ replicate len 0 @ drop (start + len) gs = gs"
proof (rule nth_equalityI)
  show "length (take start gs @ replicate len 0 @ drop (start + len) gs) = length gs"
    using assms by (simp add: zero_run_def)
  show "(take start gs @ replicate len 0 @ drop (start + len) gs) ! i = gs ! i"
    if "i < length (take start gs @ replicate len 0 @ drop (start + len) gs)" for i
    using assms that unfolding zero_run_def
    by (auto simp: nth_append)
qed

lemma read_show_plain:
  assumes "to_ipv4_mapped w = None"
  shows "read_ipv6_addr (show_ipv6 w) = Some (w, [])" "CHR ''.'' \<notin> set (show_ipv6 w)"
proof -
  obtain start len where z: "longest_zeros (segments w) 0 (0, 0) (0, 0) = (start, len)" by fastforce
  have run: "zero_run (segments w) (start, len)"
    using longest_zeros_run [of "[]" "segments w" "(0, 0)" "(0, 0)"] z by (simp add: zero_run_def)
  show "CHR ''.'' \<notin> set (show_ipv6 w)"
    by (simp add: show_ipv6_def assms z no_dot_groups Let_def)
  show "read_ipv6_addr (show_ipv6 w) = Some (w, [])"
  proof (cases "1 < len")
    case True
    let ?head = "take start (segments w)" and ?tail = "drop (start + len) (segments w)"
    have len: "length ?head = start" "length ?tail \<le> 8 - (start + 1)" "start < 8"
      "8 - start - length ?tail = len"
      using run True by (simp_all add: zero_run_def)
    have e: "group_end (''::'' @ show_groups ?tail)" "group_end []"
      by (simp_all add: group_end_def no_dot_groups)
    have "show_ipv6 w = show_groups ?head @ ''::'' @ show_groups ?tail"
      using True by (simp add: show_ipv6_def assms z Let_def)
    with len zero_run_split [OF run] show ?thesis
      using read_groups_show [OF e(1), of ?head 8] read_groups_show [OF e(2), of ?tail "8 - (start + 1)"]
      by (simp add: read_ipv6_addr_def read_char_def from_segments_segments)
  next
    case False
    with read_groups_show [of "[]" "segments w" 8] show ?thesis
      by (simp add: read_ipv6_addr_def show_ipv6_def assms z group_end_def from_segments_segments)
  qed
qed

lemma mapped_segments:
  assumes "drop_bit 32 w = (0xFFFF :: 128 word)"
  shows "from_segments [0, 0, 0, 0, 0, 0xFFFF, from_be16 (ucast (drop_bit 24 w)) (ucast (drop_bit 16 w)),
      from_be16 (ucast (drop_bit 8 w)) (ucast w)] = w"
proof (rule bit_word_eqI)
  fix n assume n: "n < LENGTH(128)"
  have ff: "0xFFFF = (mask 16 :: 128 word)" "0xFFFF = (mask 16 :: u16)"
    by (simp_all add: mask_eq_exp_minus_1)
  have "bit (drop_bit 32 w) (n - 32) \<longleftrightarrow> bit w n" if "32 \<le> n"
    using that by (simp add: bit_drop_bit_eq)
  then have hi: "bit w n \<longleftrightarrow> n < 48" if "32 \<le> n"
    using that n unfolding assms ff by (auto simp: bit_mask_iff)
  show "bit (from_segments [0, 0, 0, 0, 0, 0xFFFF,
      from_be16 (ucast (drop_bit 24 w)) (ucast (drop_bit 16 w)),
      from_be16 (ucast (drop_bit 8 w)) (ucast w)]) n = bit w n"
  proof (cases "32 \<le> n")
    case True
    then show ?thesis using n hi by (auto simp: ff from_segments_def bit_simps)
  next
    case False
    then show ?thesis by (cases "n < 16") (auto simp: ff from_segments_def bit_simps)
  qed
qed

lemma read_groups_pos:
  "n \<noteq> 0 \<Longrightarrow> read_groups n i s =
     (case (if n = 1 then None else read_separator (CHR '':'') i read_ipv4_addr s) of
        Some (q, rest) \<Rightarrow> ([from_be16 (q ! 0) (q ! 1), from_be16 (q ! 2) (q ! 3)], True, rest)
      | None \<Rightarrow>
          (case read_separator (CHR '':'') i (read_number 16 4 True 65536) s of
             None \<Rightarrow> ([], False, s)
           | Some (g, rest) \<Rightarrow>
               (case read_groups (n - 1) (Suc i) rest of
                  (gs, ipv4, rest) \<Rightarrow> (of_nat g # gs, ipv4, rest))))"
  by (cases n) (simp_all split: option.split prod.split)

lemma read_show_mapped:
  assumes "to_ipv4_mapped w = Some (V4 a b c d)"
  shows "read_ip_addr (show_ipv6 w) = Some (V6 w, [])"
proof -
  have w: "from_segments [0, 0, 0, 0, 0, 0xFFFF, from_be16 a b, from_be16 c d] = w"
    using assms mapped_segments [of w] by (auto simp: to_ipv4_mapped_def split: if_splits)
  let ?v4 = "show_ipv4 a b c d"
  have v4: "read_ipv4_addr ?v4 = Some ([a, b, c, d], [])" using read_show_ipv4 [of "[]"] by simp
  have none: "read_ipv4_addr (''::'' @ s) = None" "read_ipv4_addr (''ffff:'' @ s) = None" for s
    by (simp_all add: read_ipv4_addr_def read_octet_def read_separator_def not_number is_digit_ranges)
  have num: "read_number 16 4 True 65536 (''ffff:'' @ s) = Some (65535, CHR '':'' # s)"
    "read_number 16 4 True 65536 (''::'' @ s) = None" for s
    by (simp_all add: read_number_def Let_def is_digit_ranges from_digits_def to_digit_def)
  have "read_groups 7 0 (''ffff:'' @ ?v4) = ([0xFFFF, from_be16 a b, from_be16 c d], True, [])"
    using none(2) [of ?v4] num(1) [of ?v4] v4
    by (simp add: read_groups_pos read_separator_def read_char_def)
  moreover have "read_groups 8 0 (''::'' @ s) = ([], False, ''::'' @ s)" for s
    using none(1) [of s] num(2) [of s] by (simp add: read_groups_pos read_separator_def)
  ultimately show ?thesis
    using w none(1) [of "''ffff:'' @ ?v4"]
    by (simp add: read_ip_addr_def show_ipv6_def assms read_ipv6_addr_def read_char_def
        replicate_Suc numeral_eq_Suc del: read_groups.simps)
qed

lemma parse_show_ip [simp]: "parse_ip (show_ip ip) = Some ip"
proof (cases ip)
  case (V6 w)
  show ?thesis
  proof (cases "to_ipv4_mapped w")
    case None
    with read_show_plain [OF None] V6 show ?thesis
      by (simp add: parse_ip_def read_ip_addr_def no_dot_no_ipv4)
  next
    case (Some v4)
    then obtain a b c d where "v4 = V4 a b c d" by (auto simp: to_ipv4_mapped_def split: if_splits)
    with Some V6 show ?thesis by (simp add: parse_ip_def read_show_mapped)
  qed
qed (simp add: parse_show_ipv4)

subsection \<open>Splitting and trimming\<close>

lemma starts_with_simps [simp]:
  "starts_with [] s"
  "\<not> starts_with (p # ps) []"
  "starts_with (p # ps) (c # cs) \<longleftrightarrow> p = c \<and> starts_with ps cs"
  by (auto simp: starts_with_def)

lemma strip_prefix_simps [simp]:
  "strip_prefix [] s = Some s"
  "strip_prefix (p # ps) [] = None"
  "strip_prefix (p # ps) (c # cs) = (if p = c then strip_prefix ps cs else None)"
  by (auto simp: strip_prefix_def)

lemma split_by_not_Nil [simp]: "split_by P s \<noteq> []"
  by (cases s) (simp_all add: Let_def)

lemma split_by_append:
  "list_all (\<lambda>c. \<not> P c) w \<Longrightarrow> P d \<Longrightarrow> split_by P (w @ d # s) = w # split_by P s"
  by (induction w) (simp_all add: Let_def)

lemma split_by_word: "list_all (\<lambda>c. \<not> P c) w \<Longrightarrow> split_by P w = [w]"
  by (induction w) (simp_all add: Let_def)

text \<open>A word: text that splitting at white space keeps together.\<close>

definition is_word :: "string \<Rightarrow> bool" where
  "is_word s \<longleftrightarrow> s \<noteq> [] \<and> list_all (\<lambda>c. \<not> is_whitespace c) s"

lemma whitespace_chars [simp]: "is_whitespace (CHR '' '')" "is_whitespace (CHR 0x0A)" "is_whitespace (CHR 0x0D)"
  by (simp_all add: is_whitespace_def Let_def)

lemma split_whitespace_word: "is_word w \<Longrightarrow> split_whitespace w = [w]"
  by (simp add: split_whitespace_def is_word_def split_by_word)

lemma split_whitespace_Cons: "is_word w \<Longrightarrow> split_whitespace (w @ CHR '' '' # s) = w # split_whitespace s"
  by (simp add: split_whitespace_def is_word_def split_by_append)

lemma split_whitespace_Nil [simp]: "split_whitespace [] = []"
  by (simp add: split_whitespace_def)

lemma split_whitespace_join: "list_all is_word ws \<Longrightarrow> split_whitespace (join '' '' ws) = ws"
proof (induction ws)
  case (Cons w ws)
  then show ?case
    by (cases ws) (simp_all add: split_whitespace_word split_whitespace_Cons)
qed simp

lemma split_once_append: "d \<notin> set w \<Longrightarrow> split_once d (w @ d # s) = Some (w, s)"
  by (induction w) (auto simp: split_once_def)

lemma trim_id:
  "s \<noteq> [] \<Longrightarrow> \<not> is_whitespace (hd s) \<Longrightarrow> \<not> is_whitespace (last s) \<Longrightarrow> trim s = s"
proof -
  assume s: "s \<noteq> []" "\<not> is_whitespace (hd s)" "\<not> is_whitespace (last s)"
  then have "dropWhile is_whitespace s = s" "dropWhile is_whitespace (rev s) = rev s"
    by (simp_all add: dropWhile_eq_self_iff hd_rev)
  then show "trim s = s" by (simp add: trim_def)
qed

lemma text_lines_crlf:
  assumes "list_all (\<lambda>l. CHR 0x0A \<notin> set l) ls"
  shows "text_lines (concat (map (\<lambda>l. l @ [CHR 0x0D, CHR 0x0A]) ls)) = ls"
proof -
  have "split_char (CHR 0x0A) (concat (map (\<lambda>l. l @ [CHR 0x0D, CHR 0x0A]) ls))
      = map (\<lambda>l. l @ [CHR 0x0D]) ls @ [[]]"
    using assms
  proof (induction ls)
    case (Cons l ls)
    then have "list_all (\<lambda>c. \<not> c = CHR 0x0A) (l @ [CHR 0x0D])" by (auto simp: list_all_iff)
    from split_by_append [OF this, of "CHR 0x0A"] Cons show ?case by (simp add: split_char_def)
  qed (simp add: split_char_def)
  then show ?thesis by (simp add: text_lines_def strip_cr_def comp_def)
qed

subsection \<open>Printed numbers and addresses are words\<close>

lemma not_whitespace_hex: "is_digit 16 c \<Longrightarrow> \<not> is_whitespace c"
  by (auto simp: is_digit_ranges is_whitespace_def Let_def)

lemma show_nat_hex: "c \<in> set (show_nat n) \<Longrightarrow> is_digit 16 c"
  by (drule show_nat_digits) (simp add: is_digit_ranges)

lemma is_word_show_nat [simp]: "is_word (show_nat n)"
  by (auto simp: is_word_def list_all_iff dest: show_nat_hex not_whitespace_hex)

lemma show_ipv4_chars: "c \<in> set (show_ipv4 x y z w) \<Longrightarrow> is_digit 16 c \<or> c = CHR ''.''"
  by (auto simp: show_ipv4_def dest: show_nat_hex)

lemma show_groups_chars: "c \<in> set (show_groups gs) \<Longrightarrow> is_digit 16 c \<or> c = CHR '':''"
proof (cases gs)
  case (Cons g hs)
  assume "c \<in> set (show_groups gs)"
  with Cons show ?thesis
    using show_radix_digits [of 16] by (auto simp: show_groups_Cons groups_text_def list_all_iff split: if_splits)
qed (simp add: show_groups_def)

lemma show_ip_chars: "c \<in> set (show_ip ip) \<Longrightarrow> is_digit 16 c \<or> c = CHR ''.'' \<or> c = CHR '':''"
proof (cases ip)
  case (V4 x y z w)
  assume "c \<in> set (show_ip ip)"
  with V4 show ?thesis by (auto dest: show_ipv4_chars)
next
  case (V6 w)
  assume c: "c \<in> set (show_ip ip)"
  show ?thesis
  proof (cases "to_ipv4_mapped w")
    case None
    with c V6 show ?thesis
      by (auto simp: show_ipv6_def Let_def split: prod.splits if_splits dest: show_groups_chars)
  next
    case (Some v4)
    then obtain x y z u where "v4 = V4 x y z u" by (auto simp: to_ipv4_mapped_def split: if_splits)
    with c V6 Some show ?thesis
      by (auto simp: show_ipv6_def is_digit_ranges dest: show_ipv4_chars)
  qed
qed

lemma show_ip_not_Nil [simp]: "show_ip ip \<noteq> []"
  using parse_show_ip [of ip] by (auto simp: parse_ip_def read_ip_addr_def read_ipv4_addr_def
      read_octet_def read_separator_def not_number read_ipv6_addr_def read_groups_pos read_char_def)

lemma is_word_show_ip [simp]: "is_word (show_ip ip)"
  by (auto simp: is_word_def list_all_iff is_whitespace_def Let_def is_digit_ranges dest!: show_ip_chars)

end
