(* ===== verification/Audio_Codec.thy ===== *)
theory Audio_Codec
  imports Text
begin

unbundle bit_operations_syntax

text \<open>
  The audio codecs (\<open>src/src/media/codec.rs\<close>): their rates and names, the coders and the
  factories.  The mu-law, G.722 and Opus libraries are third-party code: what the coders call
  of them is the record \<open>codec_lib\<close>, an argument of the operations.  A library call that
  writes into a buffer takes and returns it, and an operation that fails returns \<open>Inl\<close> with
  the state it leaves behind.
\<close>

section \<open>Definitions\<close>

subsection \<open>Codecs and rates\<close>

datatype audio_codec = Pcmu | G722 | Opus | L16 u32

primrec AudioCodec_sample_rate :: "audio_codec \<Rightarrow> u32" where
  "AudioCodec_sample_rate Pcmu = 8000"
| "AudioCodec_sample_rate G722 = 16000"
| "AudioCodec_sample_rate Opus = 48000"
| "AudioCodec_sample_rate (L16 sample_rate) = sample_rate"

primrec AudioCodec_rtp_clock_rate :: "audio_codec \<Rightarrow> u32" where
  "AudioCodec_rtp_clock_rate Pcmu = 8000"
| "AudioCodec_rtp_clock_rate G722 = 8000"
| "AudioCodec_rtp_clock_rate Opus = 48000"
| "AudioCodec_rtp_clock_rate (L16 sample_rate) = sample_rate"

definition AudioCodec_ptime_samples :: "audio_codec \<Rightarrow> nat" where
  "AudioCodec_ptime_samples c = unat (AudioCodec_sample_rate c div 50)"

text \<open>Lower-casing only the ASCII letters decides the same names as the Unicode one: no other
  character has a lower-case letter of one of these names.\<close>

definition to_lowercase :: "string \<Rightarrow> string" where
  "to_lowercase s = map char_lower s"

definition AudioCodec_from_name :: "string \<Rightarrow> audio_codec option" where
  "AudioCodec_from_name name =
     (let n = to_lowercase name in
      if n = ''pcmu'' \<or> n = ''g711'' \<or> n = ''g.711'' then Some Pcmu
      else if n = ''g722'' \<or> n = ''g.722'' then Some G722
      else if n = ''opus'' then Some Opus
      else None)"

subsection \<open>The Opus receive profile\<close>

text \<open>\<open>OpusProfile\<close> of \<open>src/src/media/sdp.rs\<close>.\<close>

record opus_profile =
  op_bitrate :: u32
  op_playback_rate :: u32
  op_stereo :: bool
  op_min_packet_ms :: u32
  op_max_packet_ms :: u32

definition OpusProfile_default :: opus_profile where
  "OpusProfile_default =
     \<lparr>op_bitrate = 510000, op_playback_rate = 48000, op_stereo = False,
      op_min_packet_ms = 3, op_max_packet_ms = 120\<rparr>"

subsection \<open>The libraries\<close>

type_synonym codec_error = string

datatype opus_bandwidth = Narrowband | Mediumband | Wideband | Superwideband | Fullband

record 's codec_lib =
  cl_ulaw_decode :: "u8 \<Rightarrow> i16"
  cl_ulaw_encode :: "i16 \<Rightarrow> u8"
  cl_g722_decoder_new :: 's
  cl_g722_decode :: "'s \<Rightarrow> bytes \<Rightarrow> i16 list \<times> 's"
  cl_g722_encoder_new :: 's
  cl_g722_encode :: "'s \<Rightarrow> i16 list \<Rightarrow> bytes \<times> 's"
  cl_opus_decoder_new :: "codec_error + 's"
  cl_opus_decode :: "'s \<Rightarrow> bytes \<Rightarrow> i16 list \<Rightarrow> (codec_error + nat) \<times> i16 list \<times> 's"
  cl_opus_encoder_new :: "codec_error + 's"
  cl_opus_set_bitrate :: "'s \<Rightarrow> u32 \<Rightarrow> codec_error + 's"
  cl_opus_set_vbr :: "'s \<Rightarrow> bool \<Rightarrow> codec_error + 's"
  cl_opus_set_max_bandwidth :: "'s \<Rightarrow> opus_bandwidth \<Rightarrow> codec_error + 's"
  cl_opus_encode :: "'s \<Rightarrow> i16 list \<Rightarrow> bytes \<Rightarrow> (codec_error + nat) \<times> bytes \<times> 's"

subsection \<open>Decoders\<close>

datatype 's audio_decoder = PcmuDecoder | G722Decoder 's | OpusDecoder 's | L16Decoder u32

definition resize :: "nat \<Rightarrow> 'a \<Rightarrow> 'a list \<Rightarrow> 'a list" where
  "resize n v xs = take n xs @ replicate (n - length xs) v"

fun l16_samples :: "bytes \<Rightarrow> i16 list" where
  "l16_samples (lo # hi # rest) = from_be16 hi lo # l16_samples rest"
| "l16_samples _ = []"

definition l16_bytes :: "i16 list \<Rightarrow> bytes" where
  "l16_bytes pcm = concat (map (\<lambda>s. rev (to_be16 s)) pcm)"

definition PcmuDecoder_decode :: "'s codec_lib \<Rightarrow> bytes \<Rightarrow> i16 list" where
  "PcmuDecoder_decode lib encoded = map (cl_ulaw_decode lib) encoded"

definition G722Decoder_decode :: "'s codec_lib \<Rightarrow> 's \<Rightarrow> bytes \<Rightarrow> i16 list \<times> 's" where
  "G722Decoder_decode lib s encoded = cl_g722_decode lib s encoded"

definition OpusDecoder_decode ::
  "'s codec_lib \<Rightarrow> 's \<Rightarrow> bytes \<Rightarrow> i16 list \<Rightarrow> (codec_error + unit) \<times> i16 list \<times> 's" where
  "OpusDecoder_decode lib s encoded pcm_out =
     (let (r, pcm, s) = cl_opus_decode lib s encoded (resize 5760 0 pcm_out)
      in case r of Inl e \<Rightarrow> (Inl e, pcm, s) | Inr decoded \<Rightarrow> (Inr (), take decoded pcm, s))"

primrec AudioDecoder_decode ::
  "'s codec_lib \<Rightarrow> 's audio_decoder \<Rightarrow> bytes \<Rightarrow> i16 list \<Rightarrow> (codec_error + unit) \<times> i16 list \<times> 's audio_decoder" where
  "AudioDecoder_decode lib PcmuDecoder encoded pcm_out = (Inr (), PcmuDecoder_decode lib encoded, PcmuDecoder)"
| "AudioDecoder_decode lib (G722Decoder s) encoded pcm_out =
     (let (samples, s) = G722Decoder_decode lib s encoded in (Inr (), samples, G722Decoder s))"
| "AudioDecoder_decode lib (OpusDecoder s) encoded pcm_out =
     (let (r, pcm, s) = OpusDecoder_decode lib s encoded pcm_out in (r, pcm, OpusDecoder s))"
| "AudioDecoder_decode lib (L16Decoder sample_rate) encoded pcm_out =
     (Inr (), l16_samples encoded, L16Decoder sample_rate)"

primrec AudioDecoder_codec :: "'s audio_decoder \<Rightarrow> audio_codec" where
  "AudioDecoder_codec PcmuDecoder = Pcmu"
| "AudioDecoder_codec (G722Decoder s) = G722"
| "AudioDecoder_codec (OpusDecoder s) = Opus"
| "AudioDecoder_codec (L16Decoder sample_rate) = L16 sample_rate"

primrec make_decoder :: "'s codec_lib \<Rightarrow> audio_codec \<Rightarrow> codec_error + 's audio_decoder" where
  "make_decoder lib Pcmu = Inr PcmuDecoder"
| "make_decoder lib G722 = Inr (G722Decoder (cl_g722_decoder_new lib))"
| "make_decoder lib Opus = map_sum id OpusDecoder (cl_opus_decoder_new lib)"
| "make_decoder lib (L16 sample_rate) = Inr (L16Decoder sample_rate)"

subsection \<open>Encoders\<close>

datatype 's audio_encoder = PcmuEncoder | G722Encoder 's | OpusEncoder 's opus_profile | L16Encoder u32

definition PcmuEncoder_encode :: "'s codec_lib \<Rightarrow> i16 list \<Rightarrow> bytes" where
  "PcmuEncoder_encode lib pcm_in = map (cl_ulaw_encode lib) pcm_in"

definition G722Encoder_encode :: "'s codec_lib \<Rightarrow> 's \<Rightarrow> i16 list \<Rightarrow> bytes \<times> 's" where
  "G722Encoder_encode lib s pcm_in = cl_g722_encode lib s pcm_in"

definition OpusEncoder_encode ::
  "'s codec_lib \<Rightarrow> 's \<Rightarrow> i16 list \<Rightarrow> bytes \<Rightarrow> (codec_error + unit) \<times> bytes \<times> 's" where
  "OpusEncoder_encode lib s pcm_in encoded_out =
     (let (r, out, s) = cl_opus_encode lib s pcm_in (resize 4000 0 encoded_out)
      in case r of Inl e \<Rightarrow> (Inl e, out, s) | Inr encoded \<Rightarrow> (Inr (), take encoded out, s))"

primrec AudioEncoder_encode ::
  "'s codec_lib \<Rightarrow> 's audio_encoder \<Rightarrow> i16 list \<Rightarrow> bytes \<Rightarrow> (codec_error + unit) \<times> bytes \<times> 's audio_encoder" where
  "AudioEncoder_encode lib PcmuEncoder pcm_in encoded_out = (Inr (), PcmuEncoder_encode lib pcm_in, PcmuEncoder)"
| "AudioEncoder_encode lib (G722Encoder s) pcm_in encoded_out =
     (let (encoded, s) = G722Encoder_encode lib s pcm_in in (Inr (), encoded, G722Encoder s))"
| "AudioEncoder_encode lib (OpusEncoder s profile) pcm_in encoded_out =
     (let (r, out, s) = OpusEncoder_encode lib s pcm_in encoded_out in (r, out, OpusEncoder s profile))"
| "AudioEncoder_encode lib (L16Encoder sample_rate) pcm_in encoded_out =
     (Inr (), l16_bytes pcm_in, L16Encoder sample_rate)"

primrec AudioEncoder_codec :: "'s audio_encoder \<Rightarrow> audio_codec" where
  "AudioEncoder_codec PcmuEncoder = Pcmu"
| "AudioEncoder_codec (G722Encoder s) = G722"
| "AudioEncoder_codec (OpusEncoder s profile) = Opus"
| "AudioEncoder_codec (L16Encoder sample_rate) = L16 sample_rate"

primrec AudioEncoder_opus_profile :: "'s audio_encoder \<Rightarrow> opus_profile" where
  "AudioEncoder_opus_profile PcmuEncoder = OpusProfile_default"
| "AudioEncoder_opus_profile (G722Encoder s) = OpusProfile_default"
| "AudioEncoder_opus_profile (OpusEncoder s profile) = profile"
| "AudioEncoder_opus_profile (L16Encoder sample_rate) = OpusProfile_default"

definition OpusEncoder_new :: "'s codec_lib \<Rightarrow> codec_error + 's \<times> opus_profile" where
  "OpusEncoder_new lib =
     (case cl_opus_encoder_new lib of
        Inl e \<Rightarrow> Inl e
      | Inr encoder \<Rightarrow> map_sum id (\<lambda>encoder. (encoder, OpusProfile_default)) (cl_opus_set_bitrate lib encoder 24000))"

definition profile_bandwidth :: "opus_profile \<Rightarrow> opus_bandwidth" where
  "profile_bandwidth profile =
     (if op_playback_rate profile \<le> 11999 then Narrowband
      else if op_playback_rate profile \<le> 15999 then Mediumband
      else if op_playback_rate profile \<le> 23999 then Wideband
      else if op_playback_rate profile \<le> 47999 then Superwideband
      else Fullband)"

definition OpusEncoder_with_profile :: "'s codec_lib \<Rightarrow> opus_profile \<Rightarrow> codec_error + 's \<times> opus_profile" where
  "OpusEncoder_with_profile lib profile =
     (case OpusEncoder_new lib of
        Inl e \<Rightarrow> Inl e
      | Inr (encoder, _) \<Rightarrow>
          let limited =
                (if op_bitrate profile < 24000 then
                   case cl_opus_set_bitrate lib encoder (op_bitrate profile) of
                     Inl e \<Rightarrow> Inl e
                   | Inr encoder \<Rightarrow> cl_opus_set_vbr lib encoder False
                 else Inr encoder)
          in case limited of
               Inl e \<Rightarrow> Inl e
             | Inr encoder \<Rightarrow>
                 if op_playback_rate profile < 48000
                 then map_sum id (\<lambda>encoder. (encoder, profile))
                        (cl_opus_set_max_bandwidth lib encoder (profile_bandwidth profile))
                 else Inr (encoder, profile))"

primrec make_encoder :: "'s codec_lib \<Rightarrow> audio_codec \<Rightarrow> codec_error + 's audio_encoder" where
  "make_encoder lib Pcmu = Inr PcmuEncoder"
| "make_encoder lib G722 = Inr (G722Encoder (cl_g722_encoder_new lib))"
| "make_encoder lib Opus = map_sum id (\<lambda>(s, p). OpusEncoder s p) (OpusEncoder_new lib)"
| "make_encoder lib (L16 sample_rate) = Inr (L16Encoder sample_rate)"

definition make_encoder_with_profile :: "'s codec_lib \<Rightarrow> audio_codec \<Rightarrow> opus_profile \<Rightarrow> codec_error + 's audio_encoder" where
  "make_encoder_with_profile lib codec profile =
     (if codec = Opus then map_sum id (\<lambda>(s, p). OpusEncoder s p) (OpusEncoder_with_profile lib profile)
      else make_encoder lib codec)"

section \<open>Lemmas\<close>

lemma ptime_samples_eq: "AudioCodec_ptime_samples c = unat (AudioCodec_sample_rate c) div 50"
  by (simp add: AudioCodec_ptime_samples_def unat_div)

lemma l16_roundtrip: "l16_samples (l16_bytes pcm) = pcm"
  by (induction pcm) (simp_all add: l16_bytes_def to_be16_def from_be16_def join_split16)

lemma length_l16_bytes [simp]: "length (l16_bytes pcm) = 2 * length pcm"
  by (induction pcm) (simp_all add: l16_bytes_def)

lemma make_encoder_codec: "make_encoder_with_profile lib codec profile = Inr enc \<Longrightarrow> AudioEncoder_codec enc = codec"
  by (cases codec) (auto simp: make_encoder_with_profile_def map_sum_def split: if_splits sum.splits)

end
