(* ===== verification/Playout_Synth.thy ===== *)
theory Playout_Synth
  imports Rtp_Header "HOL-Library.Sublist"
begin

text \<open>
  The playout buffer of a source without a clock (\<open>SynthClock\<close> of
  \<open>src/src/session/playout.rs\<close>): WebSocket and bridge legs push frames in bursts, and the
  buffer emits one frame per 20 ms tick on a timeline of its own, filling short gaps with
  silence and going idle on long ones.
\<close>

section \<open>Definitions\<close>

definition L16_PT :: u8 where "L16_PT = 127"
definition SYNTH_TARGET_FRAMES :: nat where "SYNTH_TARGET_FRAMES = 3"
definition SYNTH_MAX_TARGET_FRAMES :: nat where "SYNTH_MAX_TARGET_FRAMES = 7"
definition SYNTH_IDLE_TICKS :: u32 where "SYNTH_IDLE_TICKS = 10"
definition SYNTH_MAX_FRAMES :: nat where "SYNTH_MAX_FRAMES = 14"

lemmas synth_consts = SYNTH_TARGET_FRAMES_def SYNTH_MAX_TARGET_FRAMES_def SYNTH_IDLE_TICKS_def
  SYNTH_MAX_FRAMES_def

record playout_counters =
  pc_overflow_drops :: u64
  pc_underflow_fills :: u64
  pc_late_drops :: u64

definition PlayoutCounters_default :: playout_counters where
  "PlayoutCounters_default = \<lparr>pc_overflow_drops = 0, pc_underflow_fills = 0, pc_late_drops = 0\<rparr>"

datatype synth_state = Idle | Prebuffering | Active

record synth_clock =
  sc_source_id :: endpoint_id
  sc_seq :: u16
  sc_ts :: u32
  sc_ssrc :: u32
  sc_ts_step :: u32
  sc_silence :: bytes
  sc_queue :: "bytes list"
  sc_state :: synth_state
  sc_pending_marker :: bool
  sc_prebuffer_ticks :: u32
  sc_underflow_ticks :: u32
  sc_target_frames :: nat
  sc_underran_this_spurt :: bool
  sc_counters :: playout_counters

text \<open>\<open>PlayoutBuffer::synth\<close>.\<close>

definition synth_clock_new :: "endpoint_id \<Rightarrow> u32 \<Rightarrow> u32 \<Rightarrow> u16 \<Rightarrow> u32 \<Rightarrow> synth_clock" where
  "synth_clock_new source_id clock_rate ssrc seq ts =
     (let samples = unat (clock_rate div 50) in
      \<lparr>sc_source_id = source_id, sc_seq = seq, sc_ts = ts, sc_ssrc = ssrc,
       sc_ts_step = clock_rate div 50, sc_silence = replicate (samples * 2) 0, sc_queue = [],
       sc_state = Idle, sc_pending_marker = False, sc_prebuffer_ticks = 0,
       sc_underflow_ticks = 0, sc_target_frames = SYNTH_TARGET_FRAMES,
       sc_underran_this_spurt = False, sc_counters = PlayoutCounters_default\<rparr>)"

definition start_spurt :: "synth_clock \<Rightarrow> synth_clock" where
  "start_spurt s =
     (if sc_state s = Idle
      then s\<lparr>sc_state := Prebuffering, sc_prebuffer_ticks := 0, sc_pending_marker := True,
             sc_underran_this_spurt := False\<rparr>
      else s)"

text \<open>The overflow loop drops from the front until the queue fits.\<close>

function drop_oldest :: "synth_clock \<Rightarrow> synth_clock" where
  "drop_oldest s =
     (if SYNTH_MAX_FRAMES < length (sc_queue s)
      then drop_oldest (s\<lparr>sc_queue := tl (sc_queue s),
             sc_counters := (sc_counters s)\<lparr>pc_overflow_drops := pc_overflow_drops (sc_counters s) + 1\<rparr>\<rparr>)
      else s)"
  by pat_completeness auto

termination
  by (relation "measure (\<lambda>s. length (sc_queue s))") auto

declare drop_oldest.simps [simp del]

definition SynthClock_push :: "synth_clock \<Rightarrow> bytes \<Rightarrow> synth_clock" where
  "SynthClock_push s payload =
     (let s = start_spurt s;
          s = drop_oldest (s\<lparr>sc_queue := sc_queue s @ [payload]\<rparr>)
      in if sc_state s = Prebuffering \<and> sc_target_frames s \<le> length (sc_queue s)
         then s\<lparr>sc_state := Active\<rparr> else s)"

definition SynthClock_emit :: "synth_clock \<Rightarrow> bytes \<Rightarrow> bool \<Rightarrow> routed_rtp_packet \<times> synth_clock" where
  "SynthClock_emit s payload is_silence =
     (let marker = sc_pending_marker s \<and> \<not> is_silence;
          s = (if marker then s\<lparr>sc_pending_marker := False\<rparr> else s)
      in (\<lparr>pk_source_endpoint_id = sc_source_id s, pk_payload_type = L16_PT,
           pk_sequence_number = sc_seq s, pk_timestamp = sc_ts s, pk_ssrc = sc_ssrc s,
           pk_marker = marker, pk_payload = payload\<rparr>,
          s\<lparr>sc_seq := sc_seq s + 1, sc_ts := sc_ts s + sc_ts_step s\<rparr>))"

definition SynthClock_emit_active :: "synth_clock \<Rightarrow> routed_rtp_packet option \<times> synth_clock" where
  "SynthClock_emit_active s =
     (case sc_queue s of
        payload # rest \<Rightarrow>
          let s = s\<lparr>sc_queue := rest\<rparr>;
              s = (if 0 < sc_underflow_ticks s then
                     let s = (if \<not> sc_underran_this_spurt s \<and> sc_target_frames s < SYNTH_MAX_TARGET_FRAMES
                              then s\<lparr>sc_target_frames := sc_target_frames s + 1\<rparr> else s)
                     in s\<lparr>sc_underran_this_spurt := True\<rparr>
                   else s);
              s = s\<lparr>sc_underflow_ticks := 0\<rparr>;
              (pkt, s) = SynthClock_emit s payload False
          in (Some pkt, s)
      | [] \<Rightarrow>
          let s = s\<lparr>sc_underflow_ticks := sc_underflow_ticks s + 1\<rparr> in
          if SYNTH_IDLE_TICKS < sc_underflow_ticks s then
            let s = (if \<not> sc_underran_this_spurt s \<and> SYNTH_TARGET_FRAMES < sc_target_frames s
                     then s\<lparr>sc_target_frames := sc_target_frames s - 1\<rparr> else s)
            in (None, s\<lparr>sc_state := Idle, sc_underflow_ticks := 0\<rparr>)
          else
            let s = s\<lparr>sc_counters := (sc_counters s)
                        \<lparr>pc_underflow_fills := pc_underflow_fills (sc_counters s) + 1\<rparr>\<rparr>;
                (pkt, s) = SynthClock_emit s (sc_silence s) True
            in (Some pkt, s))"

definition SynthClock_drain_tick :: "synth_clock \<Rightarrow> routed_rtp_packet option \<times> synth_clock" where
  "SynthClock_drain_tick s =
     (case sc_state s of
        Idle \<Rightarrow> (None, s)
      | Prebuffering \<Rightarrow>
          let s = s\<lparr>sc_prebuffer_ticks := sc_prebuffer_ticks s + 1\<rparr> in
          if sc_target_frames s \<le> length (sc_queue s)
             \<or> of_nat (sc_target_frames s) \<le> sc_prebuffer_ticks s
          then SynthClock_emit_active (s\<lparr>sc_state := Active\<rparr>)
          else (None, s)
      | Active \<Rightarrow> SynthClock_emit_active s)"

section \<open>The invariant\<close>

lemma drop_oldest_eq:
  "drop_oldest s = s\<lparr>sc_queue := drop (length (sc_queue s) - 14) (sc_queue s),
     sc_counters := (sc_counters s)\<lparr>pc_overflow_drops :=
       pc_overflow_drops (sc_counters s) + of_nat (length (sc_queue s) - 14)\<rparr>\<rparr>"
proof (induction s rule: drop_oldest.induct)
  case (1 s)
  show ?case
  proof (cases "14 < length (sc_queue s)")
    case True
    then have "length (sc_queue s) - 14 = Suc (length (sc_queue s) - 15)" by simp
    with True 1 show ?thesis
      by (subst drop_oldest.simps) (simp add: SYNTH_MAX_FRAMES_def drop_Suc)
  next
    case False
    then show ?thesis by (subst drop_oldest.simps) (simp add: SYNTH_MAX_FRAMES_def)
  qed
qed

definition synth_ok :: "synth_clock \<Rightarrow> bool" where
  "synth_ok s \<longleftrightarrow> length (sc_queue s) \<le> 14 \<and> 3 \<le> sc_target_frames s \<and> sc_target_frames s \<le> 7
     \<and> (case sc_state s of
          Idle \<Rightarrow> sc_queue s = [] \<and> sc_underflow_ticks s = 0 \<and> \<not> sc_pending_marker s
        | Prebuffering \<Rightarrow> sc_queue s \<noteq> [] \<and> length (sc_queue s) < sc_target_frames s
            \<and> unat (sc_prebuffer_ticks s) < sc_target_frames s \<and> sc_underflow_ticks s = 0
            \<and> sc_pending_marker s
        | Active \<Rightarrow> unat (sc_underflow_ticks s) \<le> 10 \<and> (sc_pending_marker s \<longrightarrow> sc_queue s \<noteq> []))"

lemma synth_ok_new: "synth_ok (synth_clock_new source_id clock_rate ssrc seq ts)"
  by (simp add: synth_ok_def synth_clock_new_def synth_consts Let_def)

lemma push_queue: "sc_queue (SynthClock_push s p) = drop (Suc (length (sc_queue s)) - 14) (sc_queue s @ [p])"
  by (simp add: SynthClock_push_def drop_oldest_eq start_spurt_def Let_def)

lemma push_keeps [simp]:
  "sc_seq (SynthClock_push s p) = sc_seq s" "sc_ts (SynthClock_push s p) = sc_ts s"
  "sc_ssrc (SynthClock_push s p) = sc_ssrc s" "sc_ts_step (SynthClock_push s p) = sc_ts_step s"
  "sc_source_id (SynthClock_push s p) = sc_source_id s"
  "sc_pending_marker (SynthClock_push s p) = (sc_state s = Idle \<or> sc_pending_marker s)"
  "pc_overflow_drops (sc_counters (SynthClock_push s p))
     = pc_overflow_drops (sc_counters s) + of_nat (Suc (length (sc_queue s)) - 14)"
  by (simp_all add: SynthClock_push_def drop_oldest_eq start_spurt_def Let_def)

lemma synth_ok_push: "synth_ok s \<Longrightarrow> synth_ok (SynthClock_push s p)"
  by (cases "sc_state s")
    (auto simp: synth_ok_def SynthClock_push_def drop_oldest_eq start_spurt_def Let_def not_le)

lemma tick_count:
  fixes u :: u32
  assumes "unat u < 100"
  shows "unat (u + 1) = Suc (unat u)" "n < u + 1 \<longleftrightarrow> unat n \<le> unat u" "n \<le> u + 1 \<longleftrightarrow> unat n \<le> Suc (unat u)"
proof -
  show *: "unat (u + 1) = Suc (unat u)" using assms by (simp add: unat_word_ariths)
  show "n < u + 1 \<longleftrightarrow> unat n \<le> unat u" "n \<le> u + 1 \<longleftrightarrow> unat n \<le> Suc (unat u)"
    unfolding word_less_nat_alt word_le_nat_alt * by auto
qed

lemmas emit_defs = SynthClock_emit_active_def SynthClock_emit_def Let_def synth_consts

lemma emit_active_stamps:
  assumes "SynthClock_emit_active s = (r, s')"
  shows "sc_ssrc s' = sc_ssrc s \<and> sc_ts_step s' = sc_ts_step s
    \<and> (case r of
         None \<Rightarrow> sc_seq s' = sc_seq s \<and> sc_ts s' = sc_ts s
       | Some pkt \<Rightarrow> pk_sequence_number pkt = sc_seq s \<and> pk_timestamp pkt = sc_ts s
           \<and> pk_ssrc pkt = sc_ssrc s \<and> sc_seq s' = sc_seq s + 1 \<and> sc_ts s' = sc_ts s + sc_ts_step s)"
  using assms by (auto simp: emit_defs split: list.splits if_splits)

lemma emit_active_audio:
  assumes "SynthClock_emit_active s = (r, s')"
  shows "pc_overflow_drops (sc_counters s') = pc_overflow_drops (sc_counters s)
    \<and> (case sc_queue s of
         [] \<Rightarrow> sc_queue s' = [] \<and> (\<forall>pkt. r = Some pkt \<longrightarrow> \<not> pk_marker pkt)
               \<and> sc_pending_marker s' = sc_pending_marker s
       | p # rest \<Rightarrow> sc_queue s' = rest \<and> \<not> sc_pending_marker s'
           \<and> (\<exists>pkt. r = Some pkt \<and> pk_payload pkt = p \<and> pk_marker pkt = sc_pending_marker s))"
  using assms by (auto simp: emit_defs split: list.splits if_splits)

lemma emit_active_ok:
  assumes "synth_ok s" "sc_state s = Active"
  shows "synth_ok (snd (SynthClock_emit_active s))"
proof (cases "sc_queue s")
  case Nil
  have u: "unat (sc_underflow_ticks s) \<le> 10" using assms by (simp add: synth_ok_def)
  have *: "unat (sc_underflow_ticks s + 1) = Suc (unat (sc_underflow_ticks s))"
      "10 < sc_underflow_ticks s + 1 \<longleftrightarrow> 10 \<le> unat (sc_underflow_ticks s)"
    using tick_count(1) [of "sc_underflow_ticks s"] tick_count(2) [of "sc_underflow_ticks s" 10] u by simp_all
  show ?thesis using assms Nil u by (auto simp: synth_ok_def emit_defs *)
next
  case (Cons p rest)
  then show ?thesis using assms by (auto simp: synth_ok_def emit_defs)
qed

text \<open>A tick either waits or emits.\<close>

lemma drain_tick_cases:
  assumes "synth_ok s"
  obtains (idle) "sc_state s = Idle" "SynthClock_drain_tick s = (None, s)"
    | (wait) "sc_state s = Prebuffering" "Suc (unat (sc_prebuffer_ticks s)) < sc_target_frames s"
        "unat (sc_prebuffer_ticks s + 1) = Suc (unat (sc_prebuffer_ticks s))"
        "SynthClock_drain_tick s = (None, s\<lparr>sc_prebuffer_ticks := sc_prebuffer_ticks s + 1\<rparr>)"
    | (start) "sc_state s = Prebuffering" "sc_queue s \<noteq> []"
        "SynthClock_drain_tick s =
           SynthClock_emit_active (s\<lparr>sc_prebuffer_ticks := sc_prebuffer_ticks s + 1, sc_state := Active\<rparr>)"
    | (active) "sc_state s = Active" "SynthClock_drain_tick s = SynthClock_emit_active s"
proof (cases "sc_state s")
  case Prebuffering
  with assms have ok: "sc_queue s \<noteq> []" "length (sc_queue s) < sc_target_frames s"
      "unat (sc_prebuffer_ticks s) < sc_target_frames s" "sc_target_frames s \<le> 7"
    by (simp_all add: synth_ok_def)
  have t: "unat (of_nat (sc_target_frames s) :: u32) = sc_target_frames s"
    using ok by (intro unat_of_nat_small) simp
  have c: "unat (sc_prebuffer_ticks s + 1) = Suc (unat (sc_prebuffer_ticks s))"
      "of_nat (sc_target_frames s) \<le> sc_prebuffer_ticks s + 1 \<longleftrightarrow> sc_target_frames s \<le> Suc (unat (sc_prebuffer_ticks s))"
    using tick_count(1) [of "sc_prebuffer_ticks s"]
      tick_count(3) [of "sc_prebuffer_ticks s" "of_nat (sc_target_frames s)"] ok t by simp_all
  show thesis
    using Prebuffering ok c
    by (cases "sc_target_frames s \<le> Suc (unat (sc_prebuffer_ticks s))")
      (auto intro: wait start simp: SynthClock_drain_tick_def Let_def)
qed (simp_all add: idle active SynthClock_drain_tick_def)

lemma synth_ok_drain:
  assumes "synth_ok s"
  shows "synth_ok (snd (SynthClock_drain_tick s))"
  using assms
proof (cases rule: drain_tick_cases)
  case start
  with assms have "synth_ok (s\<lparr>sc_prebuffer_ticks := sc_prebuffer_ticks s + 1, sc_state := Active\<rparr>)"
    by (simp add: synth_ok_def)
  with start show ?thesis by (simp add: emit_active_ok)
next
  case wait
  with assms show ?thesis by (simp add: synth_ok_def)
qed (use assms in \<open>simp_all add: emit_active_ok\<close>)

section \<open>Runs\<close>

text \<open>A run of pushes and ticks.  Each emitted packet comes with whether it carries a pushed
  frame or silence.\<close>

datatype synth_event = Push_Frame bytes | Grid_Tick

fun synth_apply :: "synth_clock \<Rightarrow> synth_event \<Rightarrow> (routed_rtp_packet \<times> bool) list \<times> synth_clock" where
  "synth_apply s (Push_Frame p) = ([], SynthClock_push s p)"
| "synth_apply s Grid_Tick =
     (case SynthClock_drain_tick s of
        (None, s') \<Rightarrow> ([], s')
      | (Some pkt, s') \<Rightarrow> ([(pkt, sc_queue s \<noteq> [])], s'))"

declare synth_apply.simps(2) [simp del]

lemmas tick_apply = synth_apply.simps(2)

definition synth_out :: "synth_clock \<Rightarrow> synth_event list \<Rightarrow> (routed_rtp_packet \<times> bool) list" where
  "synth_out s evs = concat (results_with synth_apply s evs)"

definition synth_end :: "synth_clock \<Rightarrow> synth_event list \<Rightarrow> synth_clock" where
  "synth_end s evs = state_with synth_apply s evs"

lemma synth_run_simps [simp]:
  "synth_out s [] = []" "synth_end s [] = s"
  "synth_out s (ev # evs) = fst (synth_apply s ev) @ synth_out (snd (synth_apply s ev)) evs"
  "synth_end s (ev # evs) = synth_end (snd (synth_apply s ev)) evs"
  by (simp_all add: synth_out_def synth_end_def)

lemma synth_ok_apply: "synth_ok s \<Longrightarrow> synth_ok (snd (synth_apply s ev))"
  using synth_ok_drain [of s]
  by (cases ev) (auto simp: synth_ok_push tick_apply split: prod.split option.split)

lemma synth_ok_run: "synth_ok s \<Longrightarrow> synth_ok (synth_end s evs)"
  by (induction evs arbitrary: s) (simp_all add: synth_ok_apply)

subsection \<open>The timeline\<close>

definition stamped :: "u16 \<Rightarrow> u32 \<Rightarrow> u32 \<Rightarrow> u32 \<Rightarrow> nat \<Rightarrow> routed_rtp_packet \<Rightarrow> bool" where
  "stamped seq ts step ssrc k pkt \<longleftrightarrow> pk_sequence_number pkt = seq + of_nat k
     \<and> pk_timestamp pkt = ts + of_nat k * step \<and> pk_ssrc pkt = ssrc"

lemma drain_stamps:
  assumes "SynthClock_drain_tick s = (r, s')"
  shows "sc_ssrc s' = sc_ssrc s \<and> sc_ts_step s' = sc_ts_step s
    \<and> (case r of
         None \<Rightarrow> sc_seq s' = sc_seq s \<and> sc_ts s' = sc_ts s
       | Some pkt \<Rightarrow> stamped (sc_seq s) (sc_ts s) (sc_ts_step s) (sc_ssrc s) 0 pkt
           \<and> sc_seq s' = sc_seq s + 1 \<and> sc_ts s' = sc_ts s + sc_ts_step s)"
proof (cases "sc_state s")
  case Idle
  with assms show ?thesis by (auto simp: SynthClock_drain_tick_def)
next
  case Prebuffering
  with assms emit_active_stamps [of "s\<lparr>sc_prebuffer_ticks := sc_prebuffer_ticks s + 1, sc_state := Active\<rparr>" r s']
  show ?thesis
    by (auto simp: SynthClock_drain_tick_def Let_def stamped_def split: if_splits option.splits)
next
  case Active
  with assms emit_active_stamps [of s r s'] show ?thesis
    by (auto simp: SynthClock_drain_tick_def stamped_def split: option.splits)
qed

lemma stamped_shift:
  "stamped (seq + 1) (ts + step) step ssrc k pkt = stamped seq ts step ssrc (Suc k) pkt"
  by (simp add: stamped_def algebra_simps)

lemma synth_timeline:
  "k < length (synth_out s evs) \<Longrightarrow>
     stamped (sc_seq s) (sc_ts s) (sc_ts_step s) (sc_ssrc s) k (fst (synth_out s evs ! k))"
proof (induction evs arbitrary: s k)
  case (Cons ev evs)
  show ?case
  proof (cases ev)
    case (Push_Frame p)
    with Cons show ?thesis by (metis append_Nil fst_conv push_keeps(1-4) snd_conv synth_apply.simps(1) synth_run_simps(3))
  next
    case Grid_Tick
    obtain r s' where d: "SynthClock_drain_tick s = (r, s')" by fastforce
    note st = drain_stamps [OF d]
    show ?thesis
    proof (cases r)
      case None
      with Cons.prems Cons.IH [of k s'] st d Grid_Tick show ?thesis by (simp add: tick_apply)
    next
      case (Some pkt)
      with d Grid_Tick have out: "synth_out s (ev # evs) = (pkt, sc_queue s \<noteq> []) # synth_out s' evs" by (simp add: tick_apply)
      show ?thesis
      proof (cases k)
        case 0
        then show ?thesis unfolding out using st Some by simp
      next
        case (Suc j)
        then have "stamped (sc_seq s') (sc_ts s') (sc_ts_step s') (sc_ssrc s') j (fst (synth_out s' evs ! j))"
          using Cons.prems unfolding out by (intro Cons.IH) simp
        then show ?thesis unfolding out Suc using st Some by (simp add: stamped_shift)
      qed
    qed
  qed
qed simp

subsection \<open>Audio and markers\<close>

fun pushed :: "synth_event list \<Rightarrow> bytes list" where
  "pushed [] = []"
| "pushed (Push_Frame p # evs) = p # pushed evs"
| "pushed (Grid_Tick # evs) = pushed evs"

definition played :: "(routed_rtp_packet \<times> bool) list \<Rightarrow> bytes list" where
  "played out = map (pk_payload \<circ> fst) (filter snd out)"

lemma played_append [simp]: "played (a @ b) = played a @ played b"
  by (simp add: played_def)

lemma drain_audio:
  assumes "synth_ok s"
  shows "sc_queue s = played (fst (synth_apply s Grid_Tick)) @ sc_queue (snd (synth_apply s Grid_Tick))"
    "pc_overflow_drops (sc_counters (snd (synth_apply s Grid_Tick))) = pc_overflow_drops (sc_counters s)"
    "length (filter (pk_marker \<circ> fst) (fst (synth_apply s Grid_Tick)))
       + of_bool (sc_pending_marker (snd (synth_apply s Grid_Tick))) = of_bool (sc_pending_marker s)"
    "filter (\<lambda>(pkt, real). pk_marker pkt \<and> \<not> real) (fst (synth_apply s Grid_Tick)) = []"
proof -
  have emit: "sc_queue t = played out @ sc_queue t'
      \<and> pc_overflow_drops (sc_counters t') = pc_overflow_drops (sc_counters t)
      \<and> length (filter (pk_marker \<circ> fst) out) + of_bool (sc_pending_marker t') = of_bool (sc_pending_marker t)
      \<and> filter (\<lambda>(pkt, real). pk_marker pkt \<and> \<not> real) out = []"
    if "SynthClock_emit_active t = (r, t')" "out = (case r of None \<Rightarrow> [] | Some pkt \<Rightarrow> [(pkt, sc_queue t \<noteq> [])])"
    for t t' r out
    using that emit_active_audio [OF that(1)]
    by (auto simp: played_def split: list.splits option.splits)
  let ?goal = "\<lambda>s. sc_queue s = played (fst (synth_apply s Grid_Tick)) @ sc_queue (snd (synth_apply s Grid_Tick))
    \<and> pc_overflow_drops (sc_counters (snd (synth_apply s Grid_Tick))) = pc_overflow_drops (sc_counters s)
    \<and> length (filter (pk_marker \<circ> fst) (fst (synth_apply s Grid_Tick)))
       + of_bool (sc_pending_marker (snd (synth_apply s Grid_Tick))) = of_bool (sc_pending_marker s)
    \<and> filter (\<lambda>(pkt, real). pk_marker pkt \<and> \<not> real) (fst (synth_apply s Grid_Tick)) = []"
  have "?goal s"
    using assms
  proof (cases rule: drain_tick_cases)
    case start
    let ?t = "s\<lparr>sc_prebuffer_ticks := sc_prebuffer_ticks s + 1, sc_state := Active\<rparr>"
    obtain r t' where e: "SynthClock_emit_active ?t = (r, t')" by fastforce
    have q: "sc_queue ?t = sc_queue s" "sc_counters ?t = sc_counters s"
        "sc_pending_marker ?t = sc_pending_marker s"
      by simp_all
    have ap: "synth_apply s Grid_Tick = (case r of None \<Rightarrow> [] | Some pkt \<Rightarrow> [(pkt, sc_queue s \<noteq> [])], t')"
      using start e by (simp add: tick_apply split: option.split)
    from emit [OF e refl] show ?thesis unfolding ap fst_conv snd_conv q .
  next
    case active
    obtain r t' where e: "SynthClock_emit_active s = (r, t')" by fastforce
    have ap: "synth_apply s Grid_Tick = (case r of None \<Rightarrow> [] | Some pkt \<Rightarrow> [(pkt, sc_queue s \<noteq> [])], t')"
      using active e by (simp add: tick_apply split: option.split)
    from emit [OF e refl] show ?thesis unfolding ap fst_conv snd_conv .
  qed (simp_all add: played_def tick_apply)
  then show "sc_queue s = played (fst (synth_apply s Grid_Tick)) @ sc_queue (snd (synth_apply s Grid_Tick))"
    "pc_overflow_drops (sc_counters (snd (synth_apply s Grid_Tick))) = pc_overflow_drops (sc_counters s)"
    "length (filter (pk_marker \<circ> fst) (fst (synth_apply s Grid_Tick)))
       + of_bool (sc_pending_marker (snd (synth_apply s Grid_Tick))) = of_bool (sc_pending_marker s)"
    "filter (\<lambda>(pkt, real). pk_marker pkt \<and> \<not> real) (fst (synth_apply s Grid_Tick)) = []"
    by blast+
qed

text \<open>Frames leave in the order they came; what is missing was shed at the front of a full
  queue and counted.\<close>

lemma synth_audio:
  assumes "synth_ok s"
  shows "subseq (played (synth_out s evs) @ sc_queue (synth_end s evs)) (sc_queue s @ pushed evs)
    \<and> pc_overflow_drops (sc_counters (synth_end s evs)) = pc_overflow_drops (sc_counters s)
        + of_nat (length (sc_queue s @ pushed evs) - length (played (synth_out s evs) @ sc_queue (synth_end s evs)))"
  using assms
proof (induction evs arbitrary: s)
  case (Cons ev evs)
  let ?s = "snd (synth_apply s ev)"
  let ?rest = "played (synth_out ?s evs) @ sc_queue (synth_end ?s evs)"
  note IH = Cons.IH [OF synth_ok_apply [OF Cons.prems, of ev]]
  show ?case
  proof (cases ev)
    case (Push_Frame p)
    let ?d = "Suc (length (sc_queue s)) - 14"
    have q: "sc_queue ?s @ pushed evs = drop ?d (sc_queue s @ [p]) @ pushed evs"
      by (simp add: Push_Frame push_queue)
    have full: "take ?d (sc_queue s @ [p]) @ sc_queue ?s @ pushed evs = sc_queue s @ pushed (ev # evs)"
      unfolding q by (simp add: Push_Frame flip: append_assoc)
    have sub: "subseq ?rest (sc_queue s @ pushed (ev # evs))"
      using IH full by (metis subseq_append' list_emb_append2 subseq_order.refl)
    have len: "length ?rest \<le> length (sc_queue ?s @ pushed evs)" using IH by (blast intro: list_emb_length)
    have "length (sc_queue s @ pushed (ev # evs)) - length ?rest
        = ?d + (length (sc_queue ?s @ pushed evs) - length ?rest)"
      unfolding full [symmetric] using len by (simp add: Push_Frame push_queue)
    then show ?thesis using IH sub by (simp add: Push_Frame)
  next
    case Grid_Tick
    obtain out s' where ap: "synth_apply s Grid_Tick = (out, s')" by fastforce
    have q: "sc_queue s = played out @ sc_queue s'"
      and c: "pc_overflow_drops (sc_counters s') = pc_overflow_drops (sc_counters s)"
      using drain_audio(1,2) [OF Cons.prems] by (simp_all only: ap fst_conv snd_conv)
    have run: "played (synth_out s (ev # evs)) @ sc_queue (synth_end s (ev # evs))
        = played out @ played (synth_out s' evs) @ sc_queue (synth_end s' evs)"
      by (simp only: Grid_Tick synth_run_simps ap fst_conv snd_conv played_append append_assoc)
    have "synth_end s (ev # evs) = synth_end s' evs"
      by (simp only: Grid_Tick synth_run_simps ap snd_conv)
    with IH show ?thesis
      unfolding run by (simp only: Grid_Tick ap snd_conv) (simp add: q c subseq_append')
  qed
qed (simp add: played_def)

text \<open>How often a run starts a talkspurt: a push while idle.\<close>

fun spurts :: "synth_clock \<Rightarrow> synth_event list \<Rightarrow> nat" where
  "spurts s [] = 0"
| "spurts s (ev # evs) =
     of_bool (ev \<noteq> Grid_Tick \<and> sc_state s = Idle) + spurts (snd (synth_apply s ev)) evs"

lemma synth_markers:
  assumes "synth_ok s"
  shows "length (filter (pk_marker \<circ> fst) (synth_out s evs)) + of_bool (sc_pending_marker (synth_end s evs))
      = of_bool (sc_pending_marker s) + spurts s evs
    \<and> (\<forall>(pkt, real) \<in> set (synth_out s evs). pk_marker pkt \<longrightarrow> real)"
  using assms
proof (induction evs arbitrary: s)
  case (Cons ev evs)
  note IH = Cons.IH [OF synth_ok_apply [OF Cons.prems, of ev]]
  show ?case
  proof (cases ev)
    case (Push_Frame p)
    have "sc_state s = Idle \<Longrightarrow> \<not> sc_pending_marker s" using Cons.prems by (simp add: synth_ok_def)
    with IH show ?thesis by (auto simp: Push_Frame)
  next
    case Grid_Tick
    note d = drain_audio [OF Cons.prems]
    from d(4) have "\<forall>(pkt, real) \<in> set (fst (synth_apply s ev)). pk_marker pkt \<longrightarrow> real"
      by (auto simp: Grid_Tick filter_empty_conv)
    with IH d(3) show ?thesis by (auto simp: Grid_Tick comp_def)
  qed
qed simp

subsection \<open>Coming to rest\<close>

text \<open>The number of ticks after which a buffer that gets nothing more is idle.\<close>

definition ticks_left :: "synth_clock \<Rightarrow> nat" where
  "ticks_left s = (case sc_state s of
       Idle \<Rightarrow> 0
     | Prebuffering \<Rightarrow> (sc_target_frames s - unat (sc_prebuffer_ticks s)) + length (sc_queue s) + 11
     | Active \<Rightarrow> if sc_queue s = [] then 11 - unat (sc_underflow_ticks s) else length (sc_queue s) + 11)"

lemma ticks_left_emit:
  assumes "synth_ok s" "sc_state s = Active"
  shows "ticks_left (snd (SynthClock_emit_active s)) < ticks_left s"
proof (cases "sc_queue s")
  case Nil
  have u: "unat (sc_underflow_ticks s) \<le> 10" using assms by (simp add: synth_ok_def)
  have *: "unat (sc_underflow_ticks s + 1) = Suc (unat (sc_underflow_ticks s))"
      "10 < sc_underflow_ticks s + 1 \<longleftrightarrow> 10 \<le> unat (sc_underflow_ticks s)"
    using tick_count(1) [of "sc_underflow_ticks s"] tick_count(2) [of "sc_underflow_ticks s" 10] u by simp_all
  show ?thesis using assms(2) Nil u by (auto simp: ticks_left_def emit_defs *)
next
  case (Cons p rest)
  then show ?thesis using assms(2) by (auto simp: ticks_left_def emit_defs)
qed

lemma ticks_left_drain:
  assumes "synth_ok s" "sc_state s \<noteq> Idle"
  shows "ticks_left (snd (SynthClock_drain_tick s)) < ticks_left s"
  using assms(1)
proof (cases rule: drain_tick_cases)
  case wait
  then show ?thesis by (simp add: ticks_left_def)
next
  case start
  let ?t = "s\<lparr>sc_prebuffer_ticks := sc_prebuffer_ticks s + 1, sc_state := Active\<rparr>"
  have "synth_ok ?t" using assms(1) start by (simp add: synth_ok_def)
  then have "ticks_left (snd (SynthClock_emit_active ?t)) < ticks_left ?t" by (rule ticks_left_emit) simp
  also have "\<dots> \<le> ticks_left s" using start by (simp add: ticks_left_def)
  finally show ?thesis using start by simp
qed (use assms in \<open>simp_all add: ticks_left_emit\<close>)

lemma synth_comes_to_rest:
  "synth_ok s \<Longrightarrow> ticks_left s \<le> n \<Longrightarrow> sc_state (synth_end s (replicate n Grid_Tick)) = Idle"
proof (induction n arbitrary: s)
  case 0
  then show ?case by (auto simp: ticks_left_def synth_ok_def split: synth_state.splits if_splits)
next
  case (Suc n)
  let ?s = "snd (synth_apply s Grid_Tick)"
  have s: "?s = snd (SynthClock_drain_tick s)" by (simp add: tick_apply split: prod.split option.split)
  have "ticks_left ?s \<le> n"
  proof (cases "sc_state s = Idle")
    case True
    then show ?thesis by (simp add: s SynthClock_drain_tick_def ticks_left_def)
  next
    case False
    then show ?thesis using ticks_left_drain [OF Suc.prems(1)] Suc.prems(2) by (simp add: s)
  qed
  with Suc.IH [OF synth_ok_apply [OF Suc.prems(1), of Grid_Tick]] show ?case by simp
qed

lemma ticks_play:
  "synth_ok s \<Longrightarrow> played (synth_out s (replicate n Grid_Tick)) @ sc_queue (synth_end s (replicate n Grid_Tick)) = sc_queue s"
proof (induction n arbitrary: s)
  case (Suc n)
  from Suc.IH [OF synth_ok_apply [OF Suc.prems, of Grid_Tick]] drain_audio(1) [OF Suc.prems] show ?case
    by (simp only: replicate_Suc synth_run_simps played_append append_assoc)
qed (simp add: played_def)

section \<open>Properties\<close>

text \<open>Whatever is pushed and however the ticks fall, the packets a source without a clock
  puts out form one contiguous stream: the sequence number advances by one and the timestamp
  by one 20 ms step from each packet to the next, silence included, wrapping at the end of
  their ranges.\<close>

lemma synth_contiguous:
  "map (\<lambda>(pkt, _). (pk_sequence_number pkt, pk_timestamp pkt, pk_ssrc pkt))
       (synth_out (synth_clock_new source_id clock_rate ssrc seq ts) evs)
   = map (\<lambda>k. (seq + of_nat k, ts + of_nat k * (clock_rate div 50), ssrc))
       [0..<length (synth_out (synth_clock_new source_id clock_rate ssrc seq ts) evs)]"
proof -
  let ?s = "synth_clock_new source_id clock_rate ssrc seq ts"
  have "sc_seq ?s = seq" "sc_ts ?s = ts" "sc_ssrc ?s = ssrc" "sc_ts_step ?s = clock_rate div 50"
    by (simp_all add: synth_clock_new_def Let_def)
  with synth_timeline [of _ ?s evs] show ?thesis
    by (intro nth_equalityI) (auto simp: stamped_def split_beta)
qed

text \<open>C30. The frames played, followed by those still queued, are the frames pushed, in order,
  but for the ones the overflow counter counts; and the buffer never holds more than 14
  frames (280 ms) nor asks for a cushion outside 3 to 7 frames.\<close>

theorem synth_plays_in_order:
  "let s = synth_clock_new source_id clock_rate ssrc seq ts;
       kept = played (synth_out s evs) @ sc_queue (synth_end s evs)
   in subseq kept (pushed evs)
      \<and> pc_overflow_drops (sc_counters (synth_end s evs)) = of_nat (length (pushed evs) - length kept)
      \<and> length (sc_queue (synth_end s evs)) \<le> 14
      \<and> sc_target_frames (synth_end s evs) \<in> {3..7}"
proof -
  let ?s = "synth_clock_new source_id clock_rate ssrc seq ts"
  have new: "sc_queue ?s = []" "pc_overflow_drops (sc_counters ?s) = 0"
    by (simp_all add: synth_clock_new_def PlayoutCounters_default_def Let_def)
  have "synth_ok (synth_end ?s evs)" by (rule synth_ok_run [OF synth_ok_new])
  with synth_audio [OF synth_ok_new, of source_id clock_rate ssrc seq ts evs] new show ?thesis
    by (simp add: Let_def synth_ok_def)
qed

text \<open>Exactly one packet of each talkspurt carries the marker bit, and it carries a pushed
  frame, never silence; only the newest talkspurt may still be waiting for its marked
  packet.\<close>

lemma synth_one_marker_per_spurt:
  "let s = synth_clock_new source_id clock_rate ssrc seq ts in
   length (filter (pk_marker \<circ> fst) (synth_out s evs)) + of_bool (sc_pending_marker (synth_end s evs))
     = spurts s evs
   \<and> (\<forall>(pkt, real) \<in> set (synth_out s evs). pk_marker pkt \<longrightarrow> real)"
proof -
  have "\<not> sc_pending_marker (synth_clock_new source_id clock_rate ssrc seq ts)"
    by (simp add: synth_clock_new_def Let_def)
  with synth_markers [OF synth_ok_new, of source_id clock_rate ssrc seq ts evs] show ?thesis
    by (simp add: Let_def)
qed

lemma synth_one_marker_per_spurt_witness:
  "let s = synth_clock_new 1 8000 2 3 4;
       evs = [Push_Frame [1], Grid_Tick, Grid_Tick, Grid_Tick] in
   length (filter (pk_marker \<circ> fst) (synth_out s evs)) + of_bool (sc_pending_marker (synth_end s evs)) = 1"
proof -
  have "spurts (synth_clock_new 1 8000 2 3 4) [Push_Frame [1], Grid_Tick, Grid_Tick, Grid_Tick] = 1"
    by (simp add: synth_clock_new_def Let_def SynthClock_push_def drop_oldest_eq start_spurt_def)
  with synth_one_marker_per_spurt [of 1 8000 2 3 4 "[Push_Frame [1], Grid_Tick, Grid_Tick, Grid_Tick]"]
  show ?thesis by (simp only: Let_def)
qed

text \<open>A source that stops pushing is played out and falls silent: from whatever state a run
  has led to, 25 ticks later the buffer is idle and every frame it held has been emitted, so
  a short utterance does not stall and the grid does not keep ticking.\<close>

lemma synth_comes_to_rest_in_25_ticks:
  "let s = synth_end (synth_clock_new source_id clock_rate ssrc seq ts) evs in
   sc_state (synth_end s (replicate 25 Grid_Tick)) = Idle
   \<and> played (synth_out s (replicate 25 Grid_Tick)) = sc_queue s"
proof -
  let ?s = "synth_end (synth_clock_new source_id clock_rate ssrc seq ts) evs"
  let ?ticks = "replicate 25 Grid_Tick"
  have ok: "synth_ok ?s" by (rule synth_ok_run [OF synth_ok_new])
  then have "ticks_left ?s \<le> 25"
    by (auto simp: ticks_left_def synth_ok_def split: synth_state.splits)
  with synth_comes_to_rest [OF ok] have rest: "sc_state (synth_end ?s ?ticks) = Idle" by blast
  have "synth_ok (synth_end ?s ?ticks)" by (rule synth_ok_run [OF ok])
  with rest have empty: "sc_queue (synth_end ?s ?ticks) = []" by (simp add: synth_ok_def)
  from ticks_play [OF ok, of 25] rest empty show ?thesis by (simp only: Let_def append_Nil2)
qed

end
