(* ===== verification/Playout_Tracked.thy ===== *)
theory Playout_Tracked
  imports Containers Seq_Tracking Audio_Codec Playout_Synth
begin

unbundle bit_operations_syntax

text \<open>
  The playout buffer of a network source (\<open>TrackedClock\<close> of \<open>src/src/session/playout.rs\<close>):
  packets are put in sender order by their extended sequence number, and released either
  against the sender's clock (when they feed a mixer) or as soon as they are in order.
  Adding a duration to an \<open>Instant\<close> or taking one away does not leave its range (on the
  platforms the program targets it is a signed 64-bit count of seconds), so \<open>checked_sub\<close>
  always succeeds.
\<close>

section \<open>Definitions\<close>

definition FRAME :: duration where "FRAME = from_millis 20"
definition TRACKED_SHALLOW_MS :: nat where "TRACKED_SHALLOW_MS = 40"
definition TRACKED_MIXER_TARGET_MS :: nat where "TRACKED_MIXER_TARGET_MS = 60"
definition TRACKED_MIXER_MAX_MS :: nat where "TRACKED_MIXER_MAX_MS = 200"
definition TRACKED_MAX_FRAMES :: nat where "TRACKED_MAX_FRAMES = 16"
definition REORDER_MAX_FRAMES :: nat where "REORDER_MAX_FRAMES = 256"
definition REORDER_DEPTH :: nat where "REORDER_DEPTH = 3"
definition TRACKED_GAP_RESET :: duration where "TRACKED_GAP_RESET = from_millis 200"

lemmas tracked_consts = FRAME_def TRACKED_SHALLOW_MS_def TRACKED_MIXER_TARGET_MS_def
  TRACKED_MIXER_MAX_MS_def TRACKED_MAX_FRAMES_def REORDER_MAX_FRAMES_def REORDER_DEPTH_def
  TRACKED_GAP_RESET_def from_millis_def

record tracked_clock =
  tc_format :: "(audio_codec \<times> u8) option"
  tc_source_id :: endpoint_id
  tc_clock_rate :: u32
  tc_ssrc :: "u32 option"
  tc_roc :: u32
  tc_max_seq :: u16
  tc_seen_any :: bool
  tc_last_emitted_ext :: "u64 option"
  tc_last_arrival :: "instant option"
  tc_anchor :: "(u32 \<times> instant) option"
  tc_target_delay :: duration
  tc_max_delay :: duration
  tc_mixer_fed :: bool
  tc_max_frames :: nat
  tc_queue :: "(u64, routed_rtp_packet) btree_map"
  tc_pending_marker :: bool
  tc_underflow_run :: u32
  tc_counters :: playout_counters

text \<open>\<open>PlayoutBuffer::tracked\<close>.\<close>

definition tracked_clock_new :: "endpoint_id \<Rightarrow> u32 \<Rightarrow> bool \<Rightarrow> tracked_clock" where
  "tracked_clock_new source_id clock_rate mixer_fed =
     \<lparr>tc_format = None, tc_source_id = source_id, tc_clock_rate = max clock_rate 1, tc_ssrc = None,
      tc_roc = 0, tc_max_seq = 0, tc_seen_any = False, tc_last_emitted_ext = None,
      tc_last_arrival = None, tc_anchor = None,
      tc_target_delay = from_millis (if mixer_fed then TRACKED_MIXER_TARGET_MS else TRACKED_SHALLOW_MS),
      tc_max_delay = from_millis (if mixer_fed then TRACKED_MIXER_MAX_MS else TRACKED_SHALLOW_MS),
      tc_mixer_fed = mixer_fed,
      tc_max_frames = (if mixer_fed then TRACKED_MAX_FRAMES else REORDER_MAX_FRAMES),
      tc_queue = [], tc_pending_marker = True, tc_underflow_run = 0,
      tc_counters = PlayoutCounters_default\<rparr>"

definition TrackedClock_reset :: "tracked_clock \<Rightarrow> u32 \<Rightarrow> tracked_clock" where
  "TrackedClock_reset c ssrc =
     c\<lparr>tc_ssrc := Some ssrc, tc_roc := 0, tc_seen_any := False, tc_last_emitted_ext := None,
       tc_last_arrival := None, tc_anchor := None, tc_queue := [], tc_pending_marker := True,
       tc_underflow_run := 0\<rparr>"

text \<open>The extended sequence number, and the state it leaves; only a packet ahead of the newest
  one moves the state.\<close>

definition ext_seq :: "u32 \<Rightarrow> u16 \<Rightarrow> u64" where
  "ext_seq roc seq = push_bit 16 (ucast roc) OR ucast seq"

definition TrackedClock_extend_seq :: "tracked_clock \<Rightarrow> u16 \<Rightarrow> u64 option \<times> tracked_clock" where
  "TrackedClock_extend_seq c seq =
     (if \<not> tc_seen_any c then
        (Some (ext_seq (tc_roc c) seq), c\<lparr>tc_seen_any := True, tc_max_seq := seq\<rparr>)
      else
        let forward = seq - tc_max_seq c in
        if forward < 0x8000 then
          let c = (if seq < tc_max_seq c then c\<lparr>tc_roc := tc_roc c + 1\<rparr> else c);
              c = c\<lparr>tc_max_seq := seq\<rparr>
          in (Some (ext_seq (tc_roc c) seq), c)
        else if tc_max_seq c < seq then
          if tc_roc c = 0 then (None, c) else (Some (ext_seq (tc_roc c - 1) seq), c)
        else (Some (ext_seq (tc_roc c) seq), c))"

definition count_late :: "tracked_clock \<Rightarrow> tracked_clock" where
  "count_late c = c\<lparr>tc_counters := (tc_counters c)\<lparr>pc_late_drops := pc_late_drops (tc_counters c) + 1\<rparr>\<rparr>"

text \<open>The overflow loop sheds the oldest packets; it reports whether it dropped any.\<close>

definition shed_oldest :: "tracked_clock \<Rightarrow> u64 \<Rightarrow> tracked_clock" where
  "shed_oldest c oldest =
     c\<lparr>tc_queue := bt_remove oldest (tc_queue c), tc_last_emitted_ext := Some oldest,
       tc_counters := (tc_counters c)\<lparr>pc_overflow_drops := pc_overflow_drops (tc_counters c) + 1\<rparr>\<rparr>"

lemma bt_len_remove_first: "bt_first m = Some (k, v) \<Longrightarrow> Suc (bt_len (bt_remove k m)) = bt_len m"
  by (cases m) (auto simp: bt_first_def bt_len_def)

function shed_overflow :: "tracked_clock \<Rightarrow> bool \<Rightarrow> bool \<times> tracked_clock" where
  "shed_overflow c dropped =
     (if tc_max_frames c < bt_len (tc_queue c) then
        case bt_first (tc_queue c) of
          Some (oldest, _) \<Rightarrow> shed_overflow (shed_oldest c oldest) True
        | None \<Rightarrow> (dropped, c)
      else (dropped, c))"
  by pat_completeness auto

termination
  by (relation "measure (\<lambda>(c, _). bt_len (tc_queue c))")
    (auto simp: shed_oldest_def dest!: bt_len_remove_first)

declare shed_overflow.simps [simp del]

definition note_source :: "tracked_clock \<Rightarrow> u32 \<Rightarrow> tracked_clock" where
  "note_source c ssrc =
     (case tc_ssrc c of
        Some cur \<Rightarrow> if cur = ssrc then c else TrackedClock_reset c ssrc
      | None \<Rightarrow> c\<lparr>tc_ssrc := Some ssrc\<rparr>)"

definition note_arrival :: "tracked_clock \<Rightarrow> instant \<Rightarrow> tracked_clock" where
  "note_arrival c arrival =
     (let gap = (case tc_last_arrival c of
                   Some prev \<Rightarrow> TRACKED_GAP_RESET < saturating_duration_since arrival prev
                 | None \<Rightarrow> False);
          c = (if tc_queue c = [] \<and> gap
               then c\<lparr>tc_anchor := None, tc_pending_marker := True, tc_underflow_run := 0\<rparr> else c)
      in c\<lparr>tc_last_arrival := Some arrival\<rparr>)"

definition enqueue :: "tracked_clock \<Rightarrow> u64 \<Rightarrow> routed_rtp_packet \<Rightarrow> instant \<Rightarrow> tracked_clock" where
  "enqueue c ext pkt arrival =
     (let c = (if tc_anchor c = None
               then c\<lparr>tc_anchor := Some (pk_timestamp pkt, arrival + int (tc_target_delay c))\<rparr> else c);
          c = c\<lparr>tc_queue := bt_insert ext pkt (tc_queue c)\<rparr>;
          (dropped, c) = shed_overflow c False
      in case bt_first (tc_queue c) of
           Some (_, head) \<Rightarrow>
             if dropped
             then c\<lparr>tc_anchor := Some (pk_timestamp head, arrival + int (tc_target_delay c))\<rparr> else c
         | None \<Rightarrow> c)"

definition TrackedClock_push :: "tracked_clock \<Rightarrow> routed_rtp_packet \<Rightarrow> instant \<Rightarrow> tracked_clock" where
  "TrackedClock_push c pkt arrival =
     (let c = note_arrival (note_source c (pk_ssrc pkt)) arrival in
      case TrackedClock_extend_seq c (pk_sequence_number pkt) of
        (None, c) \<Rightarrow> count_late c
      | (Some ext, c) \<Rightarrow>
          if (case tc_last_emitted_ext c of Some emitted \<Rightarrow> ext \<le> emitted | None \<Rightarrow> False)
          then count_late c
          else enqueue c ext pkt arrival)"

definition saturating_mul_u64 :: "nat \<Rightarrow> nat \<Rightarrow> nat" where
  "saturating_mul_u64 a b = min (a * b) (2 ^ 64 - 1)"

definition TrackedClock_play_time :: "tracked_clock \<Rightarrow> u32 \<Rightarrow> u32 \<Rightarrow> instant \<Rightarrow> instant" where
  "TrackedClock_play_time c ts anchor_ts anchor_play =
     (let fwd = ts - anchor_ts in
      if fwd < 0x80000000 then
        let micros = saturating_mul_u64 (unat fwd) 1000000 div unat (tc_clock_rate c)
        in anchor_play + int (from_micros micros)
      else
        let back = anchor_ts - ts;
            micros = saturating_mul_u64 (unat back) 1000000 div unat (tc_clock_rate c)
        in anchor_play - int (from_micros micros))"

text \<open>\<open>take_head\<close> panics when the packet is missing; here that is \<open>None\<close>.\<close>

definition TrackedClock_take_head :: "tracked_clock \<Rightarrow> u64 \<Rightarrow> routed_rtp_packet option \<times> tracked_clock" where
  "TrackedClock_take_head c ext =
     (case bt_get (tc_queue c) ext of
        None \<Rightarrow> (None, c)
      | Some pkt \<Rightarrow>
          let c = c\<lparr>tc_queue := bt_remove ext (tc_queue c), tc_last_emitted_ext := Some ext\<rparr>;
              pkt = (if tc_pending_marker c then pkt\<lparr>pk_marker := True\<rparr> else pkt);
              c = c\<lparr>tc_pending_marker := False\<rparr>
          in (Some (pkt\<lparr>pk_source_endpoint_id := tc_source_id c\<rparr>), c))"

definition note_underflow :: "tracked_clock \<Rightarrow> tracked_clock" where
  "note_underflow c =
     (let c = c\<lparr>tc_underflow_run := tc_underflow_run c + 1\<rparr> in
      if 3 \<le> tc_underflow_run c \<and> tc_target_delay c < tc_max_delay c
      then c\<lparr>tc_target_delay := min (tc_target_delay c + FRAME) (tc_max_delay c), tc_underflow_run := 0\<rparr>
      else c)"

definition skip_stale :: "tracked_clock \<Rightarrow> u64 \<Rightarrow> tracked_clock" where
  "skip_stale c ext =
     count_late (c\<lparr>tc_queue := bt_remove ext (tc_queue c), tc_last_emitted_ext := Some ext\<rparr>)"

function paced_loop :: "u32 \<Rightarrow> instant \<Rightarrow> instant \<Rightarrow> tracked_clock \<Rightarrow> routed_rtp_packet option \<times> tracked_clock" where
  "paced_loop anchor_ts anchor_play grid_now c =
     (case bt_first (tc_queue c) of
        None \<Rightarrow> (None, note_underflow c)
      | Some (head_ext, head) \<Rightarrow>
          let play = TrackedClock_play_time c (pk_timestamp head) anchor_ts anchor_play in
          if grid_now < play then (None, c)
          else if tc_max_delay c < saturating_duration_since grid_now play
          then paced_loop anchor_ts anchor_play grid_now (skip_stale c head_ext)
          else TrackedClock_take_head (c\<lparr>tc_underflow_run := 0\<rparr>) head_ext)"
  by pat_completeness auto

termination
  by (relation "measure (\<lambda>(_, _, _, c). bt_len (tc_queue c))")
    (auto simp: skip_stale_def count_late_def dest!: bt_len_remove_first)

declare paced_loop.simps [simp del]

definition TrackedClock_drain_paced :: "tracked_clock \<Rightarrow> instant \<Rightarrow> routed_rtp_packet option \<times> tracked_clock" where
  "TrackedClock_drain_paced c grid_now =
     (case tc_anchor c of
        None \<Rightarrow> (None, c)
      | Some (anchor_ts, anchor_play) \<Rightarrow> paced_loop anchor_ts anchor_play grid_now c)"

definition TrackedClock_drain_reorder :: "tracked_clock \<Rightarrow> routed_rtp_packet option \<times> tracked_clock" where
  "TrackedClock_drain_reorder c =
     (case bt_first (tc_queue c) of
        None \<Rightarrow> (None, c)
      | Some (head_ext, _) \<Rightarrow>
          let releasable = (case tc_last_emitted_ext c of
                None \<Rightarrow> True
              | Some emitted \<Rightarrow> head_ext = emitted + 1 \<or> REORDER_DEPTH \<le> bt_len (tc_queue c))
          in if releasable then TrackedClock_take_head c head_ext else (None, c))"

definition TrackedClock_drain_tick :: "tracked_clock \<Rightarrow> instant \<Rightarrow> routed_rtp_packet option \<times> tracked_clock" where
  "TrackedClock_drain_tick c grid_now =
     (if tc_mixer_fed c then TrackedClock_drain_paced c grid_now else TrackedClock_drain_reorder c)"

section \<open>The rebuilt sequence number\<close>

definition tracked_high :: "tracked_clock \<Rightarrow> nat" where
  "tracked_high c = ext_index (tc_roc c) (tc_max_seq c)"

lemma unat_ext_seq: "unat (ext_seq roc seq) = ext_index roc seq"
  by (simp add: ext_seq_def unat_ext_index)

lemma unat_diff_u16:
  "unat (a - b) = (if unat b \<le> unat a then unat a - unat b else unat a + 65536 - unat b)" for a b :: u16
  by (simp add: unat_sub_if')

lemma extend_seq_first:
  "\<not> tc_seen_any c \<Longrightarrow> tc_roc c = 0 \<Longrightarrow> i < 65536 \<Longrightarrow>
     TrackedClock_extend_seq c (of_nat i) = (Some (ext_seq 0 (of_nat i)), c\<lparr>tc_seen_any := True, tc_max_seq := of_nat i\<rparr>)
     \<and> unat (ext_seq 0 (of_nat i)) = i"
  by (simp add: TrackedClock_extend_seq_def unat_ext_seq ext_index_def unat_of_nat_seq)

lemma extend_seq_near:
  assumes seen: "tc_seen_any c" and near: "near (2 ^ 48) (tracked_high c) i"
  shows "\<exists>e c'. TrackedClock_extend_seq c (of_nat i) = (Some e, c') \<and> unat e = i
     \<and> tc_seen_any c' \<and> tracked_high c' = max (tracked_high c) i"
proof -
  let ?s = "of_nat i :: u16" and ?m = "tc_max_seq c" and ?r = "tc_roc c"
  have s: "unat ?s = i mod 65536" by (rule unat_of_nat_seq)
  have m: "unat ?m < 65536" by (rule unat_u16_less)
  have i: "i = 65536 * (i div 65536) + i mod 65536" by simp
  note h = tracked_high_def [of c] ext_index_def [of ?r ?m]
  have bounds: "i \<le> unat ?r * 65536 + unat ?m + 0x7FFF" "unat ?r * 65536 + unat ?m \<le> i + 0x7FFF"
    using near by (simp_all add: near_def h)
  note ext = TrackedClock_extend_seq_def Let_def word_less_nat_alt unat_diff_u16 s unat_ext_seq
    ext_index_def tracked_high_def
  from near [unfolded tracked_high_def] show ?thesis
  proof (cases rule: near_epochs)
    case same
    with i have i': "i = unat ?r * 65536 + i mod 65536" by simp
    with bounds have "unat ?m \<le> i mod 65536 \<Longrightarrow> i mod 65536 - unat ?m < 0x8000"
      "\<not> unat ?m \<le> i mod 65536 \<Longrightarrow> \<not> i mod 65536 + 65536 - unat ?m < 0x8000"
      using m by linarith+
    with i' show ?thesis using bounds m seen
      by (cases "unat ?m \<le> i mod 65536") (simp_all add: ext)
  next
    case next_epoch
    with i have i': "i = Suc (unat ?r) * 65536 + i mod 65536" by simp
    with next_epoch m show ?thesis using seen
      by (simp add: ext unat_succ_u32)
  next
    case prev_epoch
    have "i + 65536 = Suc (i div 65536) * 65536 + i mod 65536" by simp
    then have i': "i + 65536 = unat ?r * 65536 + i mod 65536" unfolding prev_epoch(1) .
    from prev_epoch(1) have r0: "?r \<noteq> 0" "0 < unat ?r" by (auto simp: unat_gt_0)
    have "unat ?m < i mod 65536" "\<not> i mod 65536 - unat ?m < 0x8000"
      "(unat ?r - 1) * 65536 + i mod 65536 = i" "i \<le> unat ?r * 65536 + unat ?m"
      using prev_epoch i' m mod_less_divisor [of 65536 i] by linarith+
    then show ?thesis using seen r0 by (simp add: ext unat_pred_u32 max_absorb1)
  qed
qed

interpretation playout_seq: index_tracker "2 ^ 48" tc_seen_any tracked_high
  "\<lambda>c s. snd (TrackedClock_extend_seq c s)" "\<lambda>c s. map_option unat (fst (TrackedClock_extend_seq c s))"
  by unfold_locales (drule (1) extend_seq_near, elim exE conjE, simp)+

lemma extend_seq_keeps [simp]:
  "tc_queue (snd (TrackedClock_extend_seq c s)) = tc_queue c"
  "tc_last_emitted_ext (snd (TrackedClock_extend_seq c s)) = tc_last_emitted_ext c"
  "tc_ssrc (snd (TrackedClock_extend_seq c s)) = tc_ssrc c"
  "tc_source_id (snd (TrackedClock_extend_seq c s)) = tc_source_id c"
  "tc_max_frames (snd (TrackedClock_extend_seq c s)) = tc_max_frames c"
  "tc_mixer_fed (snd (TrackedClock_extend_seq c s)) = tc_mixer_fed c"
  "tc_target_delay (snd (TrackedClock_extend_seq c s)) = tc_target_delay c"
  "tc_max_delay (snd (TrackedClock_extend_seq c s)) = tc_max_delay c"
  "tc_clock_rate (snd (TrackedClock_extend_seq c s)) = tc_clock_rate c"
  by (simp_all add: TrackedClock_extend_seq_def Let_def)

section \<open>What the queue holds\<close>

text \<open>The packets of \<open>S\<close> are queued under their index, all of them past the last one let go.\<close>

definition tracked_holds :: "(nat \<times> routed_rtp_packet) set \<Rightarrow> tracked_clock \<Rightarrow> bool" where
  "tracked_holds S c \<longleftrightarrow> bt_wf (tc_queue c)
     \<and> (\<forall>k p. bt_get (tc_queue c) k = Some p \<longrightarrow>
          (unat k, p) \<in> S \<and> (\<forall>e. tc_last_emitted_ext c = Some e \<longrightarrow> e < k))"

definition past :: "tracked_clock \<Rightarrow> nat \<Rightarrow> bool" where
  "past c j \<longleftrightarrow> (\<forall>e. tc_last_emitted_ext c = Some e \<longrightarrow> unat e < j)"

lemma holds_mono: "tracked_holds S c \<Longrightarrow> S \<subseteq> T \<Longrightarrow> tracked_holds T c"
  by (auto simp: tracked_holds_def)

lemma holds_cong:
  "tc_queue c' = tc_queue c \<Longrightarrow> tc_last_emitted_ext c' = tc_last_emitted_ext c \<Longrightarrow>
     tracked_holds S c' = tracked_holds S c \<and> past c' j = past c j"
  by (simp add: tracked_holds_def past_def)

lemma pop_head:
  assumes c: "tracked_holds S c" and hd: "bt_first (tc_queue c) = Some (k, p)"
    and c': "tc_queue c' = bt_remove k (tc_queue c)" "tc_last_emitted_ext c' = Some k"
  shows "tracked_holds S c'" "past c (unat k)" "(unat k, p) \<in> S" "past c' j \<Longrightarrow> past c j"
proof -
  have wf: "bt_wf (tc_queue c)" using c by (simp add: tracked_holds_def)
  have get: "bt_get (tc_queue c) k = Some p" by (rule bt.first_get [OF wf hd])
  show "tracked_holds S c'"
    using c c' bt.first_del_greater [OF wf hd]
    by (auto simp: tracked_holds_def split: if_splits)
  show past: "past c (unat k)" and "(unat k, p) \<in> S"
    using c get by (auto simp: tracked_holds_def past_def word_less_nat_alt)
  show "past c j" if "past c' j"
    using past that c'(2) by (auto simp: past_def)
qed

lemma shed_overflow_step:
  assumes "tc_max_frames c < bt_len (tc_queue c)" "bt_first (tc_queue c) = Some (k, p)"
  shows "shed_overflow c d = shed_overflow (shed_oldest c k) True"
  using assms by (subst shed_overflow.simps) simp

lemma shed_overflow_holds:
  "tracked_holds S c \<Longrightarrow>
     tracked_holds S (snd (shed_overflow c d)) \<and> (past (snd (shed_overflow c d)) j \<longrightarrow> past c j)
     \<and> bt_len (tc_queue (snd (shed_overflow c d))) \<le> tc_max_frames c"
proof (induction c d rule: shed_overflow.induct)
  case (1 c d)
  have wf: "bt_wf (tc_queue c)" using 1(2) by (simp add: tracked_holds_def)
  show ?case
  proof (cases "tc_max_frames c < bt_len (tc_queue c)")
    case True
    then obtain k p where hd: "bt_first (tc_queue c) = Some (k, p)"
      using bt.first_nonempty [OF wf] by fastforce
    note pop = pop_head [OF 1(2) hd, of "shed_oldest c k"]
    have "tc_max_frames (shed_oldest c k) = tc_max_frames c" by (simp add: shed_oldest_def)
    with 1(1) [OF True hd refl] pop show ?thesis
      unfolding shed_overflow_step [OF True hd] by (simp add: shed_oldest_def)
  next
    case False
    then have "shed_overflow c d = (d, c)" by (subst shed_overflow.simps) simp
    with False 1(2) show ?thesis by simp
  qed
qed

lemma shed_overflow_frame:
  "\<exists>q l n. snd (shed_overflow c d) = c\<lparr>tc_queue := q, tc_last_emitted_ext := l, tc_counters := n\<rparr>"
proof (induction c d rule: shed_overflow.induct)
  case (1 c d)
  show ?case
  proof (cases "tc_max_frames c < bt_len (tc_queue c) \<and> bt_first (tc_queue c) \<noteq> None")
    case True
    then obtain k p where hd: "tc_max_frames c < bt_len (tc_queue c)" "bt_first (tc_queue c) = Some (k, p)"
      by auto
    from 1 [OF hd refl] obtain q l n where
      "snd (shed_overflow (shed_oldest c k) True)
         = (shed_oldest c k)\<lparr>tc_queue := q, tc_last_emitted_ext := l, tc_counters := n\<rparr>" by blast
    then show ?thesis unfolding shed_overflow_step [OF hd] by (auto simp: shed_oldest_def)
  next
    case False
    then have "shed_overflow c d = (d, c)" by (subst shed_overflow.simps) (auto split: option.splits)
    then have "snd (shed_overflow c d) = c\<lparr>tc_queue := tc_queue c, tc_last_emitted_ext := tc_last_emitted_ext c,
        tc_counters := tc_counters c\<rparr>" by simp
    then show ?thesis by blast
  qed
qed

lemma enqueue_shape:
  "\<exists>a b. enqueue c ext pkt t
     = (snd (shed_overflow (c\<lparr>tc_anchor := a, tc_queue := bt_insert ext pkt (tc_queue c)\<rparr>) False))\<lparr>tc_anchor := b\<rparr>"
proof -
  define a where "a = (if tc_anchor c = None then Some (pk_timestamp pkt, t + int (tc_target_delay c)) else tc_anchor c)"
  have *: "(if tc_anchor c = None then c\<lparr>tc_anchor := Some (pk_timestamp pkt, t + int (tc_target_delay c))\<rparr> else c)
      = c\<lparr>tc_anchor := a\<rparr>" by (simp add: a_def)
  let ?s = "shed_overflow (c\<lparr>tc_anchor := a, tc_queue := bt_insert ext pkt (tc_queue c)\<rparr>) False"
  have "\<exists>b. enqueue c ext pkt t = (snd ?s)\<lparr>tc_anchor := b\<rparr>"
    unfolding enqueue_def * Let_def split_beta
    by (cases "bt_first (tc_queue (snd ?s))")
      (auto intro: exI [of _ "tc_anchor (snd ?s)"] exI [of _ "Some _"])
  then show ?thesis by blast
qed

text \<open>The fields that identify the stream and the sizes fixed at construction.\<close>

definition tracked_id :: "tracked_clock \<Rightarrow> _" where
  "tracked_id c = (tc_ssrc c, tc_roc c, tc_max_seq c, tc_seen_any c, tc_source_id c)"

definition tracked_cfg :: "tracked_clock \<Rightarrow> _" where
  "tracked_cfg c = (tc_max_frames c, tc_mixer_fed c, tc_max_delay c, tc_clock_rate c, tc_source_id c)"

lemma enqueue_keeps:
  "tracked_id (enqueue c ext pkt t) = tracked_id c" "tracked_cfg (enqueue c ext pkt t) = tracked_cfg c"
  "tc_target_delay (enqueue c ext pkt t) = tc_target_delay c"
proof -
  obtain a b where *: "enqueue c ext pkt t
     = (snd (shed_overflow (c\<lparr>tc_anchor := a, tc_queue := bt_insert ext pkt (tc_queue c)\<rparr>) False))\<lparr>tc_anchor := b\<rparr>"
    using enqueue_shape by blast
  obtain q l n where
    "snd (shed_overflow (c\<lparr>tc_anchor := a, tc_queue := bt_insert ext pkt (tc_queue c)\<rparr>) False)
     = c\<lparr>tc_anchor := a, tc_queue := q, tc_last_emitted_ext := l, tc_counters := n\<rparr>"
    using shed_overflow_frame [of "c\<lparr>tc_anchor := a, tc_queue := bt_insert ext pkt (tc_queue c)\<rparr>" False] by auto
  then show "tracked_id (enqueue c ext pkt t) = tracked_id c" "tracked_cfg (enqueue c ext pkt t) = tracked_cfg c"
    "tc_target_delay (enqueue c ext pkt t) = tc_target_delay c"
    unfolding * by (simp_all add: tracked_id_def tracked_cfg_def)
qed

lemma enqueue_holds:
  assumes c: "tracked_holds S c" and new: "\<forall>e. tc_last_emitted_ext c = Some e \<longrightarrow> e < ext"
  shows "tracked_holds (insert (unat ext, pkt) S) (enqueue c ext pkt t)"
    "past (enqueue c ext pkt t) j \<Longrightarrow> past c j"
    "bt_len (tc_queue (enqueue c ext pkt t)) \<le> tc_max_frames c"
proof -
  obtain a b where e: "enqueue c ext pkt t
     = (snd (shed_overflow (c\<lparr>tc_anchor := a, tc_queue := bt_insert ext pkt (tc_queue c)\<rparr>) False))\<lparr>tc_anchor := b\<rparr>"
    using enqueue_shape by blast
  let ?c = "c\<lparr>tc_anchor := a, tc_queue := bt_insert ext pkt (tc_queue c)\<rparr>"
  have "tracked_holds (insert (unat ext, pkt) S) ?c"
    using c new by (auto simp: tracked_holds_def)
  from shed_overflow_holds [OF this, of False j]
  show "tracked_holds (insert (unat ext, pkt) S) (enqueue c ext pkt t)"
    "past (enqueue c ext pkt t) j \<Longrightarrow> past c j"
    "bt_len (tc_queue (enqueue c ext pkt t)) \<le> tc_max_frames c"
    unfolding e by (auto simp: tracked_holds_def past_def)
qed

lemma note_arrival_keeps:
  "tc_queue (note_arrival c t) = tc_queue c" "tc_last_emitted_ext (note_arrival c t) = tc_last_emitted_ext c"
  "tracked_id (note_arrival c t) = tracked_id c" "tracked_cfg (note_arrival c t) = tracked_cfg c"
  "tc_target_delay (note_arrival c t) = tc_target_delay c"
  by (simp_all add: note_arrival_def Let_def tracked_id_def tracked_cfg_def)

lemma note_source_same:
  "tc_ssrc c = None \<or> tc_ssrc c = Some s \<Longrightarrow> note_source c s = c\<lparr>tc_ssrc := Some s\<rparr>"
  by (auto simp: note_source_def)

section \<open>One arrival\<close>

text \<open>The state after the source and the arrival time are noted, which the rest of \<open>push\<close> sees.\<close>

abbreviation noted :: "tracked_clock \<Rightarrow> routed_rtp_packet \<Rightarrow> instant \<Rightarrow> tracked_clock" where
  "noted c pkt t \<equiv> note_arrival (note_source c (pk_ssrc pkt)) t"

lemma push_cases:
  obtains (late) c' where "TrackedClock_push c pkt t = count_late c'"
      "c' = snd (TrackedClock_extend_seq (noted c pkt t) (pk_sequence_number pkt))"
    | (queued) c' ext where "TrackedClock_push c pkt t = enqueue c' ext pkt t"
      "TrackedClock_extend_seq (noted c pkt t) (pk_sequence_number pkt) = (Some ext, c')"
      "\<forall>e. tc_last_emitted_ext c' = Some e \<longrightarrow> e < ext"
proof (cases "TrackedClock_extend_seq (noted c pkt t) (pk_sequence_number pkt)")
  case (Pair r c')
  show thesis
  proof (cases r)
    case None
    with Pair show ?thesis by (intro late [of c']) (simp_all add: TrackedClock_push_def Let_def)
  next
    case (Some ext)
    show ?thesis
    proof (cases "\<forall>e. tc_last_emitted_ext c' = Some e \<longrightarrow> e < ext")
      case True
      with Pair Some show ?thesis
        by (intro queued [of c' ext])
          (auto simp: TrackedClock_push_def Let_def dest: leD split: option.splits)
    next
      case False
      with Pair Some show ?thesis
        by (intro late [of c']) (auto simp: TrackedClock_push_def Let_def not_less split: option.splits)
    qed
  qed
qed

lemma count_late_keeps [simp]:
  "tc_queue (count_late c) = tc_queue c" "tc_last_emitted_ext (count_late c) = tc_last_emitted_ext c"
  "tracked_id (count_late c) = tracked_id c" "tracked_cfg (count_late c) = tracked_cfg c"
  "tc_target_delay (count_late c) = tc_target_delay c"
  by (simp_all add: count_late_def tracked_id_def tracked_cfg_def)

text \<open>An arrival whose index the sequence state rebuilds as \<open>i\<close> leaves the queue holding it as \<open>i\<close>,
  or drops it.\<close>

lemma push_holds:
  assumes c: "tracked_holds S c" and ssrc: "tc_ssrc c = None \<or> tc_ssrc c = Some (pk_ssrc pkt)"
    and ext: "\<forall>e. fst (TrackedClock_extend_seq (noted c pkt t) (pk_sequence_number pkt)) = Some e \<longrightarrow> unat e = i"
  shows "tracked_holds (insert (i, pkt) S) (TrackedClock_push c pkt t)"
    and "past (TrackedClock_push c pkt t) j \<Longrightarrow> past c j"
    and "tracked_id (TrackedClock_push c pkt t)
      = tracked_id (snd (TrackedClock_extend_seq (noted c pkt t) (pk_sequence_number pkt)))"
proof -
  let ?e = "snd (TrackedClock_extend_seq (noted c pkt t) (pk_sequence_number pkt))"
  have q: "tc_queue ?e = tc_queue c" "tc_last_emitted_ext ?e = tc_last_emitted_ext c"
    by (simp_all add: note_arrival_keeps note_source_same [OF ssrc])
  note e = holds_cong [OF q]
  show "tracked_holds (insert (i, pkt) S) (TrackedClock_push c pkt t)"
    and "past (TrackedClock_push c pkt t) j \<Longrightarrow> past c j"
    and "tracked_id (TrackedClock_push c pkt t) = tracked_id ?e"
  proof (atomize (full), cases rule: push_cases [of c pkt t])
    case (late c')
    have "tracked_holds (insert (i, pkt) S) c'" "past c' j \<longleftrightarrow> past c j"
      using e c late(2) holds_mono [of S c "insert (i, pkt) S"] by auto
    then show "tracked_holds (insert (i, pkt) S) (TrackedClock_push c pkt t)
       \<and> (past (TrackedClock_push c pkt t) j \<longrightarrow> past c j) \<and> tracked_id (TrackedClock_push c pkt t) = tracked_id ?e"
      using late holds_cong [of "count_late c'" c'] by simp
  next
    case (queued c' k)
    with ext have "unat k = i" by simp
    with queued e c enqueue_holds [of S c' k pkt t] show "tracked_holds (insert (i, pkt) S) (TrackedClock_push c pkt t)
       \<and> (past (TrackedClock_push c pkt t) j \<longrightarrow> past c j) \<and> tracked_id (TrackedClock_push c pkt t) = tracked_id ?e"
      by (auto simp: enqueue_keeps)
  qed
qed

section \<open>One tick\<close>

text \<open>The packet handed out is the one that came in, relayed with the source and perhaps marked.\<close>

definition relayed :: "endpoint_id \<Rightarrow> routed_rtp_packet \<Rightarrow> routed_rtp_packet \<Rightarrow> bool" where
  "relayed src p q \<longleftrightarrow> (\<exists>m. q = p\<lparr>pk_source_endpoint_id := src, pk_marker := pk_marker p \<or> m\<rparr>)"

lemma relayed_marked [simp]:
  "relayed src p (p\<lparr>pk_source_endpoint_id := src, pk_marker := pk_marker p \<or> m\<rparr>)"
  unfolding relayed_def by blast

lemma take_head_first:
  assumes "bt_first (tc_queue c) = Some (k, p)"
  shows "TrackedClock_take_head c k =
    (Some (p\<lparr>pk_source_endpoint_id := tc_source_id c, pk_marker := pk_marker p \<or> tc_pending_marker c\<rparr>),
     c\<lparr>tc_queue := bt_remove k (tc_queue c), tc_last_emitted_ext := Some k, tc_pending_marker := False\<rparr>)"
proof -
  have "bt_get (tc_queue c) k = Some p"
    using assms by (cases "tc_queue c") (auto simp: bt_first_def bt_get_def)
  then show ?thesis by (simp add: TrackedClock_take_head_def Let_def)
qed

text \<open>What a tick of either discipline does to a buffer.\<close>

definition tick_ok :: "(nat \<times> routed_rtp_packet) set \<Rightarrow> tracked_clock \<Rightarrow> routed_rtp_packet option \<times> tracked_clock \<Rightarrow> bool" where
  "tick_ok S c rc \<longleftrightarrow> (let (r, c') = rc in
     tracked_holds S c' \<and> tracked_id c' = tracked_id c \<and> tracked_cfg c' = tracked_cfg c
     \<and> (\<forall>j. past c' j \<longrightarrow> past c j)
     \<and> bt_len (tc_queue c') \<le> bt_len (tc_queue c)
     \<and> tc_target_delay c \<le> tc_target_delay c' \<and> (tc_target_delay c \<le> tc_max_delay c \<longrightarrow> tc_target_delay c' \<le> tc_max_delay c)
     \<and> (\<forall>q. r = Some q \<longrightarrow> bt_len (tc_queue c') < bt_len (tc_queue c)
          \<and> (\<exists>k p. (unat k, p) \<in> S \<and> relayed (tc_source_id c) p q \<and> past c (unat k)
               \<and> tc_last_emitted_ext c' = Some k)))"

lemma tick_ok_None: "tracked_holds S c \<Longrightarrow> tick_ok S c (None, c)"
  by (simp add: tick_ok_def)

lemma tick_ok_trans:
  assumes "tick_ok S c (None, d)" "tick_ok S d (r, e)"
  shows "tick_ok S c (r, e)"
proof -
  have ids: "tc_source_id d = tc_source_id c" "tc_max_delay d = tc_max_delay c"
    using assms(1) by (auto simp: tick_ok_def tracked_cfg_def)
  show ?thesis
    using assms unfolding tick_ok_def Let_def split_conv ids
    by (auto intro: order_trans dest: order_less_le_trans) (meson order_less_le_trans | blast)+
qed

lemma tick_ok_take:
  assumes c: "tracked_holds S c" and hd: "bt_first (tc_queue c) = Some (k, p)"
  shows "tick_ok S c (TrackedClock_take_head c k)"
proof -
  have wf: "bt_wf (tc_queue c)" using c by (simp add: tracked_holds_def)
  let ?c = "c\<lparr>tc_queue := bt_remove k (tc_queue c), tc_last_emitted_ext := Some k, tc_pending_marker := False\<rparr>"
  note pop = pop_head [OF c hd, of ?c]
  with relayed_marked show ?thesis
    unfolding take_head_first [OF hd] tick_ok_def
    using bt.pop_first_len [OF wf hd] by (auto simp: tracked_id_def tracked_cfg_def)
qed

lemma tick_ok_skip:
  assumes c: "tracked_holds S c" and hd: "bt_first (tc_queue c) = Some (k, p)"
  shows "tick_ok S c (None, skip_stale c k)"
proof -
  have wf: "bt_wf (tc_queue c)" using c by (simp add: tracked_holds_def)
  show ?thesis
    using pop_head [OF c hd, of "skip_stale c k"] bt.pop_first_len [OF wf hd]
    by (simp add: skip_stale_def tick_ok_def) (simp add: count_late_def tracked_id_def tracked_cfg_def)
qed

lemma tick_ok_underflow: "tracked_holds S c \<Longrightarrow> tick_ok S c (None, note_underflow c)"
  by (auto simp: tick_ok_def note_underflow_def Let_def tracked_id_def tracked_cfg_def tracked_holds_def past_def)

lemma tick_ok_rearm:
  assumes "tick_ok S (c\<lparr>tc_underflow_run := u\<rparr>) rc"
  shows "tick_ok S c rc"
  using assms by (simp add: tick_ok_def tracked_id_def tracked_cfg_def past_def)

lemma paced_loop_ok: "tracked_holds S c \<Longrightarrow> tick_ok S c (paced_loop ts play now c)"
proof (induction ts play now c rule: paced_loop.induct)
  case (1 ts play now c)
  show ?case
  proof (cases "bt_first (tc_queue c)")
    case None
    then show ?thesis using 1(2) by (subst paced_loop.simps) (simp add: tick_ok_underflow)
  next
    case (Some kp)
    then obtain k p where hd: "bt_first (tc_queue c) = Some (k, p)" by (cases kp) auto
    let ?play = "TrackedClock_play_time c (pk_timestamp p) ts play"
    consider (early) "now < ?play"
      | (stale) "\<not> now < ?play" "tc_max_delay c < saturating_duration_since now ?play"
      | (due) "\<not> now < ?play" "\<not> tc_max_delay c < saturating_duration_since now ?play" by blast
    then show ?thesis
    proof cases
      case early
      then show ?thesis using hd 1(2) by (subst paced_loop.simps) (simp add: tick_ok_None)
    next
      case stale
      have skip: "tick_ok S c (None, skip_stale c k)" by (rule tick_ok_skip [OF 1(2) hd])
      then have "tick_ok S (skip_stale c k) (paced_loop ts play now (skip_stale c k))"
        by (intro 1(1) [OF hd refl refl stale]) (simp add: tick_ok_def)
      with skip have "tick_ok S c (paced_loop ts play now (skip_stale c k))"
        by (metis tick_ok_trans surj_pair)
      moreover have "paced_loop ts play now c = paced_loop ts play now (skip_stale c k)"
        using hd stale by (subst paced_loop.simps) simp
      ultimately show ?thesis by simp
    next
      case due
      have "tracked_holds S (c\<lparr>tc_underflow_run := 0\<rparr>)" using 1(2) by (simp add: tracked_holds_def)
      then have "tick_ok S c (TrackedClock_take_head (c\<lparr>tc_underflow_run := 0\<rparr>) k)"
        using hd by (intro tick_ok_rearm [OF tick_ok_take]) simp_all
      moreover have "paced_loop ts play now c = TrackedClock_take_head (c\<lparr>tc_underflow_run := 0\<rparr>) k"
        using hd due by (subst paced_loop.simps) simp
      ultimately show ?thesis by simp
    qed
  qed
qed

lemma drain_tick_ok: "tracked_holds S c \<Longrightarrow> tick_ok S c (TrackedClock_drain_tick c now)"
  by (auto simp: TrackedClock_drain_tick_def TrackedClock_drain_paced_def TrackedClock_drain_reorder_def
      Let_def tick_ok_None tick_ok_take paced_loop_ok split: option.splits)

section \<open>Runs of the buffer\<close>

text \<open>A run is a sequence of arrivals and ticks.  An arrival carries, beside the packet, its true
  index at the sender, of which the packet holds the low 16 bits.\<close>

datatype tracked_event = Arrives nat routed_rtp_packet instant | Ticks instant

fun tracked_apply :: "tracked_clock \<Rightarrow> tracked_event \<Rightarrow> routed_rtp_packet option \<times> tracked_clock" where
  "tracked_apply c (Arrives i p t) = (None, TrackedClock_push c p t)"
| "tracked_apply c (Ticks now) = TrackedClock_drain_tick c now"

fun tracked_outs :: "tracked_clock \<Rightarrow> tracked_event list \<Rightarrow> routed_rtp_packet list" where
  "tracked_outs c [] = []"
| "tracked_outs c (e # es) =
     (case tracked_apply c e of
        (Some q, c') \<Rightarrow> q # tracked_outs c' es
      | (None, c') \<Rightarrow> tracked_outs c' es)"

fun tracked_final :: "tracked_clock \<Rightarrow> tracked_event list \<Rightarrow> tracked_clock" where
  "tracked_final c [] = c"
| "tracked_final c (e # es) = tracked_final (snd (tracked_apply c e)) es"

fun event_of :: "u32 \<Rightarrow> tracked_event \<Rightarrow> bool" where
  "event_of ssrc (Arrives i p t) = (pk_ssrc p = ssrc \<and> pk_sequence_number p = of_nat i)"
| "event_of ssrc (Ticks now) = True"

fun arrivals :: "tracked_event list \<Rightarrow> nat list" where
  "arrivals [] = []"
| "arrivals (Arrives i p t # es) = i # arrivals es"
| "arrivals (Ticks now # es) = arrivals es"

text \<open>The indices count from the epoch of the first packet, and no packet is more than half the
  sequence space away from the newest one.\<close>

definition stream_of :: "nat list \<Rightarrow> bool" where
  "stream_of is \<longleftrightarrow> (case is of [] \<Rightarrow> True | i # rest \<Rightarrow> i < 65536 \<and> jitter_ok (2 ^ 48) i rest)"

definition trackable :: "tracked_clock \<Rightarrow> nat list \<Rightarrow> bool" where
  "trackable c is \<longleftrightarrow> (if tc_seen_any c then jitter_ok (2 ^ 48) (tracked_high c) is
     else tc_roc c = 0 \<and> stream_of is)"

lemma tracked_id_simps:
  assumes "tracked_id c' = tracked_id c"
  shows "tc_ssrc c' = tc_ssrc c" "tc_source_id c' = tc_source_id c" "trackable c' is = trackable c is"
  using assms by (simp_all add: tracked_id_def trackable_def tracked_high_def)

lemma extend_seq_trackable:
  assumes "trackable c (i # is)"
  shows "\<exists>e c'. TrackedClock_extend_seq c (of_nat i) = (Some e, c') \<and> unat e = i \<and> trackable c' is"
proof (cases "tc_seen_any c")
  case True
  with assms have "near (2 ^ 48) (tracked_high c) i" "jitter_ok (2 ^ 48) (max (tracked_high c) i) is"
    by (simp_all add: trackable_def)
  with extend_seq_near [OF True] show ?thesis by (force simp: trackable_def)
next
  case False
  with assms have i: "tc_roc c = 0" "i < 65536" "jitter_ok (2 ^ 48) i is"
    by (simp_all add: trackable_def stream_of_def)
  from extend_seq_first [OF False i(1,2)] i show ?thesis
    by (simp add: trackable_def tracked_high_def ext_index_def unat_of_nat_seq)
qed

lemma noted_same:
  assumes "tc_ssrc c = None \<or> tc_ssrc c = Some (pk_ssrc p)"
  shows "trackable (noted c p t) is = trackable c is" "tc_ssrc (noted c p t) = Some (pk_ssrc p)"
    "tc_source_id (noted c p t) = tc_source_id c"
  using note_arrival_keeps(3) [of "note_source c (pk_ssrc p)" t] note_source_same [OF assms]
  by (simp_all add: trackable_def tracked_high_def tracked_id_def)

lemma push_trackable:
  assumes ssrc: "tc_ssrc c = None \<or> tc_ssrc c = Some (pk_ssrc p)"
    and seq: "pk_sequence_number p = of_nat i" and track: "trackable c (i # is)" and S: "tracked_holds S c"
  shows "tracked_holds (insert (i, p) S) (TrackedClock_push c p t)"
    "past (TrackedClock_push c p t) j \<Longrightarrow> past c j"
    "trackable (TrackedClock_push c p t) is" "tc_ssrc (TrackedClock_push c p t) = Some (pk_ssrc p)"
    "tc_source_id (TrackedClock_push c p t) = tc_source_id c"
proof -
  from extend_seq_trackable [of "noted c p t" i "is"] track noted_same(1) [OF ssrc] obtain e c'
    where e: "TrackedClock_extend_seq (noted c p t) (of_nat i) = (Some e, c')" "unat e = i" "trackable c' is"
    by blast
  then have ext: "\<forall>e'. fst (TrackedClock_extend_seq (noted c p t) (pk_sequence_number p)) = Some e' \<longrightarrow> unat e' = i"
    using seq by simp
  have c': "c' = snd (TrackedClock_extend_seq (noted c p t) (of_nat i))" using e by simp
  note push = push_holds [OF S ssrc ext]
  show "tracked_holds (insert (i, p) S) (TrackedClock_push c p t)"
    "past (TrackedClock_push c p t) j \<Longrightarrow> past c j" by (fact push)+
  have "tracked_id (TrackedClock_push c p t) = tracked_id c'" using push(3) seq c' by simp
  note id = tracked_id_simps [OF this]
  show "trackable (TrackedClock_push c p t) is" "tc_ssrc (TrackedClock_push c p t) = Some (pk_ssrc p)"
    "tc_source_id (TrackedClock_push c p t) = tc_source_id c"
    using e(3) noted_same(2,3) [OF ssrc] by (simp_all add: id) (simp_all add: c')
qed

lemma tracked_run_order:
  assumes "tracked_holds S c" "tc_ssrc c = None \<or> tc_ssrc c = Some ssrc" "list_all (event_of ssrc) evs"
    "trackable c (arrivals evs)"
  shows "\<exists>js. sorted_wrt (<) js \<and> (\<forall>j \<in> set js. past c j)
     \<and> list_all2 (\<lambda>j q. \<exists>p. ((j, p) \<in> S \<or> (\<exists>t. Arrives j p t \<in> set evs)) \<and> relayed (tc_source_id c) p q)
         js (tracked_outs c evs)"
  using assms
proof (induction evs arbitrary: S c)
  case Nil
  show ?case by (rule exI [of _ "[]"]) simp
next
  case (Cons ev evs)
  show ?case
  proof (cases ev)
    case (Arrives i p t)
    let ?c = "TrackedClock_push c p t"
    from Cons(3,4,5) Arrives have
      ssrc: "tc_ssrc c = None \<or> tc_ssrc c = Some (pk_ssrc p)" and seq: "pk_sequence_number p = of_nat i"
      and track: "trackable c (i # arrivals evs)" and p: "pk_ssrc p = ssrc" by auto
    note push = push_trackable [OF ssrc seq track Cons(2), of t]
    from Cons(1) [OF push(1) _ _ push(3)] push(4) p Cons(4) Arrives obtain js where
      js: "sorted_wrt (<) js" "\<forall>j \<in> set js. past ?c j"
        "list_all2 (\<lambda>j q. \<exists>p'. ((j, p') \<in> insert (i, p) S \<or> (\<exists>t. Arrives j p' t \<in> set evs))
            \<and> relayed (tc_source_id ?c) p' q) js (tracked_outs ?c evs)" by auto
    have "list_all2 (\<lambda>j q. \<exists>p. ((j, p) \<in> S \<or> (\<exists>t. Arrives j p t \<in> set (ev # evs)))
            \<and> relayed (tc_source_id c) p q) js (tracked_outs ?c evs)"
      using js(3) by (rule list_all2_mono) (auto simp: push(5) Arrives)
    with js(1,2) push(2) show ?thesis by (intro exI [of _ js]) (auto simp: Arrives)
  next
    case (Ticks now)
    obtain r c' where rc: "TrackedClock_drain_tick c now = (r, c')" by fastforce
    with drain_tick_ok [OF Cons(2), of now] have tick: "tick_ok S c (r, c')" by simp
    then have c': "tracked_holds S c'" "tracked_id c' = tracked_id c" "past c' j \<Longrightarrow> past c j" for j
      by (simp_all add: tick_ok_def)
    note id = tracked_id_simps [OF c'(2)]
    from Cons(1) [OF c'(1)] Cons(3-5) Ticks id obtain js where
      js: "sorted_wrt (<) js" "\<forall>j \<in> set js. past c' j"
        "list_all2 (\<lambda>j q. \<exists>p. ((j, p) \<in> S \<or> (\<exists>t. Arrives j p t \<in> set evs))
            \<and> relayed (tc_source_id c) p q) js (tracked_outs c' evs)" by auto
    then have rest: "list_all2 (\<lambda>j q. \<exists>p. ((j, p) \<in> S \<or> (\<exists>t. Arrives j p t \<in> set (ev # evs)))
            \<and> relayed (tc_source_id c) p q) js (tracked_outs c' evs)"
      by (auto elim!: list_all2_mono)
    show ?thesis
    proof (cases r)
      case None
      with js(1,2) rest c'(3) rc show ?thesis by (intro exI [of _ js]) (auto simp: Ticks)
    next
      case (Some q)
      with tick obtain k p where k: "(unat k, p) \<in> S" "relayed (tc_source_id c) p q" "past c (unat k)"
        "tc_last_emitted_ext c' = Some k" by (auto simp: tick_ok_def)
      with js(2) have "\<forall>j \<in> set js. unat k < j" by (simp add: past_def)
      with js(1,2) rest c'(3) rc Some k show ?thesis
        by (intro exI [of _ "unat k # js"]) (auto simp: Ticks)
    qed
  qed
qed

section \<open>Bounds\<close>

definition tracked_bounded :: "tracked_clock \<Rightarrow> bool" where
  "tracked_bounded c \<longleftrightarrow> tracked_holds UNIV c \<and> bt_len (tc_queue c) \<le> tc_max_frames c
     \<and> tc_target_delay c \<le> tc_max_delay c"

lemma noted_bounded:
  assumes "tracked_bounded c"
  shows "tracked_bounded (noted c p t)" "tracked_cfg (noted c p t) = tracked_cfg c"
    "tc_target_delay (noted c p t) = tc_target_delay c"
proof -
  have src: "tracked_bounded (note_source c s) \<and> tracked_cfg (note_source c s) = tracked_cfg c
      \<and> tc_target_delay (note_source c s) = tc_target_delay c" for s
    using assms
    by (auto simp: note_source_def tracked_bounded_def tracked_holds_def tracked_cfg_def
        TrackedClock_reset_def bt_len_def split: option.splits)
  show "tracked_bounded (noted c p t)" "tracked_cfg (noted c p t) = tracked_cfg c"
    "tc_target_delay (noted c p t) = tc_target_delay c"
    using src [of "pk_ssrc p"] note_arrival_keeps [of "note_source c (pk_ssrc p)" t]
    by (auto simp: tracked_bounded_def tracked_holds_def tracked_cfg_def)
qed

lemma extend_seq_cfg:
  assumes "TrackedClock_extend_seq c s = (r, c')"
  shows "tracked_cfg c' = tracked_cfg c" "tracked_bounded c \<Longrightarrow> tracked_bounded c'"
    "tc_target_delay c' = tc_target_delay c"
proof -
  have "c' = snd (TrackedClock_extend_seq c s)" using assms by simp
  then show "tracked_cfg c' = tracked_cfg c" "tracked_bounded c \<Longrightarrow> tracked_bounded c'"
    "tc_target_delay c' = tc_target_delay c"
    by (simp_all add: tracked_cfg_def tracked_bounded_def tracked_holds_def)
qed

lemma push_bounded:
  assumes "tracked_bounded c"
  shows "tracked_bounded (TrackedClock_push c p t) \<and> tracked_cfg (TrackedClock_push c p t) = tracked_cfg c
     \<and> tc_target_delay (TrackedClock_push c p t) = tc_target_delay c"
proof (cases rule: push_cases [of c p t])
  case (late c')
  then have "TrackedClock_extend_seq (noted c p t) (pk_sequence_number p)
      = (fst (TrackedClock_extend_seq (noted c p t) (pk_sequence_number p)), c')" by simp
  note ext = extend_seq_cfg [OF this]
  have "tracked_bounded (count_late c')" if "tracked_bounded c'"
    using that count_late_keeps(4) [of c'] by (simp add: tracked_bounded_def tracked_holds_def tracked_cfg_def)
  with late ext noted_bounded [OF assms] show ?thesis by simp
next
  case (queued c' k)
  note ext = extend_seq_cfg [OF queued(2)] and noted = noted_bounded [OF assms, of p t]
  have c': "tracked_bounded c'" "tracked_cfg c' = tracked_cfg c" "tc_target_delay c' = tc_target_delay c"
    using ext noted by simp_all
  then have "tracked_holds UNIV c'" by (simp add: tracked_bounded_def)
  note enq = enqueue_holds [OF this queued(3), of p t] and keep = enqueue_keeps(2) [of c' k p t]
  have "tracked_bounded (enqueue c' k p t)"
    using enq(1,3) keep c'(1) enqueue_keeps(3) [of c' k p t]
    by (auto simp: tracked_bounded_def tracked_cfg_def intro: holds_mono)
  with keep c' show ?thesis by (simp add: queued(1) enqueue_keeps(3))
qed

lemma tick_bounded:
  assumes "tracked_bounded c" "tick_ok UNIV c (r, c')"
  shows "tracked_bounded c' \<and> tracked_cfg c' = tracked_cfg c \<and> tc_target_delay c \<le> tc_target_delay c'"
  using assms by (auto simp: tick_ok_def tracked_bounded_def tracked_cfg_def)

lemma apply_bounded:
  assumes "tracked_bounded c"
  shows "tracked_bounded (snd (tracked_apply c e)) \<and> tracked_cfg (snd (tracked_apply c e)) = tracked_cfg c
     \<and> tc_target_delay c \<le> tc_target_delay (snd (tracked_apply c e))"
proof (cases e)
  case (Arrives i p t)
  then show ?thesis using push_bounded [OF assms, of p t] by simp
next
  case (Ticks now)
  obtain r c' where rc: "TrackedClock_drain_tick c now = (r, c')" by fastforce
  moreover have "tick_ok UNIV c (r, c')"
    using drain_tick_ok [of UNIV c now] assms rc by (simp add: tracked_bounded_def)
  ultimately show ?thesis using tick_bounded [OF assms] Ticks by simp
qed

lemma final_bounded:
  "tracked_bounded c \<Longrightarrow> tracked_bounded (tracked_final c evs) \<and> tracked_cfg (tracked_final c evs) = tracked_cfg c
     \<and> tc_target_delay c \<le> tc_target_delay (tracked_final c evs)"
proof (induction evs arbitrary: c)
  case (Cons e evs)
  from Cons(1) [of "snd (tracked_apply c e)"] apply_bounded [OF Cons(2), of e] show ?case by auto
qed simp

lemma new_bounded: "tracked_bounded (tracked_clock_new src rate mixer_fed)"
  by (simp add: tracked_bounded_def tracked_holds_def tracked_clock_new_def bt_len_def tracked_consts)

lemma new_holds: "tracked_holds {} (tracked_clock_new src rate mixer_fed)"
  by (simp add: tracked_holds_def tracked_clock_new_def)

section \<open>The paced discipline\<close>

text \<open>A queued packet is stale when its play time is further back than the largest delay.\<close>

definition stale :: "tracked_clock \<Rightarrow> u32 \<times> instant \<Rightarrow> instant \<Rightarrow> u64 \<times> routed_rtp_packet \<Rightarrow> bool" where
  "stale c anchor now kp \<longleftrightarrow>
     TrackedClock_play_time c (pk_timestamp (snd kp)) (fst anchor) (snd anchor) + int (tc_max_delay c) < now"

lemma play_time_cong:
  "tracked_cfg c' = tracked_cfg c \<Longrightarrow> TrackedClock_play_time c' = TrackedClock_play_time c"
  by (simp add: fun_eq_iff TrackedClock_play_time_def tracked_cfg_def Let_def)

lemma stale_cong: "tracked_cfg c' = tracked_cfg c \<Longrightarrow> stale c' = stale c"
  using play_time_cong [of c' c] by (simp add: stale_def fun_eq_iff tracked_cfg_def)

lemma paced_loop_fresh:
  assumes "fresh = dropWhile (stale c (ts, play) now) (tc_queue c)"
    "paced_loop ts play now c = (r, c')"
  shows "tc_queue c' = (if r = None then fresh else tl fresh)
     \<and> (r \<noteq> None \<longleftrightarrow> fresh \<noteq> [] \<and> TrackedClock_play_time c (pk_timestamp (snd (hd fresh))) ts play \<le> now)
     \<and> (\<forall>q. r = Some q \<longrightarrow> relayed (tc_source_id c) (snd (hd fresh)) q
          \<and> tc_last_emitted_ext c' = Some (fst (hd fresh)))
     \<and> pc_late_drops (tc_counters c') = pc_late_drops (tc_counters c) + of_nat (length (tc_queue c) - length fresh)"
  using assms
proof (induction ts play now c rule: paced_loop.induct)
  case (1 ts play now c)
  show ?case
  proof (cases "tc_queue c")
    case Nil
    with 1(2,3) show ?thesis
      by (subst (asm) paced_loop.simps) (auto simp: bt_first_def note_underflow_def Let_def)
  next
    case (Cons kp q)
    obtain k p where kp: "kp = (k, p)" by fastforce
    have hd: "bt_first (tc_queue c) = Some (k, p)" by (simp add: Cons kp bt_first_def)
    let ?play = "TrackedClock_play_time c (pk_timestamp p) ts play"
    show ?thesis
    proof (cases "stale c (ts, play) now kp")
      case True
      then have st: "\<not> now < ?play" "tc_max_delay c < saturating_duration_since now ?play"
        by (auto simp: stale_def kp saturating_duration_since_def)
      have "paced_loop ts play now c = paced_loop ts play now (skip_stale c k)"
        using hd st by (subst paced_loop.simps) simp
      with 1(3) have run: "paced_loop ts play now (skip_stale c k) = (r, c')" by simp
      have cfg: "tracked_cfg (skip_stale c k) = tracked_cfg c" "tc_source_id (skip_stale c k) = tc_source_id c"
        by (simp_all add: skip_stale_def count_late_def tracked_cfg_def)
      have q: "tc_queue (skip_stale c k) = q" by (simp add: skip_stale_def Cons kp)
      note pt = play_time_cong [OF cfg(1)]
      have fr: "fresh = dropWhile (stale (skip_stale c k) (ts, play) now) (tc_queue (skip_stale c k))"
        using 1(2) True by (simp add: q Cons stale_cong [OF cfg(1)])
      have len: "length (tc_queue c) - length fresh = Suc (length q - length fresh)"
        using fr q by (simp add: Cons Suc_diff_le length_dropWhile_le)
      show ?thesis
        using 1(1) [OF hd refl refl st fr run] unfolding len q cfg pt
        by (simp add: skip_stale_def count_late_def)
    next
      case False
      then have fresh: "fresh = tc_queue c" using 1(2) by (simp add: Cons)
      show ?thesis
      proof (cases "now < ?play")
        case True
        then have "paced_loop ts play now c = (None, c)" using hd by (subst paced_loop.simps) simp
        with 1(3) have "r = None" "c' = c" by auto
        with True show ?thesis by (simp add: fresh Cons kp)
      next
        case early: False
        with False have due: "\<not> tc_max_delay c < saturating_duration_since now ?play"
          by (auto simp: stale_def kp saturating_duration_since_def)
        have "paced_loop ts play now c = TrackedClock_take_head (c\<lparr>tc_underflow_run := 0\<rparr>) k"
          using hd early due by (subst paced_loop.simps) simp
        with 1(3) take_head_first [of "c\<lparr>tc_underflow_run := 0\<rparr>" k p] hd
        have "r = Some (p\<lparr>pk_source_endpoint_id := tc_source_id c, pk_marker := pk_marker p \<or> tc_pending_marker c\<rparr>)"
          "c' = c\<lparr>tc_underflow_run := 0, tc_queue := bt_remove k (tc_queue c), tc_last_emitted_ext := Some k,
             tc_pending_marker := False\<rparr>" by simp_all
        with early show ?thesis by (simp add: fresh Cons kp)
      qed
    qed
  qed
qed

section \<open>Properties\<close>

text \<open>C25. A network source's packets, which the network may have reordered, repeated or lost, come
  out of the playout buffer in the sender's order, none of them twice, and every packet that comes
  out is one that came in, changed only in its source id and its marker.  This holds for both
  disciplines and for every interleaving of arrivals and ticks.\<close>

theorem tracked_in_order:
  assumes "list_all (event_of ssrc) evs" "stream_of (arrivals evs)"
  shows "\<exists>js. sorted_wrt (<) js
    \<and> list_all2 (\<lambda>j q. \<exists>p t. Arrives j p t \<in> set evs \<and> relayed src p q) js
        (tracked_outs (tracked_clock_new src rate mixer_fed) evs)"
proof -
  let ?c = "tracked_clock_new src rate mixer_fed"
  have c: "tc_ssrc ?c = None" "tc_source_id ?c = src" "trackable ?c (arrivals evs)"
    using assms(2) by (simp_all add: tracked_clock_new_def trackable_def)
  from tracked_run_order [OF new_holds _ assms(1) c(3)] c obtain js where
    "sorted_wrt (<) js" and js: "list_all2 (\<lambda>j q. \<exists>p. ((j, p) \<in> {} \<or> (\<exists>t. Arrives j p t \<in> set evs))
      \<and> relayed src p q) js (tracked_outs ?c evs)" by auto
  moreover have "list_all2 (\<lambda>j q. \<exists>p t. Arrives j p t \<in> set evs \<and> relayed src p q) js (tracked_outs ?c evs)"
    using js by (rule list_all2_mono) auto
  ultimately show ?thesis by blast
qed

text \<open>Two packets of one source that arrive in the wrong order.\<close>

definition tracked_demo_packet :: "u16 \<Rightarrow> u32 \<Rightarrow> routed_rtp_packet" where
  "tracked_demo_packet seq ts =
     \<lparr>pk_source_endpoint_id = 5, pk_payload_type = 0, pk_sequence_number = seq, pk_timestamp = ts,
      pk_ssrc = 7, pk_marker = False, pk_payload = [1, 2]\<rparr>"

definition tracked_demo :: "tracked_event list" where
  "tracked_demo = [Arrives 65535 (tracked_demo_packet 65535 160) 1000, Arrives 65537 (tracked_demo_packet 1 480) 1500,
     Arrives 65536 (tracked_demo_packet 0 320) 2000, Ticks 3000, Ticks 4000]"

theorem tracked_in_order_witness:
  "list_all (event_of 7) tracked_demo \<and> stream_of (arrivals tracked_demo)
   \<and> (\<exists>js. sorted_wrt (<) js
      \<and> list_all2 (\<lambda>j q. \<exists>p t. Arrives j p t \<in> set tracked_demo \<and> relayed 9 p q) js
          (tracked_outs (tracked_clock_new 9 8000 False) tracked_demo))"
proof -
  have hyps: "list_all (event_of 7) tracked_demo" "stream_of (arrivals tracked_demo)"
    by (simp_all add: tracked_demo_def tracked_demo_packet_def stream_of_def near_def)
  from tracked_in_order [OF hyps] hyps show ?thesis by blast
qed

text \<open>C27. However packets and ticks interleave, and whatever the packets carry, the buffer holds no
  more packets than its mode allows, and its delay only grows and stays within the mode's limits.\<close>

theorem tracked_stays_bounded:
  "let c = tracked_final (tracked_clock_new src rate mixer_fed) evs in
     bt_len (tc_queue c) \<le> (if mixer_fed then 16 else 256)
     \<and> from_millis (if mixer_fed then 60 else 40) \<le> tc_target_delay c
     \<and> tc_target_delay c \<le> from_millis (if mixer_fed then 200 else 40)"
  using final_bounded [OF new_bounded, of src rate mixer_fed evs]
  by (auto simp: tracked_bounded_def tracked_cfg_def tracked_clock_new_def tracked_consts Let_def)

text \<open>C26. A tick of the paced discipline is the same as this: skip the packets at the head of the
  queue whose play time is further back than the largest delay, counting each as late, and hand out
  the next one exactly when its play time has come.\<close>

theorem paced_tick_is_skip_then_play:
  assumes "tc_anchor c = Some (ts, play)"
  shows "let fresh = dropWhile (stale c (ts, play) now) (tc_queue c);
      (r, c') = TrackedClock_drain_paced c now
    in tc_queue c' = (if r = None then fresh else tl fresh)
     \<and> (r \<noteq> None \<longleftrightarrow> fresh \<noteq> [] \<and> TrackedClock_play_time c (pk_timestamp (snd (hd fresh))) ts play \<le> now)
     \<and> (\<forall>q. r = Some q \<longrightarrow> relayed (tc_source_id c) (snd (hd fresh)) q
          \<and> tc_last_emitted_ext c' = Some (fst (hd fresh)))
     \<and> pc_late_drops (tc_counters c') = pc_late_drops (tc_counters c) + of_nat (length (tc_queue c) - length fresh)"
proof -
  obtain r c' where run: "TrackedClock_drain_paced c now = (r, c')" "paced_loop ts play now c = (r, c')"
    using assms by (cases "paced_loop ts play now c") (simp add: TrackedClock_drain_paced_def)
  show ?thesis unfolding run(1) Let_def prod.case by (rule paced_loop_fresh [OF refl run(2)])
qed

theorem paced_tick_witness:
  "let c = (tracked_clock_new 9 8000 True)\<lparr>tc_anchor := Some (160, 0),
             tc_queue := [(1, tracked_demo_packet 1 160), (2, tracked_demo_packet 2 320)]\<rparr>
   in tc_anchor c = Some (160, 0)
     \<and> tc_queue (snd (TrackedClock_drain_paced c 20000000))
         = tl (dropWhile (stale c (160, 0) 20000000) (tc_queue c))"
proof -
  define c where "c = (tracked_clock_new 9 8000 True)\<lparr>tc_anchor := Some (160, 0),
             tc_queue := [(1, tracked_demo_packet 1 160), (2, tracked_demo_packet 2 320)]\<rparr>"
  have a: "tc_anchor c = Some (160, 0)" by (simp add: c_def)
  have q: "tc_queue c = [(1, tracked_demo_packet 1 160), (2, tracked_demo_packet 2 320)]"
    by (simp add: c_def)
  have f: "\<not> stale c (160, 0) 20000000 (1, tracked_demo_packet 1 160)"
    "TrackedClock_play_time c (pk_timestamp (tracked_demo_packet 1 160)) 160 0 \<le> 20000000"
    by (simp_all add: stale_def c_def tracked_clock_new_def tracked_demo_packet_def TrackedClock_play_time_def
        tracked_consts saturating_mul_u64_def from_micros_def Let_def)
  from paced_tick_is_skip_then_play [OF a, of 20000000] a f show ?thesis
    unfolding c_def [symmetric] by (simp add: q Let_def split_beta)
qed

end
