(* ===== verification/Playout.thy ===== *)
theory Playout
  imports Playout_Tracked
begin

text \<open>
  The playout buffer as the session sees it (\<open>PlayoutBuffer\<close> of \<open>src/src/session/playout.rs\<close>),
  one of the two clock models, and the shared 20 ms grid that drains the buffers
  (\<open>ingest_audio\<close> and \<open>drive_grid\<close> of \<open>src/src/session/media_session.rs\<close>).  The list that
  stands for the hash map of buffers is in the order the map is traversed in.
\<close>

section \<open>Definitions\<close>

subsection \<open>The buffer\<close>

datatype playout_kind = Kind_Synth | Kind_Tracked

datatype policy = Bypass | Engaged playout_kind

datatype playout_buffer = Synth synth_clock | Tracked tracked_clock

definition PlayoutBuffer_synth :: "endpoint_id \<Rightarrow> u32 \<Rightarrow> u32 \<Rightarrow> u16 \<Rightarrow> u32 \<Rightarrow> playout_buffer" where
  "PlayoutBuffer_synth source_id clock_rate ssrc seq ts = Synth (synth_clock_new source_id clock_rate ssrc seq ts)"

definition PlayoutBuffer_tracked :: "endpoint_id \<Rightarrow> u32 \<Rightarrow> bool \<Rightarrow> playout_buffer" where
  "PlayoutBuffer_tracked source_id clock_rate mixer_fed = Tracked (tracked_clock_new source_id clock_rate mixer_fed)"

fun PlayoutBuffer_kind :: "playout_buffer \<Rightarrow> playout_kind" where
  "PlayoutBuffer_kind (Synth _) = Kind_Synth"
| "PlayoutBuffer_kind (Tracked _) = Kind_Tracked"

fun PlayoutBuffer_with_format :: "playout_buffer \<Rightarrow> (audio_codec \<times> u8) option \<Rightarrow> playout_buffer" where
  "PlayoutBuffer_with_format (Tracked clock) format = Tracked (clock\<lparr>tc_format := format\<rparr>)"
| "PlayoutBuffer_with_format (Synth clock) format = Synth clock"

fun PlayoutBuffer_matches_format :: "playout_buffer \<Rightarrow> u32 \<Rightarrow> (audio_codec \<times> u8) option \<Rightarrow> bool" where
  "PlayoutBuffer_matches_format (Synth clock) rate format \<longleftrightarrow> sc_ts_step clock * 50 = rate"
| "PlayoutBuffer_matches_format (Tracked clock) rate format \<longleftrightarrow>
     tc_clock_rate clock = rate \<and> tc_format clock = format"

fun PlayoutBuffer_push :: "playout_buffer \<Rightarrow> routed_rtp_packet \<Rightarrow> instant \<Rightarrow> playout_buffer" where
  "PlayoutBuffer_push (Synth s) pkt arrival = Synth (SynthClock_push s (pk_payload pkt))"
| "PlayoutBuffer_push (Tracked t) pkt arrival = Tracked (TrackedClock_push t pkt arrival)"

fun PlayoutBuffer_drain_tick :: "playout_buffer \<Rightarrow> instant \<Rightarrow> routed_rtp_packet option \<times> playout_buffer" where
  "PlayoutBuffer_drain_tick (Synth s) grid_now = (let (r, s) = SynthClock_drain_tick s in (r, Synth s))"
| "PlayoutBuffer_drain_tick (Tracked t) grid_now = (let (r, t) = TrackedClock_drain_tick t grid_now in (r, Tracked t))"

fun PlayoutBuffer_has_pending :: "playout_buffer \<Rightarrow> bool" where
  "PlayoutBuffer_has_pending (Synth s) \<longleftrightarrow> sc_state s \<noteq> Idle"
| "PlayoutBuffer_has_pending (Tracked t) \<longleftrightarrow> tc_queue t \<noteq> []"

fun PlayoutBuffer_drains_burst :: "playout_buffer \<Rightarrow> bool" where
  "PlayoutBuffer_drains_burst (Tracked _) = True"
| "PlayoutBuffer_drains_burst (Synth _) = False"

fun PlayoutBuffer_is_mixer_fed :: "playout_buffer \<Rightarrow> bool" where
  "PlayoutBuffer_is_mixer_fed (Tracked t) = tc_mixer_fed t"
| "PlayoutBuffer_is_mixer_fed (Synth _) = False"

fun PlayoutBuffer_take_counters :: "playout_buffer \<Rightarrow> playout_counters \<times> playout_buffer" where
  "PlayoutBuffer_take_counters (Synth s) = (sc_counters s, Synth (s\<lparr>sc_counters := PlayoutCounters_default\<rparr>))"
| "PlayoutBuffer_take_counters (Tracked t) = (tc_counters t, Tracked (t\<lparr>tc_counters := PlayoutCounters_default\<rparr>))"

subsection \<open>Arrivals\<close>

definition ingest_audio ::
  "routed_rtp_packet \<Rightarrow> (endpoint_id, policy) hash_map \<Rightarrow> (endpoint_id, playout_buffer) hash_map
     \<Rightarrow> routed_rtp_packet list \<Rightarrow> instant
     \<Rightarrow> (endpoint_id, playout_buffer) hash_map \<times> routed_rtp_packet list" where
  "ingest_audio pkt playout_policy playout_buffers packets_to_route now =
     (case hm_get playout_policy (pk_source_endpoint_id pkt) of
        Some (Engaged _) \<Rightarrow>
          (case hm_get playout_buffers (pk_source_endpoint_id pkt) of
             Some buf \<Rightarrow> (hm_insert (pk_source_endpoint_id pkt) (PlayoutBuffer_push buf pkt now) playout_buffers,
                          packets_to_route)
           | None \<Rightarrow> (playout_buffers, packets_to_route @ [pkt]))
      | _ \<Rightarrow> (playout_buffers, packets_to_route @ [pkt]))"

subsection \<open>The grid\<close>

text \<open>The inner loop drains one buffer at a tick.  It ends because every packet it takes from a
  network source's queue leaves the queue shorter.\<close>

lemma drain_tick_shorter:
  assumes "TrackedClock_drain_tick t g = (Some q, t')"
  shows "length (tc_queue t') < length (tc_queue t)"
proof (cases "tc_mixer_fed t")
  case True
  with assms obtain ts play where "tc_anchor t = Some (ts, play)"
    and run: "paced_loop ts play g t = (Some q, t')"
    by (auto simp: TrackedClock_drain_tick_def TrackedClock_drain_paced_def split: option.splits)
  define fresh where "fresh = dropWhile (stale t (ts, play) g) (tc_queue t)"
  have "tc_queue t' = tl fresh" "fresh \<noteq> []"
    using paced_loop_fresh [OF fresh_def run] by simp_all
  moreover have "length fresh \<le> length (tc_queue t)" by (simp add: fresh_def length_dropWhile_le)
  ultimately show ?thesis by (cases fresh) simp_all
next
  case False
  with assms obtain k p where hd: "bt_first (tc_queue t) = Some (k, p)"
    and "TrackedClock_take_head t k = (Some q, t')"
    by (auto simp: TrackedClock_drain_tick_def TrackedClock_drain_reorder_def Let_def
        split: option.splits if_splits)
  then have "tc_queue t' = bt_remove k (tc_queue t)" by (auto simp: take_head_first [OF hd])
  with bt_len_remove_first [OF hd] show ?thesis by (simp add: bt_len_def)
qed

fun queued :: "playout_buffer \<Rightarrow> nat" where
  "queued (Synth s) = length (sc_queue s)"
| "queued (Tracked t) = length (tc_queue t)"

lemma drain_tick_queued:
  assumes "PlayoutBuffer_drain_tick buf g = (Some q, buf')" "PlayoutBuffer_drains_burst buf'"
  shows "queued buf' < queued buf"
proof (cases buf)
  case (Tracked t)
  obtain r t' where rt: "TrackedClock_drain_tick t g = (r, t')" by fastforce
  with assms(1) Tracked have "r = Some q" "buf' = Tracked t'" by auto
  with drain_tick_shorter [of t g q t'] rt show ?thesis by (simp add: Tracked)
qed (use assms in \<open>auto simp: Let_def split_beta\<close>)

function drain_buffer :: "playout_buffer \<Rightarrow> instant \<Rightarrow> routed_rtp_packet list \<times> playout_buffer" where
  "drain_buffer buf g =
     (case PlayoutBuffer_drain_tick buf g of
        (None, buf) \<Rightarrow> ([], buf)
      | (Some pkt, buf) \<Rightarrow>
          if \<not> PlayoutBuffer_drains_burst buf then ([pkt], buf)
          else let (pkts, buf) = drain_buffer buf g in (pkt # pkts, buf))"
  by pat_completeness auto

termination
  by (relation "measure (\<lambda>(buf, _). queued buf)") (auto intro: drain_tick_queued [OF sym])

declare drain_buffer.simps [simp del]

primrec drain_all ::
  "(endpoint_id, playout_buffer) hash_map \<Rightarrow> instant
     \<Rightarrow> routed_rtp_packet list \<times> (endpoint_id, playout_buffer) hash_map" where
  "drain_all [] g = ([], [])"
| "drain_all (ib # bufs) g =
     (let (pkts, buf) = drain_buffer (snd ib) g; (more, bufs) = drain_all bufs g
      in (pkts @ more, (fst ib, buf) # bufs))"

definition any_pending :: "(endpoint_id, playout_buffer) hash_map \<Rightarrow> bool" where
  "any_pending bufs = list_ex (\<lambda>(_, b). PlayoutBuffer_has_pending b) bufs"

definition drive_grid ::
  "instant option \<Rightarrow> (endpoint_id, playout_buffer) hash_map \<Rightarrow> bool \<Rightarrow> routed_rtp_packet list \<Rightarrow> instant
     \<Rightarrow> bool \<times> instant option \<times> (endpoint_id, playout_buffer) hash_map \<times> routed_rtp_packet list" where
  "drive_grid mix_grid playout_buffers has_mixers packets_to_route now =
     (let (fired, mix_grid) =
            (case mix_grid of
               Some g \<Rightarrow> (g \<le> now, Some g)
             | None \<Rightarrow> if has_mixers \<or> any_pending playout_buffers then (True, Some now) else (False, None));
          (mix_grid, playout_buffers, packets_to_route) =
            (if fired then
               let g = (case mix_grid of Some g \<Rightarrow> g | None \<Rightarrow> now);
                   (pkts, playout_buffers) = drain_all playout_buffers g;
                   next = g + int FRAME;
                   next = (if next + int (from_millis 60) < now then now + int FRAME else next)
               in (Some next, playout_buffers, packets_to_route @ pkts)
             else (mix_grid, playout_buffers, packets_to_route));
          mix_grid = (if \<not> has_mixers \<and> \<not> any_pending playout_buffers then None else mix_grid)
      in (fired, mix_grid, playout_buffers, packets_to_route))"

section \<open>What a tick leaves behind\<close>

text \<open>A buffer with nothing to hand out: the paced head is not due, the reordered head waits for its
  predecessor.\<close>

definition waits :: "tracked_clock \<Rightarrow> instant \<Rightarrow> bool" where
  "waits t g \<longleftrightarrow> tc_queue t = [] \<or>
     (if tc_mixer_fed t
      then \<exists>ts play. tc_anchor t = Some (ts, play)
         \<and> g < TrackedClock_play_time t (pk_timestamp (snd (hd (tc_queue t)))) ts play
      else \<exists>e. tc_last_emitted_ext t = Some e \<and> fst (hd (tc_queue t)) \<noteq> e + 1
         \<and> length (tc_queue t) < 3)"

text \<open>A queued packet has something to be scheduled against.\<close>

definition anchored :: "tracked_clock \<Rightarrow> bool" where
  "anchored t \<longleftrightarrow> tc_queue t = [] \<or> tc_anchor t \<noteq> None"

lemma paced_loop_anchor: "tc_anchor (snd (paced_loop ts play now c)) = tc_anchor c
    \<and> tracked_cfg (snd (paced_loop ts play now c)) = tracked_cfg c"
proof (induction ts play now c rule: paced_loop.induct)
  case (1 ts play now c)
  have take: "tc_anchor (snd (TrackedClock_take_head d k)) = tc_anchor d
      \<and> tracked_cfg (snd (TrackedClock_take_head d k)) = tracked_cfg d" for d k
    by (auto simp: TrackedClock_take_head_def Let_def tracked_cfg_def split: option.splits)
  have skip: "tc_anchor (skip_stale c k) = tc_anchor c \<and> tracked_cfg (skip_stale c k) = tracked_cfg c" for k
    by (simp add: skip_stale_def count_late_def tracked_cfg_def)
  have rearm: "tracked_cfg (c\<lparr>tc_underflow_run := 0\<rparr>) = tracked_cfg c" by (simp add: tracked_cfg_def)
  have under: "tc_anchor (note_underflow c) = tc_anchor c \<and> tracked_cfg (note_underflow c) = tracked_cfg c"
    by (simp add: note_underflow_def Let_def tracked_cfg_def)
  show ?case
  proof (cases "bt_first (tc_queue c)")
    case None
    then show ?thesis by (subst (1 2) paced_loop.simps) (simp add: under)
  next
    case (Some kp)
    then obtain k p where hd: "bt_first (tc_queue c) = Some (k, p)" by (cases kp) auto
    show ?thesis
      using 1 [OF hd refl refl] skip [of k]
      by (subst (1 2) paced_loop.simps) (simp add: hd Let_def take rearm)
  qed
qed

lemma drain_tick_anchor:
  "tc_anchor (snd (TrackedClock_drain_tick t g)) = tc_anchor t
     \<and> tracked_cfg (snd (TrackedClock_drain_tick t g)) = tracked_cfg t"
proof -
  have take: "tc_anchor (snd (TrackedClock_take_head d k)) = tc_anchor d
      \<and> tracked_cfg (snd (TrackedClock_take_head d k)) = tracked_cfg d" for d k
    by (auto simp: TrackedClock_take_head_def Let_def tracked_cfg_def split: option.splits)
  show ?thesis
    by (auto simp: TrackedClock_drain_tick_def TrackedClock_drain_paced_def TrackedClock_drain_reorder_def
        Let_def take paced_loop_anchor split: option.splits)
qed

lemma drain_tick_rest:
  assumes rest: "TrackedClock_drain_tick t g = (None, t')" and anch: "anchored t"
  shows "waits t' g"
proof (cases "tc_mixer_fed t")
  case True
  show ?thesis
  proof (cases "tc_anchor t")
    case None
    with rest anch True show ?thesis
      by (auto simp: TrackedClock_drain_tick_def TrackedClock_drain_paced_def anchored_def waits_def)
  next
    case (Some a)
    then obtain ts play where a: "tc_anchor t = Some (ts, play)" by (cases a) auto
    with rest True have run: "paced_loop ts play g t = (None, t')"
      by (simp add: TrackedClock_drain_tick_def TrackedClock_drain_paced_def)
    define fresh where "fresh = dropWhile (stale t (ts, play) g) (tc_queue t)"
    have q: "tc_queue t' = fresh"
      "fresh \<noteq> [] \<Longrightarrow> g < TrackedClock_play_time t (pk_timestamp (snd (hd fresh))) ts play"
      using paced_loop_fresh [OF fresh_def run] by auto
    have "tc_anchor t' = Some (ts, play)" and cfg: "tracked_cfg t' = tracked_cfg t"
      using paced_loop_anchor [of ts play g t] run a by simp_all
    moreover have "tc_mixer_fed t'" using cfg True by (simp add: tracked_cfg_def)
    ultimately show ?thesis using q play_time_cong [OF cfg] by (auto simp: waits_def)
  qed
next
  case False
  with rest show ?thesis
  proof (cases "tc_queue t")
    case (Cons kp q)
    obtain k p where kp: "kp = (k, p)" by fastforce
    have hd: "bt_first (tc_queue t) = Some (k, p)" by (simp add: bt_first_def Cons kp)
    with rest False have rel: "\<exists>e. tc_last_emitted_ext t = Some e \<and> k \<noteq> e + 1 \<and> \<not> REORDER_DEPTH \<le> bt_len (tc_queue t)"
      and "t' = t"
      by (auto simp: TrackedClock_drain_tick_def TrackedClock_drain_reorder_def Let_def take_head_first [OF hd]
          split: option.splits if_splits)
    then show ?thesis using False Cons kp by (auto simp: waits_def bt_len_def REORDER_DEPTH_def)
  qed (auto simp: TrackedClock_drain_tick_def TrackedClock_drain_reorder_def waits_def bt_first_def)
qed

lemma anchored_tick:
  assumes "anchored t" "TrackedClock_drain_tick t g = (Some q, t')"
  shows "anchored t'"
  using assms drain_tick_anchor [of t g] drain_tick_shorter [OF assms(2)] by (auto simp: anchored_def)

lemma drain_buffer_waits:
  "anchored t \<Longrightarrow> \<exists>t'. snd (drain_buffer (Tracked t) g) = Tracked t' \<and> waits t' g"
proof (induction "length (tc_queue t)" arbitrary: t rule: less_induct)
  case less
  obtain r t' where rt: "TrackedClock_drain_tick t g = (r, t')" by fastforce
  show ?case
  proof (cases r)
    case None
    then show ?thesis using rt drain_tick_rest [of t g t'] less(2) by (subst drain_buffer.simps) simp
  next
    case (Some q)
    with rt less(1) [of t'] drain_tick_shorter anchored_tick [OF less(2)] obtain t'' where
      "snd (drain_buffer (Tracked t') g) = Tracked t''" "waits t'' g" by blast
    then show ?thesis using rt Some by (subst drain_buffer.simps) (simp add: split_beta)
  qed
qed

lemma push_anchored: "anchored t \<Longrightarrow> anchored (TrackedClock_push t p now)"
proof (cases rule: push_cases [of t p now])
  case (late c')
  assume t: "anchored t"
  have "anchored (note_source t (pk_ssrc p))"
    using t by (auto simp: anchored_def note_source_def TrackedClock_reset_def split: option.splits)
  then have "anchored (noted t p now)" by (auto simp: anchored_def note_arrival_def Let_def)
  moreover have "tc_anchor c' = tc_anchor (noted t p now)"
    by (simp add: late(2) TrackedClock_extend_seq_def Let_def)
  ultimately show ?thesis by (simp add: late count_late_def anchored_def)
next
  case (queued c' k)
  have "tc_anchor (enqueue c' k p now) \<noteq> None"
  proof -
    let ?a = "if tc_anchor c' = None then c'\<lparr>tc_anchor := Some (pk_timestamp p, now + int (tc_target_delay c'))\<rparr> else c'"
    let ?s = "shed_overflow (?a\<lparr>tc_queue := bt_insert k p (tc_queue ?a)\<rparr>) False"
    have "tc_anchor (snd ?s) \<noteq> None"
      using shed_overflow_frame [of "?a\<lparr>tc_queue := bt_insert k p (tc_queue ?a)\<rparr>" False] by auto
    then show ?thesis
      unfolding enqueue_def Let_def split_beta by (auto split: option.splits)
  qed
  then show ?thesis by (simp add: queued(1) anchored_def)
qed

lemma apply_anchored:
  assumes "anchored t"
  shows "anchored (snd (tracked_apply t e))"
proof (cases e)
  case (Ticks g)
  obtain r t' where rt: "TrackedClock_drain_tick t g = (r, t')" by fastforce
  show ?thesis
  proof (cases r)
    case None
    with drain_tick_rest [of t g t'] rt assms have w: "waits t' g" by simp
    have a: "tc_anchor t' = tc_anchor t" "tracked_cfg t' = tracked_cfg t"
      using drain_tick_anchor [of t g] rt by simp_all
    show ?thesis
    proof (cases "tc_mixer_fed t")
      case True
      with w a show ?thesis using rt by (auto simp: Ticks anchored_def waits_def tracked_cfg_def)
    next
      case False
      then have "t' = t" using rt None
        by (auto simp: TrackedClock_drain_tick_def TrackedClock_drain_reorder_def Let_def take_head_first
            split: option.splits if_splits)
      with assms rt show ?thesis by (simp add: Ticks)
    qed
  next
    case (Some q)
    with anchored_tick [OF assms] rt show ?thesis by (simp add: Ticks)
  qed
qed (simp add: push_anchored [OF assms])

lemma final_anchored: "anchored t \<Longrightarrow> anchored (tracked_final t evs)"
  by (induction evs arbitrary: t) (simp_all add: apply_anchored)

section \<open>Runs of the grid\<close>

text \<open>The frames fired over a sequence of wake-ups, while the session has mixers.\<close>

fun grid_fires :: "instant \<Rightarrow> (endpoint_id, playout_buffer) hash_map \<Rightarrow> instant list \<Rightarrow> nat" where
  "grid_fires g bufs [] = 0"
| "grid_fires g bufs (now # nows) =
     (let (fired, grid, bufs, _) = drive_grid (Some g) bufs True [] now
      in (if fired then 1 else 0) + grid_fires (case grid of Some n \<Rightarrow> n | None \<Rightarrow> g) bufs nows)"

lemma fold_max_ge: "x \<le> fold max xs x" for x :: int
proof (induction xs arbitrary: x)
  case (Cons y xs)
  from Cons [of "max y x"] show ?case by simp
qed simp

lemma fold_max_all: "list_all (\<lambda>y. y \<le> fold max xs x) xs" for x :: int
proof (induction xs arbitrary: x)
  case (Cons y xs)
  have "y \<le> fold max xs (max y x)" using fold_max_ge [of "max y x" xs] by simp
  with Cons [of "max y x"] show ?case by simp
qed simp

lemma drive_grid_next:
  "\<exists>n bufs' pkts. drive_grid (Some g) bufs True [] now = (g \<le> now, Some n, bufs', pkts)
     \<and> (if g \<le> now then g + 20000000 \<le> n else n = g)"
  by (auto simp: drive_grid_def Let_def split_beta tracked_consts)

lemma grid_fires_bound:
  "list_all (\<lambda>n. n \<le> T) nows \<Longrightarrow> int (grid_fires g bufs nows) * 20000000 \<le> max 0 (T - g + 20000000)"
proof (induction nows arbitrary: g bufs)
  case (Cons now nows)
  obtain n bufs' pkts where step: "drive_grid (Some g) bufs True [] now = (g \<le> now, Some n, bufs', pkts)"
    and n: "if g \<le> now then g + 20000000 \<le> n else n = g" using drive_grid_next by blast
  from Cons have "int (grid_fires n bufs' nows) * 20000000 \<le> max 0 (T - n + 20000000)" "now \<le> T"
    by simp_all
  with n show ?case by (auto simp: step split: if_splits)
qed simp

section \<open>Properties\<close>


text \<open>The grid keeps its 20 ms cadence.  It fires exactly when its instant has come; the next
  instant is then 20 ms on, or, when the loop fell more than 60 ms further behind, 20 ms from now, so
  that it never lies more than 60 ms in the past; when it does not fire nothing moves.  It stops
  exactly when there is no mixer and no pending buffer.\<close>

lemma grid_cadence:
  "let (fired, grid, bufs', pkts') = drive_grid (Some g) bufs has_mixers pkts now;
       (drained, after) = drain_all bufs g
   in (fired \<longleftrightarrow> g \<le> now) \<and> (grid = None \<longleftrightarrow> \<not> has_mixers \<and> \<not> any_pending bufs')
     \<and> (if fired
        then bufs' = after \<and> pkts' = pkts @ drained
          \<and> (grid = None \<or>
               (\<exists>n. grid = Some n \<and> (n = g + 20000000 \<or> n = now + 20000000) \<and> g < n \<and> now - 60000000 \<le> n))
        else bufs' = bufs \<and> pkts' = pkts \<and> (grid = None \<or> grid = Some g))"
  by (auto simp: drive_grid_def Let_def split_beta tracked_consts from_millis_def)

text \<open>While there are mixers the grid never runs faster than real time: over any sequence of
  wake-ups, in any order, from a grid instant \<open>g\<close>, the 20 ms frames it fires take no longer than the
  time up to the latest wake-up, the first frame apart.\<close>

lemma grid_rate:
  "int (grid_fires g bufs nows) * 20000000 \<le> fold max nows g - g + 20000000"
proof -
  have "g \<le> fold max nows g" by (rule fold_max_ge)
  moreover have "list_all (\<lambda>n. n \<le> fold max nows g) nows" by (rule fold_max_all)
  ultimately show ?thesis using grid_fires_bound [of "fold max nows g" nows g bufs] by simp
qed

end
