(* ===== verification/Routing.thy ===== *)
theory Routing
  imports Containers
begin

text \<open>
  The routing table (\<open>src/src/session/routing.rs\<close>): which endpoints the media of each
  endpoint goes to, rebuilt from the endpoints' directions, and which destinations need a
  mixer.  A hash set is a list without duplicates.
\<close>

section \<open>Definitions\<close>

text \<open>\<open>EndpointDirection\<close> of \<open>src/src/control/protocol.rs\<close>; the peer's point of view.\<close>

datatype endpoint_direction = SendRecv | RecvOnly | SendOnly | Inactive

fun EndpointDirection_is_sending :: "endpoint_direction \<Rightarrow> bool" where
  "EndpointDirection_is_sending d \<longleftrightarrow> d = SendRecv \<or> d = RecvOnly"

type_synonym endpoint_entry = "endpoint_id \<times> endpoint_direction \<times> bool"

record routing_table =
  rt_routes :: "(endpoint_id, endpoint_id list) hash_map"
  rt_multi_source_dests :: "endpoint_id list"

definition RoutingTable_new :: routing_table where
  "RoutingTable_new = \<lparr>rt_routes = [], rt_multi_source_dests = []\<rparr>"

definition route_dests :: "endpoint_entry list \<Rightarrow> endpoint_id \<Rightarrow> bool \<Rightarrow> endpoint_id list" where
  "route_dests endpoints src_id src_is_bridge =
     remdups (map fst (filter (\<lambda>(dst_id, dst_dir, dst_is_bridge).
        dst_id \<noteq> src_id \<and> dst_dir \<noteq> SendOnly \<and> dst_dir \<noteq> Inactive \<and> \<not> (src_is_bridge \<and> dst_is_bridge))
      endpoints))"

fun add_routes ::
  "endpoint_entry list \<Rightarrow> endpoint_entry list \<Rightarrow> (endpoint_id, endpoint_id list) hash_map
     \<Rightarrow> (endpoint_id, endpoint_id list) hash_map" where
  "add_routes endpoints [] routes = routes"
| "add_routes endpoints ((src_id, src_dir, src_is_bridge) # rest) routes =
     add_routes endpoints rest
       (if src_dir = RecvOnly \<or> src_dir = Inactive then routes
        else let dests = route_dests endpoints src_id src_is_bridge
             in if dests = [] then routes else hm_insert src_id dests routes)"

fun count_sources :: "endpoint_id list \<Rightarrow> (endpoint_id, nat) hash_map \<Rightarrow> (endpoint_id, nat) hash_map" where
  "count_sources [] counts = counts"
| "count_sources (d # ds) counts = count_sources ds (hm_insert d (hm_entry counts d 0 + 1) counts)"

definition dest_source_count :: "(endpoint_id, endpoint_id list) hash_map \<Rightarrow> (endpoint_id, nat) hash_map" where
  "dest_source_count routes = fold count_sources (map snd routes) []"

definition RoutingTable_rebuild :: "routing_table \<Rightarrow> endpoint_entry list \<Rightarrow> routing_table" where
  "RoutingTable_rebuild t endpoints =
     (let routes = add_routes endpoints endpoints []
      in t\<lparr>rt_routes := routes,
           rt_multi_source_dests := map fst (filter (\<lambda>(_, count). 2 \<le> count) (dest_source_count routes))\<rparr>)"

definition RoutingTable_destinations :: "routing_table \<Rightarrow> endpoint_id \<Rightarrow> endpoint_id list option" where
  "RoutingTable_destinations t source = hm_get (rt_routes t) source"

definition RoutingTable_is_multi_source :: "routing_table \<Rightarrow> endpoint_id \<Rightarrow> bool" where
  "RoutingTable_is_multi_source t dest \<longleftrightarrow> dest \<in> set (rt_multi_source_dests t)"

definition RoutingTable_multi_source_destinations :: "routing_table \<Rightarrow> endpoint_id list" where
  "RoutingTable_multi_source_destinations t = rt_multi_source_dests t"

definition RoutingTable_sources_for :: "routing_table \<Rightarrow> endpoint_id \<Rightarrow> endpoint_id list" where
  "RoutingTable_sources_for t dest = map fst (filter (\<lambda>(_, dests). dest \<in> set dests) (rt_routes t))"

section \<open>The specification\<close>

text \<open>Media flows from one endpoint to another when they differ, the one may send into the session,
  the other may receive from it, and not both are bridges.\<close>

definition flows :: "endpoint_entry list \<Rightarrow> endpoint_id \<Rightarrow> endpoint_id \<Rightarrow> bool" where
  "flows endpoints src dst \<longleftrightarrow> src \<noteq> dst \<and>
     (\<exists>sd sb dd db. (src, sd, sb) \<in> set endpoints \<and> (dst, dd, db) \<in> set endpoints
        \<and> sd \<in> {SendRecv, SendOnly} \<and> dd \<in> {SendRecv, RecvOnly} \<and> \<not> (sb \<and> db))"

section \<open>Lemmas\<close>

lemma receiving: "d \<in> {SendRecv, RecvOnly} \<longleftrightarrow> d \<noteq> SendOnly \<and> d \<noteq> Inactive"
  by (cases d) auto

lemma set_route_dests:
  "dst \<in> set (route_dests endpoints src sb) \<longleftrightarrow> dst \<noteq> src
     \<and> (\<exists>dd db. (dst, dd, db) \<in> set endpoints \<and> dd \<in> {SendRecv, RecvOnly} \<and> \<not> (sb \<and> db))"
  unfolding route_dests_def receiving by (force simp: image_iff)

lemma distinct_route_dests [simp]: "distinct (route_dests endpoints src sb)"
  by (simp add: route_dests_def)

lemma add_routes_wf: "hm_wf routes \<Longrightarrow> hm_wf (add_routes endpoints rest routes)"
  by (induction endpoints rest routes rule: add_routes.induct) (simp_all add: Let_def)

text \<open>With distinct endpoint ids every source is visited once.\<close>

lemma add_routes_get:
  assumes "distinct (map fst rest)"
  shows "hm_get (add_routes endpoints rest routes) src =
    (case map_of rest src of
       Some (sd, sb) \<Rightarrow>
         if sd \<in> {SendRecv, SendOnly} \<and> route_dests endpoints src sb \<noteq> []
         then Some (route_dests endpoints src sb) else hm_get routes src
     | None \<Rightarrow> hm_get routes src)"
  using assms
proof (induction endpoints rest routes rule: add_routes.induct)
  case (2 endpoints i d b rest routes)
  have dir: "d \<in> {SendRecv, SendOnly} \<longleftrightarrow> \<not> (d = RecvOnly \<or> d = Inactive)" by (cases d) auto
  have none: "map_of rest i = None"
    using 2(2) by (auto simp: map_of_eq_None_iff)
  have keep: "hm_get (if d = RecvOnly \<or> d = Inactive then routes
        else let dests = route_dests endpoints i b in if dests = [] then routes else hm_insert i dests routes) src
    = (if src = i \<and> d \<in> {SendRecv, SendOnly} \<and> route_dests endpoints i b \<noteq> []
       then Some (route_dests endpoints i b) else hm_get routes src)"
    unfolding dir by (simp add: Let_def)
  from 2 show ?case
    unfolding add_routes.simps by (simp only: keep) (auto simp: none split: option.splits)
qed simp

lemma distinct_ids_unique:
  "distinct (map fst endpoints) \<Longrightarrow> (i, d, b) \<in> set endpoints \<longleftrightarrow> map_of endpoints i = Some (d, b)"
  by (metis map_of_eq_Some_iff)

text \<open>Rebuilding the table yields exactly the flows.\<close>

lemma rebuild_get:
  assumes "distinct (map fst endpoints)"
  shows "(\<exists>ds. hm_get (add_routes endpoints endpoints []) src = Some ds \<and> dst \<in> set ds)
     \<longleftrightarrow> flows endpoints src dst"
proof -
  have "dst \<in> set (route_dests endpoints src sb) \<Longrightarrow> route_dests endpoints src sb \<noteq> []" for sb by auto
  then show ?thesis
    unfolding add_routes_get [OF assms] flows_def
    by (auto simp: set_route_dests distinct_ids_unique [OF assms] split: option.splits)
qed

subsection \<open>Counting sources\<close>

lemma count_sources_entry:
  "hm_entry (count_sources ds counts) d 0 = hm_entry counts d 0 + count_list ds d"
  by (induction ds counts rule: count_sources.induct) (simp_all add: hm_entry_def)

lemma count_list_distinct: "distinct ds \<Longrightarrow> count_list ds d = (if d \<in> set ds then 1 else 0)"
  by (induction ds) (auto simp: count_list_0_iff)

lemma count_sources_wf: "hm_wf counts \<Longrightarrow> hm_wf (count_sources ds counts)"
  by (induction ds counts rule: count_sources.induct) simp_all

lemma fold_count_wf: "hm_wf counts \<Longrightarrow> hm_wf (fold count_sources dss counts)"
  by (induction dss arbitrary: counts) (simp_all add: count_sources_wf)

lemma fold_count_entry:
  "list_all distinct dss \<Longrightarrow>
     hm_entry (fold count_sources dss counts) d 0 = hm_entry counts d 0 + length (filter (\<lambda>ds. d \<in> set ds) dss)"
  by (induction dss arbitrary: counts) (simp_all add: count_sources_entry count_list_distinct)

lemma add_routes_distinct:
  "list_all (\<lambda>r. distinct (snd r)) routes \<Longrightarrow> list_all (\<lambda>r. distinct (snd r)) (add_routes endpoints rest routes)"
proof (induction endpoints rest routes rule: add_routes.induct)
  case (2 endpoints i d b rest routes)
  have "set (hm_insert i (route_dests endpoints i b) routes)
      \<subseteq> insert (i, route_dests endpoints i b) (set routes)"
    unfolding hm_insert_def by (induction routes) auto
  with 2(2) have "list_all (\<lambda>r. distinct (snd r)) (hm_insert i (route_dests endpoints i b) routes)"
    by (auto simp: list_all_iff)
  with 2 show ?case by (simp add: Let_def)
qed simp

lemma entries_at_least:
  assumes "hm_wf m"
  shows "d \<in> set (map fst (filter (\<lambda>(_, count). Suc n \<le> count) m)) \<longleftrightarrow> Suc n \<le> hm_entry m d 0"
proof -
  have "(d, c) \<in> set m \<longleftrightarrow> hm_get m d = Some c" for c
    using assms by (simp add: hm_wf_def hm_get_def)
  then show ?thesis by (force simp: hm_entry_def image_iff split: option.splits)
qed

lemma multi_source_length:
  "RoutingTable_is_multi_source (RoutingTable_rebuild t endpoints) d
     \<longleftrightarrow> 2 \<le> length (RoutingTable_sources_for (RoutingTable_rebuild t endpoints) d)"
proof -
  let ?r = "add_routes endpoints endpoints []"
  have "hm_wf (dest_source_count ?r)" unfolding dest_source_count_def by (rule fold_count_wf) simp
  note at_least = entries_at_least [OF this, of d 1]
  have "list_all distinct (map snd ?r)"
    using add_routes_distinct [of "[]" endpoints endpoints] by (simp add: list_all_iff)
  then have "hm_entry (dest_source_count ?r) d 0 = length (filter (\<lambda>ds. d \<in> set ds) (map snd ?r))"
    by (simp add: dest_source_count_def fold_count_entry) (simp add: hm_entry_def hm_get_def)
  also have "\<dots> = length (RoutingTable_sources_for (RoutingTable_rebuild t endpoints) d)"
    by (simp add: RoutingTable_sources_for_def RoutingTable_rebuild_def Let_def filter_map comp_def split_def)
  finally show ?thesis
    using at_least by (simp add: RoutingTable_is_multi_source_def RoutingTable_rebuild_def Let_def numeral_2_eq_2)
qed

lemma distinct_sources: "distinct (RoutingTable_sources_for (RoutingTable_rebuild t endpoints) d)"
proof -
  have "distinct (map fst (add_routes endpoints endpoints []))"
    using add_routes_wf [OF hm.wf_new, of endpoints endpoints] unfolding hm_wf_def .
  then show ?thesis
    by (simp add: RoutingTable_sources_for_def RoutingTable_rebuild_def Let_def distinct_map_filter)
qed

lemma sources_for_get:
  "src \<in> set (RoutingTable_sources_for (RoutingTable_rebuild t endpoints) dst)
     \<longleftrightarrow> (\<exists>ds. hm_get (add_routes endpoints endpoints []) src = Some ds \<and> dst \<in> set ds)"
proof -
  have "hm_wf (add_routes endpoints endpoints [])" by (simp add: add_routes_wf)
  then have "(src, ds) \<in> set (add_routes endpoints endpoints [])
      \<longleftrightarrow> hm_get (add_routes endpoints endpoints []) src = Some ds" for ds
    by (simp add: hm_wf_def hm_get_def)
  then show ?thesis
    by (force simp: RoutingTable_sources_for_def RoutingTable_rebuild_def Let_def image_iff)
qed

section \<open>Properties\<close>

text \<open>C29. The routing table is exactly the flow relation of the endpoints' directions: an endpoint
  never hears itself, a bridge never hears another bridge, only endpoints that may send are sources
  and only endpoints that may receive are destinations.  Looking a destination's sources up inverts
  looking a source's destinations up, and a destination is mixed exactly when two or more endpoints
  flow to it.\<close>

theorem rebuild_is_flows:
  assumes "distinct (map fst endpoints)"
  shows "let t' = RoutingTable_rebuild t endpoints in
    ((\<exists>ds. RoutingTable_destinations t' src = Some ds \<and> dst \<in> set ds) \<longleftrightarrow> flows endpoints src dst)
    \<and> (src \<in> set (RoutingTable_sources_for t' dst) \<longleftrightarrow> flows endpoints src dst)
    \<and> (RoutingTable_is_multi_source t' dst \<longleftrightarrow> 2 \<le> card {src. flows endpoints src dst})"
proof -
  let ?t = "RoutingTable_rebuild t endpoints"
  have dests: "(\<exists>ds. RoutingTable_destinations ?t src = Some ds \<and> dst \<in> set ds) \<longleftrightarrow> flows endpoints src dst"
    using rebuild_get [OF assms] by (simp add: RoutingTable_destinations_def RoutingTable_rebuild_def Let_def)
  have srcs: "s \<in> set (RoutingTable_sources_for ?t dst) \<longleftrightarrow> flows endpoints s dst" for s
    using rebuild_get [OF assms] by (simp add: sources_for_get)
  then have "{src. flows endpoints src dst} = set (RoutingTable_sources_for ?t dst)" by blast
  then have "card {src. flows endpoints src dst} = length (RoutingTable_sources_for ?t dst)"
    by (simp add: distinct_card distinct_sources)
  with dests srcs show ?thesis by (simp add: Let_def multi_source_length)
qed

theorem rebuild_is_flows_witness:
  "distinct (map fst [(1 :: endpoint_id, SendRecv, False), (2, SendRecv, False), (3, RecvOnly, True)])
   \<and> RoutingTable_is_multi_source
       (RoutingTable_rebuild RoutingTable_new [(1, SendRecv, False), (2, SendRecv, False), (3, RecvOnly, True)]) 3"
proof -
  let ?e = "[(1, SendRecv, False), (2, SendRecv, False), (3, RecvOnly, True)] :: endpoint_entry list"
  have d: "distinct (map fst ?e)" by simp
  have "{src. flows ?e src 3} = {1, 2}" by (auto simp: flows_def)
  then have "card {src. flows ?e src 3} = 2" by simp
  with rebuild_is_flows [OF d, of RoutingTable_new 0 3] d show ?thesis by (simp add: Let_def)
qed

end
