(* ===== verification/Stats.thy ===== *)
theory Stats
  imports Rtp_Header Seq_Tracking
begin

unbundle bit_operations_syntax

text \<open>
  The counters of an endpoint (\<open>src/src/session/stats.rs\<close>): what its socket delivers before
  any demultiplexing, and the media it sends and receives.  The atomic counters are updated
  by one receiving task, so an update is a step of a record; the two loops that several
  tasks may run at once (\<open>update_max\<close>, \<open>update_min\<close>) are also modelled as a step relation
  with the interleavings of their loads and weak compare-exchanges.
\<close>

section \<open>Definitions\<close>

definition duration_ms :: "duration \<Rightarrow> u64" where
  "duration_ms d = of_nat (min (as_millis d) (2 ^ 64 - 1))"

definition update_max :: "u64 \<Rightarrow> u64 \<Rightarrow> u64" where
  "update_max current candidate = (if current < candidate then candidate else current)"

definition update_min :: "u64 \<Rightarrow> u64 \<Rightarrow> u64" where
  "update_min current candidate = (if candidate < current then candidate else current)"

definition parse_raw_rtp_header :: "bytes \<Rightarrow> (u16 \<times> u32) option" where
  "parse_raw_rtp_header data =
     (if length data < 12 \<or> data ! 0 AND 0xC0 \<noteq> 0x80 then None
      else if 192 \<le> data ! 1 \<and> data ! 1 \<le> 223 then None
      else
        let csrc_count = unat (data ! 0 AND 0x0F) in
        if length data < 12 + csrc_count * 4 then None
        else Some (from_be16 (data ! 2) (data ! 3),
                   from_be32 (data ! 8) (data ! 9) (data ! 10) (data ! 11)))"

record raw_recv_counters =
  rw_packets :: u64
  rw_bytes :: u64
  rw_recv_loop_gap_ms :: u64
  rw_max_recv_loop_gap_ms :: u64
  rw_enqueue_wait_ms :: u64
  rw_max_enqueue_wait_ms :: u64
  rw_dequeue_delay_ms :: u64
  rw_max_dequeue_delay_ms :: u64
  rw_channel_capacity :: u64
  rw_min_channel_capacity :: u64
  rw_channel_overflows :: u64
  rw_source_rejections :: u64
  rw_raw_rtp_packets :: u64
  rw_raw_rtp_bytes :: u64
  rw_raw_rtp_packets_lost :: u64
  rw_raw_rtp_sequence_gaps :: u64
  rw_raw_rtp_max_sequence_gap :: u64
  rw_raw_rtp_duplicate_packets :: u64
  rw_raw_rtp_out_of_order_packets :: u64
  rw_raw_rtp_sequence_resets :: u64
  rw_raw_rtp_last_sequence :: u64
  rw_raw_rtp_last_ssrc :: u64
  rw_raw_rtp_initialized :: bool

definition RawRecvCounters_default :: raw_recv_counters where
  "RawRecvCounters_default =
     \<lparr>rw_packets = 0, rw_bytes = 0, rw_recv_loop_gap_ms = 0, rw_max_recv_loop_gap_ms = 0,
      rw_enqueue_wait_ms = 0, rw_max_enqueue_wait_ms = 0, rw_dequeue_delay_ms = 0,
      rw_max_dequeue_delay_ms = 0, rw_channel_capacity = 0, rw_min_channel_capacity = - 1,
      rw_channel_overflows = 0, rw_source_rejections = 0, rw_raw_rtp_packets = 0,
      rw_raw_rtp_bytes = 0, rw_raw_rtp_packets_lost = 0, rw_raw_rtp_sequence_gaps = 0,
      rw_raw_rtp_max_sequence_gap = 0, rw_raw_rtp_duplicate_packets = 0,
      rw_raw_rtp_out_of_order_packets = 0, rw_raw_rtp_sequence_resets = 0,
      rw_raw_rtp_last_sequence = 0, rw_raw_rtp_last_ssrc = 0, rw_raw_rtp_initialized = False\<rparr>"

definition RawRecvCounters_record :: "raw_recv_counters \<Rightarrow> nat \<Rightarrow> raw_recv_counters" where
  "RawRecvCounters_record c bytes = c\<lparr>rw_packets := rw_packets c + 1, rw_bytes := rw_bytes c + of_nat bytes\<rparr>"

definition RawRecvCounters_record_recv_diagnostics ::
  "raw_recv_counters \<Rightarrow> duration option \<Rightarrow> nat \<Rightarrow> raw_recv_counters" where
  "RawRecvCounters_record_recv_diagnostics c recv_gap channel_capacity =
     (let c = (case recv_gap of
                 Some gap \<Rightarrow>
                   let gap_ms = duration_ms gap in
                   c\<lparr>rw_recv_loop_gap_ms := gap_ms,
                     rw_max_recv_loop_gap_ms := update_max (rw_max_recv_loop_gap_ms c) gap_ms\<rparr>
               | None \<Rightarrow> c);
          capacity = of_nat channel_capacity
      in c\<lparr>rw_channel_capacity := capacity,
           rw_min_channel_capacity := update_min (rw_min_channel_capacity c) capacity\<rparr>)"

definition RawRecvCounters_record_enqueue_wait :: "raw_recv_counters \<Rightarrow> duration \<Rightarrow> raw_recv_counters" where
  "RawRecvCounters_record_enqueue_wait c wait =
     (let wait_ms = duration_ms wait in
      c\<lparr>rw_enqueue_wait_ms := wait_ms,
        rw_max_enqueue_wait_ms := update_max (rw_max_enqueue_wait_ms c) wait_ms\<rparr>)"

definition RawRecvCounters_record_dequeue_delay :: "raw_recv_counters \<Rightarrow> duration \<Rightarrow> raw_recv_counters" where
  "RawRecvCounters_record_dequeue_delay c delay =
     (let delay_ms = duration_ms delay in
      c\<lparr>rw_dequeue_delay_ms := delay_ms,
        rw_max_dequeue_delay_ms := update_max (rw_max_dequeue_delay_ms c) delay_ms\<rparr>)"

definition RawRecvCounters_record_source_rejection :: "raw_recv_counters \<Rightarrow> raw_recv_counters" where
  "RawRecvCounters_record_source_rejection c = c\<lparr>rw_source_rejections := rw_source_rejections c + 1\<rparr>"

definition RawRecvCounters_record_channel_overflow :: "raw_recv_counters \<Rightarrow> raw_recv_counters" where
  "RawRecvCounters_record_channel_overflow c = c\<lparr>rw_channel_overflows := rw_channel_overflows c + 1\<rparr>"

definition RawRecvCounters_record_raw_rtp_datagram :: "raw_recv_counters \<Rightarrow> bytes \<Rightarrow> raw_recv_counters" where
  "RawRecvCounters_record_raw_rtp_datagram c data =
     (case parse_raw_rtp_header data of
        None \<Rightarrow> c
      | Some (seq, ssrc) \<Rightarrow>
          let c = c\<lparr>rw_raw_rtp_packets := rw_raw_rtp_packets c + 1,
                    rw_raw_rtp_bytes := rw_raw_rtp_bytes c + of_nat (length data)\<rparr>;
              seq = ucast seq :: u64; ssrc = ucast ssrc :: u64
          in if \<not> rw_raw_rtp_initialized c then
               c\<lparr>rw_raw_rtp_initialized := True, rw_raw_rtp_last_sequence := seq, rw_raw_rtp_last_ssrc := ssrc\<rparr>
             else if rw_raw_rtp_last_ssrc c \<noteq> ssrc then
               c\<lparr>rw_raw_rtp_sequence_resets := rw_raw_rtp_sequence_resets c + 1,
                 rw_raw_rtp_last_sequence := seq, rw_raw_rtp_last_ssrc := ssrc\<rparr>
             else
               let last_seq = ucast (rw_raw_rtp_last_sequence c) :: u16;
                   seq16 = ucast seq :: u16;
                   delta = seq16 - last_seq
               in if delta = 0 then
                    c\<lparr>rw_raw_rtp_duplicate_packets := rw_raw_rtp_duplicate_packets c + 1\<rparr>
                  else if delta = 1 then c\<lparr>rw_raw_rtp_last_sequence := seq\<rparr>
                  else if delta \<le> 0x7FFF then
                    let missing = ucast (delta - 1) :: u64 in
                    c\<lparr>rw_raw_rtp_packets_lost := rw_raw_rtp_packets_lost c + missing,
                      rw_raw_rtp_sequence_gaps := rw_raw_rtp_sequence_gaps c + 1,
                      rw_raw_rtp_max_sequence_gap := update_max (rw_raw_rtp_max_sequence_gap c) missing,
                      rw_raw_rtp_last_sequence := seq\<rparr>
                  else c\<lparr>rw_raw_rtp_out_of_order_packets := rw_raw_rtp_out_of_order_packets c + 1\<rparr>)"

text \<open>The getters that are more than a field; the others are the fields themselves.\<close>

definition RawRecvCounters_min_channel_capacity :: "raw_recv_counters \<Rightarrow> u64 option" where
  "RawRecvCounters_min_channel_capacity c =
     (if rw_min_channel_capacity c = - 1 then None else Some (rw_min_channel_capacity c))"

definition RawRecvCounters_raw_rtp_last_sequence :: "raw_recv_counters \<Rightarrow> u64 option" where
  "RawRecvCounters_raw_rtp_last_sequence c =
     (if rw_raw_rtp_initialized c then Some (rw_raw_rtp_last_sequence c) else None)"

definition RawRecvCounters_raw_rtp_last_ssrc :: "raw_recv_counters \<Rightarrow> u64 option" where
  "RawRecvCounters_raw_rtp_last_ssrc c =
     (if rw_raw_rtp_initialized c then Some (rw_raw_rtp_last_ssrc c) else None)"

subsection \<open>The media counters\<close>

record endpoint_stats =
  es_inbound_packets :: u64
  es_inbound_bytes :: u64
  es_outbound_packets :: u64
  es_outbound_bytes :: u64
  es_last_received :: "instant option"
  es_created_at :: instant

definition EndpointStats_new :: "instant \<Rightarrow> endpoint_stats" where
  "EndpointStats_new now =
     \<lparr>es_inbound_packets = 0, es_inbound_bytes = 0, es_outbound_packets = 0, es_outbound_bytes = 0,
      es_last_received = None, es_created_at = now\<rparr>"

definition EndpointStats_record_inbound :: "endpoint_stats \<Rightarrow> nat \<Rightarrow> instant \<Rightarrow> endpoint_stats" where
  "EndpointStats_record_inbound s bytes now =
     s\<lparr>es_inbound_packets := es_inbound_packets s + 1,
       es_inbound_bytes := es_inbound_bytes s + of_nat bytes, es_last_received := Some now\<rparr>"

definition EndpointStats_record_outbound :: "endpoint_stats \<Rightarrow> nat \<Rightarrow> endpoint_stats" where
  "EndpointStats_record_outbound s bytes =
     s\<lparr>es_outbound_packets := es_outbound_packets s + 1,
       es_outbound_bytes := es_outbound_bytes s + of_nat bytes\<rparr>"

definition EndpointStats_ms_since_last_received :: "endpoint_stats \<Rightarrow> instant \<Rightarrow> u64 option" where
  "EndpointStats_ms_since_last_received s now =
     map_option (\<lambda>t. of_nat (as_millis (saturating_duration_since now t))) (es_last_received s)"

subsection \<open>Concurrent updates of a maximum\<close>

text \<open>Each task loads the value and then tries to exchange it while its candidate is larger; a weak
  compare-exchange may fail although the value is the expected one, and hands back the value it
  saw.\<close>

datatype cas_pc = Loading | Trying u64 | Finished

inductive max_step :: "u64 list \<Rightarrow> u64 \<times> cas_pc list \<Rightarrow> u64 \<times> cas_pc list \<Rightarrow> bool" for cs where
  load: "i < length pcs \<Longrightarrow> pcs ! i = Loading \<Longrightarrow> max_step cs (v, pcs) (v, pcs[i := Trying v])"
| leave: "i < length pcs \<Longrightarrow> pcs ! i = Trying cur \<Longrightarrow> \<not> cur < cs ! i \<Longrightarrow>
    max_step cs (v, pcs) (v, pcs[i := Finished])"
| exchange: "i < length pcs \<Longrightarrow> pcs ! i = Trying cur \<Longrightarrow> cur < cs ! i \<Longrightarrow> v = cur \<Longrightarrow>
    max_step cs (v, pcs) (cs ! i, pcs[i := Finished])"
| retry: "i < length pcs \<Longrightarrow> pcs ! i = Trying cur \<Longrightarrow> cur < cs ! i \<Longrightarrow>
    max_step cs (v, pcs) (v, pcs[i := Trying v])"

inductive_cases max_stepE: "max_step cs (v, pcs) (v', pcs')"

section \<open>Concurrent updates\<close>

definition max_inv :: "u64 list \<Rightarrow> u64 \<Rightarrow> u64 \<times> cas_pc list \<Rightarrow> bool" where
  "max_inv cs v0 s \<longleftrightarrow> (case s of (v, pcs) \<Rightarrow>
     length pcs = length cs \<and> v \<in> insert v0 (set cs) \<and> v0 \<le> v
     \<and> (\<forall>i < length cs. case pcs ! i of
          Loading \<Rightarrow> True | Trying cur \<Rightarrow> cur \<le> v | Finished \<Rightarrow> cs ! i \<le> v))"

lemma max_inv_step:
  assumes "max_step cs s s'" "max_inv cs v0 s"
  shows "max_inv cs v0 s'"
  using assms
proof (induction rule: max_step.induct)
  case (exchange i pcs cur v)
  from exchange have *: "length pcs = length cs" "i < length cs" "v0 \<le> v" "v < cs ! i"
    "\<forall>j < length cs. case pcs ! j of Loading \<Rightarrow> True | Trying cur \<Rightarrow> cur \<le> v | Finished \<Rightarrow> cs ! j \<le> v"
    by (auto simp: max_inv_def)
  have "case pcs[i := Finished] ! j of Loading \<Rightarrow> True | Trying cur \<Rightarrow> cur \<le> cs ! i | Finished \<Rightarrow> cs ! j \<le> cs ! i"
    if "j < length cs" for j
    using * that by (cases "pcs ! j") (auto simp: nth_list_update split: cas_pc.splits)
  with * show ?case by (simp add: max_inv_def less_imp_le order.trans)
qed (auto simp: max_inv_def nth_list_update)

lemma max_inv_run: "(max_step cs)\<^sup>*\<^sup>* s s' \<Longrightarrow> max_inv cs v0 s \<Longrightarrow> max_inv cs v0 s'"
  by (induction rule: rtranclp_induct) (auto intro: max_inv_step)

lemma fold_max_word: "fold max cs v = Max (insert v (set cs))" for v :: u64
  by (metis Max.set_eq_fold list.simps(15))

section \<open>Classifying the packets of a stream\<close>

text \<open>How many packets are missing at each advance of the newest index; how many arrive again as the
  newest one, and how many behind it.\<close>

fun misses :: "nat \<Rightarrow> nat list \<Rightarrow> nat list" where
  "misses h [] = []"
| "misses h (i # is) = (if h < i then (i - h - 1) # misses i is else misses h is)"

fun repeats :: "nat \<Rightarrow> nat list \<Rightarrow> nat" where
  "repeats h [] = 0"
| "repeats h (i # is) = of_bool (i = h) + repeats (max h i) is"

fun laggards :: "nat \<Rightarrow> nat list \<Rightarrow> nat" where
  "laggards h [] = 0"
| "laggards h (i # is) = of_bool (i < h) + laggards (max h i) is"

lemma misses_span: "sum_list (misses h is) + length (misses h is) + h = fold max is h"
proof (induction "is" arbitrary: h)
  case (Cons i "is")
  show ?case
  proof (cases "h < i")
    case True
    then show ?thesis using Cons [of i] by (simp add: max_absorb1)
  next
    case False
    then show ?thesis using Cons [of h] by (simp add: max_absorb2)
  qed
qed simp

lemma sum_misses: "sum_list (misses h (i # is)) = (i - h - 1) + sum_list (misses (max h i) is)"
  by (simp add: max_def)

lemma gaps_misses:
  "length (filter ((<) 0) (misses h (i # is))) = of_bool (h + 1 < i) + length (filter ((<) 0) (misses (max h i) is))"
  by (auto simp: max_def)

lemma misses_repeats_laggards: "length (misses h is) + repeats h is + laggards h is = length is"
  by (induction "is" arbitrary: h) (auto simp: max_def)

definition raw_stream :: "u32 \<Rightarrow> nat list \<Rightarrow> bytes list \<Rightarrow> bool" where
  "raw_stream ssrc is ds \<longleftrightarrow> list_all2 (\<lambda>i d. parse_raw_rtp_header d = Some (of_nat i, ssrc)) is ds"

definition raw_at :: "u32 \<Rightarrow> nat \<Rightarrow> raw_recv_counters \<Rightarrow> bool" where
  "raw_at ssrc h c \<longleftrightarrow> rw_raw_rtp_initialized c \<and> rw_raw_rtp_last_ssrc c = ucast ssrc
     \<and> rw_raw_rtp_last_sequence c = ucast (of_nat h :: u16)"

lemma ucast_u16_u64: "ucast (ucast x :: u64) = x" for x :: u16
  by (rule bit_word_eqI) (simp add: bit_simps)

lemma raw_delta:
  assumes "near limit h i"
  shows "h \<le> i \<Longrightarrow> unat (of_nat i - of_nat h :: u16) = i - h"
    and "i < h \<Longrightarrow> unat (of_nat i - of_nat h :: u16) = 65536 - (h - i)"
proof -
  have lt: "i - h < 65536" "h - i < 65536" using assms by (auto simp: near_def)
  show "unat (of_nat i - of_nat h :: u16) = i - h" if "h \<le> i"
  proof -
    have "(of_nat i - of_nat h :: u16) = of_nat (i - h)" using that by (simp add: of_nat_diff)
    then show ?thesis using lt by (simp add: unat_of_nat_seq)
  qed
  show "unat (of_nat i - of_nat h :: u16) = 65536 - (h - i)" if "i < h"
  proof -
    have "(of_nat 65536 :: u16) = 0" by simp
    then have eq: "(of_nat i - of_nat h :: u16) = of_nat (65536 - (h - i))"
      using that lt by (simp add: of_nat_diff)
    show ?thesis unfolding eq unat_of_nat_seq using that lt by simp
  qed
qed

text \<open>What a datagram of the same source does, by the distance of its sequence number.\<close>

definition raw_advance :: "raw_recv_counters \<Rightarrow> u16 \<Rightarrow> u64 \<Rightarrow> raw_recv_counters" where
  "raw_advance c seq missing =
     c\<lparr>rw_raw_rtp_packets_lost := rw_raw_rtp_packets_lost c + missing,
       rw_raw_rtp_sequence_gaps := rw_raw_rtp_sequence_gaps c + 1,
       rw_raw_rtp_max_sequence_gap := update_max (rw_raw_rtp_max_sequence_gap c) missing,
       rw_raw_rtp_last_sequence := ucast seq\<rparr>"

definition raw_counted :: "raw_recv_counters \<Rightarrow> nat \<Rightarrow> raw_recv_counters" where
  "raw_counted c n = c\<lparr>rw_raw_rtp_packets := rw_raw_rtp_packets c + 1,
     rw_raw_rtp_bytes := rw_raw_rtp_bytes c + of_nat n\<rparr>"

lemma raw_record_same_source:
  assumes "rw_raw_rtp_initialized c" "rw_raw_rtp_last_ssrc c = ucast ssrc" "rw_raw_rtp_last_sequence c = ucast t"
    "parse_raw_rtp_header d = Some (s, ssrc)"
  shows "RawRecvCounters_record_raw_rtp_datagram c d =
    (let c = raw_counted c (length d) in
     if s - t = 0 then c\<lparr>rw_raw_rtp_duplicate_packets := rw_raw_rtp_duplicate_packets c + 1\<rparr>
     else if s - t = 1 then c\<lparr>rw_raw_rtp_last_sequence := ucast s\<rparr>
     else if s - t \<le> 0x7FFF then raw_advance c s (ucast (s - t - 1))
     else c\<lparr>rw_raw_rtp_out_of_order_packets := rw_raw_rtp_out_of_order_packets c + 1\<rparr>)"
proof -
  have k: "rw_raw_rtp_initialized (raw_counted c n)" "rw_raw_rtp_last_ssrc (raw_counted c n) = ucast ssrc"
    "rw_raw_rtp_last_sequence (raw_counted c n) = ucast t" for n
    using assms(1-3) by (simp_all only: raw_counted_def) simp_all
  show ?thesis
    unfolding RawRecvCounters_record_raw_rtp_datagram_def assms(4) option.case prod.case Let_def
      raw_counted_def [symmetric]
    by (simp only: k ucast_u16_u64 raw_advance_def simp_thms not_True_eq_False if_False)
qed

lemma raw_step:
  assumes c: "raw_at ssrc h c" and d: "parse_raw_rtp_header d = Some (of_nat i, ssrc)" and near: "near limit h i"
  defines "c' \<equiv> RawRecvCounters_record_raw_rtp_datagram c d"
  shows "raw_at ssrc (max h i) c'"
    and "rw_raw_rtp_packets c' = rw_raw_rtp_packets c + 1"
    and "rw_raw_rtp_packets_lost c' = rw_raw_rtp_packets_lost c + of_nat (i - h - 1)"
    and "rw_raw_rtp_sequence_gaps c' = rw_raw_rtp_sequence_gaps c + of_bool (h + 1 < i)"
    and "rw_raw_rtp_duplicate_packets c' = rw_raw_rtp_duplicate_packets c + of_bool (i = h)"
    and "rw_raw_rtp_out_of_order_packets c' = rw_raw_rtp_out_of_order_packets c + of_bool (i < h)"
    and "rw_raw_rtp_sequence_resets c' = rw_raw_rtp_sequence_resets c"
proof -
  define s t :: u16 where "s = of_nat i" and "t = of_nat h"
  have range: "i \<le> h + 0x7FFF" "h \<le> i + 0x7FFF" using near by (simp_all add: near_def)
  have unat: "unat (s - t) = (if h \<le> i then i - h else 65536 - (h - i))"
    using raw_delta [OF near] by (simp add: s_def t_def)
  have "s - t = 0 \<longleftrightarrow> unat (s - t) = 0" "s - t = 1 \<longleftrightarrow> unat (s - t) = 1"
    "s - t \<le> 0x7FFF \<longleftrightarrow> unat (s - t) \<le> 0x7FFF"
    by (simp_all add: word_unat_eq_iff word_le_nat_alt)
  then have delta: "s - t = 0 \<longleftrightarrow> i = h" "s - t = 1 \<longleftrightarrow> i = h + 1" "s - t \<le> 0x7FFF \<longleftrightarrow> h \<le> i"
    using range unat by (auto split: if_splits)
  have missing: "(ucast (s - t - 1) :: u64) = of_nat (i - h - 1)" if "h < i"
  proof -
    have "s - t - 1 = of_nat (i - h - 1)" using that by (simp add: of_nat_diff s_def t_def)
    moreover have "i - h - 1 < 65536" using range by simp
    ultimately show ?thesis by (simp add: unsigned_of_nat take_bit_nat_eq_self)
  qed
  have at: "rw_raw_rtp_initialized c" "rw_raw_rtp_last_ssrc c = ucast ssrc" "rw_raw_rtp_last_sequence c = ucast t"
    using c by (simp_all add: raw_at_def t_def)
  have eq: "c' = (let c = raw_counted c (length d) in
     if i = h then c\<lparr>rw_raw_rtp_duplicate_packets := rw_raw_rtp_duplicate_packets c + 1\<rparr>
     else if i = h + 1 then c\<lparr>rw_raw_rtp_last_sequence := ucast s\<rparr>
     else if h \<le> i then raw_advance c s (of_nat (i - h - 1))
     else c\<lparr>rw_raw_rtp_out_of_order_packets := rw_raw_rtp_out_of_order_packets c + 1\<rparr>)"
    using raw_record_same_source [OF at d [folded s_def]] missing
    unfolding c'_def delta Let_def by (auto simp del: of_nat_diff)
  consider "i = h" | "i = h + 1" "i \<noteq> h" | "h + 1 < i" | "i < h" by linarith
  then show "raw_at ssrc (max h i) c'" "rw_raw_rtp_packets c' = rw_raw_rtp_packets c + 1"
    "rw_raw_rtp_packets_lost c' = rw_raw_rtp_packets_lost c + of_nat (i - h - 1)"
    "rw_raw_rtp_sequence_gaps c' = rw_raw_rtp_sequence_gaps c + of_bool (h + 1 < i)"
    "rw_raw_rtp_duplicate_packets c' = rw_raw_rtp_duplicate_packets c + of_bool (i = h)"
    "rw_raw_rtp_out_of_order_packets c' = rw_raw_rtp_out_of_order_packets c + of_bool (i < h)"
    "rw_raw_rtp_sequence_resets c' = rw_raw_rtp_sequence_resets c"
    unfolding raw_at_def t_def [symmetric]
    using at by (cases; simp add: eq raw_counted_def raw_advance_def max_def s_def t_def Let_def del: of_nat_diff)+
qed

lemma raw_run:
  assumes "raw_at ssrc h c" "raw_stream ssrc is ds" "jitter_ok limit h is"
  shows "let c' = fold (\<lambda>d c. RawRecvCounters_record_raw_rtp_datagram c d) ds c in
     raw_at ssrc (fold max is h) c'
     \<and> rw_raw_rtp_packets c' = rw_raw_rtp_packets c + of_nat (length is)
     \<and> rw_raw_rtp_packets_lost c' = rw_raw_rtp_packets_lost c + of_nat (sum_list (misses h is))
     \<and> rw_raw_rtp_sequence_gaps c' = rw_raw_rtp_sequence_gaps c + of_nat (length (filter ((<) 0) (misses h is)))
     \<and> rw_raw_rtp_duplicate_packets c' = rw_raw_rtp_duplicate_packets c + of_nat (repeats h is)
     \<and> rw_raw_rtp_out_of_order_packets c' = rw_raw_rtp_out_of_order_packets c + of_nat (laggards h is)
     \<and> rw_raw_rtp_sequence_resets c' = rw_raw_rtp_sequence_resets c"
  using assms
proof (induction "is" arbitrary: h c ds)
  case Nil
  then show ?case by (simp add: raw_stream_def)
next
  case (Cons i "is")
  from Cons(3) obtain d ds' where ds: "ds = d # ds'" "parse_raw_rtp_header d = Some (of_nat i, ssrc)"
    and rest: "raw_stream ssrc is ds'" by (cases ds) (auto simp: raw_stream_def)
  from Cons(4) have near: "near limit h i" and jit: "jitter_ok limit (max h i) is" by simp_all
  note step = raw_step [OF Cons(2) ds(2) near]
  note run = Cons(1) [OF step(1) rest jit]
  have max_comm: "max i h = max h i" by (rule max.commute)
  show ?case
    using run
    unfolding ds(1) sum_misses gaps_misses Let_def fold.simps comp_apply repeats.simps laggards.simps max_comm
      step(2-) list.size of_nat_add of_nat_of_bool
    by (simp only: add.assoc of_nat_0 of_nat_1 One_nat_def [symmetric] plus_nat.add_0 add_Suc_right add_0_right)
      (simp add: add.commute)
qed

section \<open>Properties\<close>

text \<open>C34. When several receiving tasks raise a shared maximum at once, however their loads and weak
  compare-exchanges interleave and however often an exchange fails, no update is lost: once all of
  them have finished the value is the largest of the old value and the candidates.\<close>

theorem concurrent_update_max:
  assumes "(max_step cs)\<^sup>*\<^sup>* (v0, replicate (length cs) Loading) (v, replicate (length cs) Finished)"
  shows "v = fold (\<lambda>candidate current. update_max current candidate) cs v0"
proof -
  have "max_inv cs v0 (v0, replicate (length cs) Loading)" by (simp add: max_inv_def)
  from max_inv_run [OF assms this] have inv: "v \<in> insert v0 (set cs)" "v0 \<le> v" "\<forall>i < length cs. cs ! i \<le> v"
    by (simp_all add: max_inv_def)
  then have "\<forall>x \<in> insert v0 (set cs). x \<le> v" by (auto simp: in_set_conv_nth)
  with inv(1) have "Max (insert v0 (set cs)) = v" by (intro Max_eqI) auto
  moreover have "(\<lambda>candidate current. update_max current candidate) = max"
    by (auto simp: update_max_def max_def fun_eq_iff)
  ultimately show ?thesis by (simp only: fold_max_word)
qed

theorem concurrent_update_max_witness:
  "(max_step [9, 5])\<^sup>*\<^sup>* (3, [Loading, Loading]) (9, [Finished, Finished]) \<and> (9 :: u64) = fold (\<lambda>candidate current. update_max current candidate) [9, 5] 3"
proof -
  note step = converse_rtranclp_into_rtranclp [where r = "max_step [9, 5]"]
  have s1: "max_step [9, 5] (3, [Loading, Loading]) (3, [Trying 3, Loading])"
    using max_step.load [of 0 "[Loading, Loading]" "[9, 5]" 3] by simp
  have s2: "max_step [9, 5] (3, [Trying 3, Loading]) (3, [Trying 3, Trying 3])"
    using max_step.load [of 1 "[Trying 3, Loading]" "[9, 5]" 3] by simp
  have s3: "max_step [9, 5] (3, [Trying 3, Trying 3]) (9, [Finished, Trying 3])"
    using max_step.exchange [of 0 "[Trying 3, Trying 3]" 3 "[9, 5]" 3] by simp
  have s4: "max_step [9, 5] (9, [Finished, Trying 3]) (9, [Finished, Trying 9])"
    using max_step.retry [of 1 "[Finished, Trying 3]" 3 "[9, 5]" 9] by simp
  have s5: "max_step [9, 5] (9, [Finished, Trying 9]) (9, [Finished, Finished])"
    using max_step.leave [of 1 "[Finished, Trying 9]" 9 "[9, 5]" 9] by simp
  have run: "(max_step [9, 5])\<^sup>*\<^sup>* (3, [Loading, Loading]) (9, [Finished, Finished])"
    by (rule step [OF s1 step [OF s2 step [OF s3 step [OF s4 step [OF s5 rtranclp.rtrancl_refl]]]]])
  have r: "replicate (length [9, 5 :: u64]) pc = [pc, pc]" for pc by simp
  from concurrent_update_max [of "[9, 5]" 3 9, unfolded r] run show ?thesis by blast
qed

text \<open>C35. On one source's datagrams, lost, repeated and reordered by the network by less than half the
  sequence space, the ingress counters are exact: every datagram is counted once, the lost packets
  are the span of indices less the packets that advanced it, and every other datagram is counted
  either as a repetition of the newest or as out of order.\<close>

theorem raw_rtp_counts_exact:
  assumes "raw_stream ssrc (i # is) ds" "jitter_ok limit i is"
  shows "let c = fold (\<lambda>d c. RawRecvCounters_record_raw_rtp_datagram c d) ds RawRecvCounters_default in
     rw_raw_rtp_packets c = of_nat (Suc (length is))
     \<and> rw_raw_rtp_packets_lost c = of_nat (fold max is i - i - length (misses i is))
     \<and> rw_raw_rtp_sequence_gaps c = of_nat (length (filter ((<) 0) (misses i is)))
     \<and> rw_raw_rtp_duplicate_packets c = of_nat (repeats i is)
     \<and> rw_raw_rtp_out_of_order_packets c = of_nat (laggards i is)
     \<and> rw_raw_rtp_sequence_resets c = 0
     \<and> RawRecvCounters_raw_rtp_last_sequence c = Some (ucast (of_nat (fold max is i) :: u16))
     \<and> length (misses i is) + repeats i is + laggards i is = length is"
proof -
  from assms(1) obtain d ds' where ds: "ds = d # ds'" "parse_raw_rtp_header d = Some (of_nat i, ssrc)"
    and rest: "raw_stream ssrc is ds'" by (cases ds) (auto simp: raw_stream_def)
  define c where "c = RawRecvCounters_record_raw_rtp_datagram RawRecvCounters_default d"
  have c: "raw_at ssrc i c" "rw_raw_rtp_packets c = 1" "rw_raw_rtp_packets_lost c = 0" "rw_raw_rtp_sequence_gaps c = 0"
    "rw_raw_rtp_duplicate_packets c = 0" "rw_raw_rtp_out_of_order_packets c = 0" "rw_raw_rtp_sequence_resets c = 0"
    by (simp_all add: c_def raw_at_def RawRecvCounters_record_raw_rtp_datagram_def ds RawRecvCounters_default_def)
  have "sum_list (misses i is) = fold max is i - i - length (misses i is)"
    using misses_span [of i "is"] by simp
  with raw_run [OF c(1) rest assms(2)] misses_repeats_laggards [of i "is"] show ?thesis
    unfolding ds(1) fold.simps comp_apply c_def [symmetric] c(2-) Let_def
    by (simp add: RawRecvCounters_raw_rtp_last_sequence_def raw_at_def)
qed

text \<open>Packets 65535 and 65537 of a source, the second after a wrap and a loss.\<close>

theorem raw_rtp_counts_exact_witness:
  "let ds = [RtpHeader_build 0 65535 0 7 False [1], RtpHeader_build 0 1 160 7 True [2]];
       c = fold (\<lambda>d c. RawRecvCounters_record_raw_rtp_datagram c d) ds RawRecvCounters_default in
   raw_stream 7 [65535, 65537] ds \<and> jitter_ok 70000 65535 [65537]
   \<and> rw_raw_rtp_packets c = 2 \<and> rw_raw_rtp_packets_lost c = 1"
proof -
  let ?ds = "[RtpHeader_build 0 65535 0 7 False [1], RtpHeader_build 0 1 160 7 True [2]]"
  have s: "raw_stream 7 [65535, 65537] ?ds"
    by (simp add: raw_stream_def parse_raw_rtp_header_def RtpHeader_build_nth be_simps)
  have j: "jitter_ok 70000 65535 [65537]" by (simp add: near_def)
  have m: "misses 65535 [65537] = [1]" "fold max [65537] 65535 = (65537 :: nat)" by simp_all
  note exact = raw_rtp_counts_exact [OF s j, unfolded m Let_def]
  then have "rw_raw_rtp_packets (fold (\<lambda>d c. RawRecvCounters_record_raw_rtp_datagram c d) ?ds RawRecvCounters_default)
      = of_nat (Suc (length [65537 :: nat]))"
    "rw_raw_rtp_packets_lost (fold (\<lambda>d c. RawRecvCounters_record_raw_rtp_datagram c d) ?ds RawRecvCounters_default)
      = of_nat (65537 - 65535 - length [1 :: nat])" by blast+
  moreover have "(of_nat (Suc (length [65537 :: nat])) :: u64) = 2" "(of_nat (65537 - 65535 - length [1 :: nat]) :: u64) = 1"
    by simp_all
  ultimately show ?thesis using s j unfolding Let_def by (simp only: simp_thms)
qed

end
