(* ===== verification/F64.thy ===== *)
theory F64
  imports Complex_Main "HOL-Library.Log_Nat"
begin

text \<open>
  The double-precision arithmetic the code does on sample positions and round-trip times.  A
  finite double is the rational number it stands for, and an operation is the exact one
  followed by \<open>f64_rnd\<close>, rounding to the nearest number with a 53-bit significand, ties to
  even.  The exponent is not bounded: the values of this program lie far inside the range of
  normal doubles.
\<close>

section \<open>Definitions\<close>

definition round_even :: "rat \<Rightarrow> int" where
  "round_even x = (let f = \<lfloor>x\<rfloor>; d = x - of_int f in
     if d < 1 / 2 then f else if 1 / 2 < d then f + 1 else if even f then f else f + 1)"

text \<open>The exponent of the leading bit of a positive number.\<close>

definition ilog2 :: "rat \<Rightarrow> int" where
  "ilog2 x = (let (p, q) = quotient_of x; e = int (floorlog 2 (nat p)) - int (floorlog 2 (nat q))
     in if 2 powi e \<le> x then e else e - 1)"

definition f64_rnd :: "rat \<Rightarrow> rat" where
  "f64_rnd x = (if x = 0 then 0
     else let u = 2 powi (ilog2 \<bar>x\<bar> - 52) in of_int (round_even (x / u)) * u)"

definition f64_add :: "rat \<Rightarrow> rat \<Rightarrow> rat" where "f64_add x y = f64_rnd (x + y)"
definition f64_sub :: "rat \<Rightarrow> rat \<Rightarrow> rat" where "f64_sub x y = f64_rnd (x - y)"
definition f64_mul :: "rat \<Rightarrow> rat \<Rightarrow> rat" where "f64_mul x y = f64_rnd (x * y)"
definition f64_div :: "rat \<Rightarrow> rat \<Rightarrow> rat" where "f64_div x y = f64_rnd (x / y)"

text \<open>\<open>as i16\<close>: truncation towards zero, saturating.\<close>

definition f64_trunc :: "rat \<Rightarrow> int" where
  "f64_trunc x = (if 0 \<le> x then \<lfloor>x\<rfloor> else \<lceil>x\<rceil>)"

section \<open>Rounding to an integer\<close>

lemma round_even_of_int [simp]: "round_even (of_int n) = n"
  by (simp add: round_even_def)

lemma round_even_close: "\<bar>of_int (round_even x) - x\<bar> \<le> 1 / 2"
  unfolding round_even_def Let_def by (auto simp: abs_if) (use floor_correct [of x] in linarith)+

lemma round_even_mono: "x \<le> y \<Longrightarrow> round_even x \<le> round_even y"
proof (cases "\<lfloor>x\<rfloor> = \<lfloor>y\<rfloor>")
  case True
  assume "x \<le> y"
  with True show ?thesis by (auto simp: round_even_def Let_def)
next
  case False
  assume xy: "x \<le> y"
  with False have "\<lfloor>x\<rfloor> + 1 \<le> \<lfloor>y\<rfloor>" using floor_mono [OF xy] by linarith
  moreover have "round_even x \<le> \<lfloor>x\<rfloor> + 1" "\<lfloor>y\<rfloor> \<le> round_even y" by (simp_all add: round_even_def Let_def)
  ultimately show ?thesis by linarith
qed

lemma round_even_minus: "round_even (- x) = - round_even x"
proof (cases "x = of_int \<lfloor>x\<rfloor>")
  case True
  then obtain n where "x = of_int n" by blast
  then show ?thesis by (metis of_int_minus round_even_of_int)
next
  case False
  have f: "\<lfloor>- x\<rfloor> = - \<lfloor>x\<rfloor> - 1"
    using False floor_correct [of x] by (intro floor_unique) (auto simp: less_le)
  show ?thesis unfolding round_even_def Let_def f by (auto simp: algebra_simps)
qed

section \<open>The leading exponent\<close>

lemma powi_less: "(2 :: rat) powi m < 2 powi n \<Longrightarrow> m < n"
  by (rule ccontr) (use power_int_increasing [of n m "2 :: rat"] in simp)

lemma powi_quotient: "j \<le> k \<Longrightarrow> (2 :: rat) powi k / 2 powi j = 2 ^ nat (k - j)"
  by (simp flip: power_int_diff) (simp add: power_int_def)

lemma ilog2_bounds:
  assumes "0 < x"
  shows "2 powi ilog2 x \<le> x" "x < 2 powi (ilog2 x + 1)"
proof -
  obtain p q where pq: "quotient_of x = (p, q)" by fastforce
  have q: "0 < q" using pq by (rule quotient_of_denom_pos)
  have x: "x = of_int p / of_int q" using pq by (rule quotient_of_div)
  with assms q have p: "0 < p" by (simp add: zero_less_divide_iff)
  define a b where "a = floorlog 2 (nat p)" and "b = floorlog 2 (nat q)"
  have ab: "0 < a" "0 < b" using p q by (auto simp: a_def b_def floorlog_def)
  have "2 ^ (a - 1) \<le> nat p" "nat p < 2 ^ a" "2 ^ (b - 1) \<le> nat q" "nat q < 2 ^ b"
    using floorlog_bounds [of "nat p" 2] floorlog_bounds [of "nat q" 2] p q by (auto simp: a_def b_def)
  then have "(2 ^ (a - 1) :: int) \<le> p" "p < 2 ^ a" "(2 ^ (b - 1) :: int) \<le> q" "q < 2 ^ b"
    using p q by (simp_all add: nat_le_iff nat_less_iff le_nat_iff)
  then have "(2 ^ (a - 1) :: rat) \<le> of_int p" "of_int p < (2 ^ a :: rat)" "(2 ^ (b - 1) :: rat) \<le> of_int q" "of_int q < (2 ^ b :: rat)"
    by (metis of_int_le_iff of_int_less_iff of_int_power of_int_numeral)+
  then have bnd: "2 powi (int a - 1) \<le> (of_int p :: rat)" "of_int p < (2 powi int a :: rat)"
    "2 powi (int b - 1) \<le> (of_int q :: rat)" "of_int q < (2 powi int b :: rat)"
    using ab by (simp_all add: power_int_def nat_diff_distrib)
  have pos: "0 < (of_int q :: rat)" "0 < (2 powi (int b - 1) :: rat)" using q by simp_all
  have "x < 2 powi int a / 2 powi (int b - 1)"
    unfolding x using bnd pos p by (intro frac_less) simp_all
  then have up: "x < 2 powi (int a - int b + 1)"
    by (simp add: power_int_diff power_int_add)
  have "2 powi (int a - 1) / 2 powi int b \<le> x"
    unfolding x using bnd pos p q by (intro frac_le) simp_all
  then have lo: "2 powi (int a - int b - 1) \<le> x"
    by (simp add: power_int_diff power_int_add)
  show "2 powi ilog2 x \<le> x" "x < 2 powi (ilog2 x + 1)"
    using lo up by (auto simp: ilog2_def pq a_def b_def not_le Let_def)
qed

lemma ilog2_unique:
  assumes "2 powi e \<le> x" "x < 2 powi (e + 1)"
  shows "ilog2 x = e"
proof -
  have "0 < x" using assms(1) by (rule less_le_trans [rotated]) simp
  note b = ilog2_bounds [OF this]
  have "(2 :: rat) powi ilog2 x < 2 powi (e + 1)" "(2 :: rat) powi e < 2 powi (ilog2 x + 1)"
    using b assms by linarith+
  then have "ilog2 x < e + 1" "e < ilog2 x + 1" by (auto dest: powi_less)
  then show ?thesis by linarith
qed

lemma ilog2_mono: "0 < x \<Longrightarrow> x \<le> y \<Longrightarrow> ilog2 x \<le> ilog2 y"
proof -
  assume xy: "0 < x" "x \<le> y"
  then have "(2 :: rat) powi ilog2 x < 2 powi (ilog2 y + 1)"
    using ilog2_bounds [of x] ilog2_bounds [of y] by linarith
  then show ?thesis by (auto dest: powi_less)
qed

section \<open>Rounding to a double\<close>

lemma f64_rnd_0 [simp]: "f64_rnd 0 = 0"
  by (simp add: f64_rnd_def)

lemma f64_rnd_minus: "f64_rnd (- x) = - f64_rnd x"
  by (simp add: f64_rnd_def Let_def round_even_minus)

lemma f64_rnd_pos: "0 < x \<Longrightarrow> f64_rnd x = of_int (round_even (x / 2 powi (ilog2 x - 52))) * 2 powi (ilog2 x - 52)"
  by (simp add: f64_rnd_def Let_def)

text \<open>The significand of a positive result.\<close>

lemma significand:
  assumes "0 < x"
  shows "2 ^ 52 \<le> round_even (x / 2 powi (ilog2 x - 52))" "round_even (x / 2 powi (ilog2 x - 52)) \<le> 2 ^ 53"
proof -
  let ?u = "2 powi (ilog2 x - 52) :: rat"
  have u: "0 < ?u" by simp
  have p: "2 powi ilog2 x = 2 ^ 52 * ?u" "2 powi (ilog2 x + 1) = 2 ^ 53 * ?u"
    by (simp_all add: power_int_diff power_int_add)
  have "of_int (2 ^ 52) \<le> x / ?u" "x / ?u \<le> of_int (2 ^ 53)"
    using ilog2_bounds [OF assms] u unfolding p by (simp_all add: field_simps)
  from this [THEN round_even_mono] show "2 ^ 52 \<le> round_even (x / ?u)" "round_even (x / ?u) \<le> 2 ^ 53"
    by (simp_all only: round_even_of_int)
qed

lemma f64_rnd_close:
  assumes "0 < x"
  shows "\<bar>f64_rnd x - x\<bar> \<le> 2 powi (ilog2 x - 53)"
proof -
  let ?u = "2 powi (ilog2 x - 52) :: rat"
  have u: "0 < ?u" and half: "2 powi (ilog2 x - 53) = ?u / 2" by (simp_all add: power_int_diff)
  have "f64_rnd x - x = (of_int (round_even (x / ?u)) - x / ?u) * ?u"
    using u by (simp add: f64_rnd_pos [OF assms] left_diff_distrib)
  then have "\<bar>f64_rnd x - x\<bar> = \<bar>of_int (round_even (x / ?u)) - x / ?u\<bar> * ?u"
    using u by (simp add: abs_mult)
  also have "\<dots> \<le> 1 / 2 * ?u" using round_even_close [of "x / ?u"] u by (intro mult_right_mono) simp_all
  finally show ?thesis by (simp add: half)
qed

text \<open>Numbers with a short significand are doubles.\<close>

lemma f64_rnd_exact_pos:
  assumes "0 < m" "m \<le> 2 ^ 53"
  shows "f64_rnd (of_int m * 2 powi k) = of_int m * 2 powi k"
proof -
  let ?x = "of_int m * 2 powi k :: rat"
  have x: "0 < ?x" using assms by simp
  have "ilog2 ?x \<le> k + 53"
  proof -
    have "?x \<le> 2 ^ 53 * 2 powi k"
      using assms(2) by (intro mult_right_mono) (metis of_int_le_iff of_int_power of_int_numeral, simp)
    also have "\<dots> < 2 powi (k + 54)" by (simp add: power_int_add)
    finally have "(2 :: rat) powi ilog2 ?x < 2 powi (k + 54)" using ilog2_bounds(1) [OF x] by linarith
    then show ?thesis by (auto dest: powi_less)
  qed
  then consider (le) "ilog2 ?x \<le> k + 52" | (eq) "ilog2 ?x = k + 53" by linarith
  then have "\<exists>n. ?x / 2 powi (ilog2 ?x - 52) = of_int n"
  proof cases
    case le
    then have "(2 :: rat) powi k / 2 powi (ilog2 ?x - 52) = 2 ^ nat (k - (ilog2 ?x - 52))"
      by (intro powi_quotient) simp
    then have "?x / 2 powi (ilog2 ?x - 52) = of_int (m * 2 ^ nat (k - (ilog2 ?x - 52)))"
      by (simp only: times_divide_eq_right [symmetric] of_int_mult of_int_power of_int_numeral)
    then show ?thesis by blast
  next
    case eq
    have "(2 :: rat) powi (k + 53) \<le> ?x" using ilog2_bounds(1) [OF x] eq by simp
    then have "(2 ^ 53 :: rat) \<le> of_int m" by (simp add: power_int_add)
    then have "2 ^ 53 \<le> m" by (metis of_int_le_iff of_int_power of_int_numeral)
    with assms have m: "m = 2 ^ 53" by simp
    from eq have e: "ilog2 ?x - 52 = k + 1" by simp
    have "?x / 2 powi (ilog2 ?x - 52) = of_int (2 ^ 52)" unfolding e by (simp add: m power_int_add)
    then show ?thesis by blast
  qed
  then obtain n where n: "?x / 2 powi (ilog2 ?x - 52) = of_int n" by blast
  then have "?x = of_int n * 2 powi (ilog2 ?x - 52)" by (simp add: field_simps)
  then show ?thesis by (simp add: f64_rnd_pos [OF x] n)
qed

lemma f64_rnd_exact: "\<bar>m\<bar> \<le> 2 ^ 53 \<Longrightarrow> f64_rnd (of_int m * 2 powi k) = of_int m * 2 powi k"
proof (cases m "0 :: int" rule: linorder_cases)
  case less
  assume "\<bar>m\<bar> \<le> 2 ^ 53"
  with less have "f64_rnd (of_int (- m) * 2 powi k) = of_int (- m) * 2 powi k"
    by (intro f64_rnd_exact_pos) simp_all
  then show ?thesis using f64_rnd_minus [of "of_int (- m) * 2 powi k"] by simp
qed (simp_all add: f64_rnd_exact_pos)

lemma f64_rnd_int: "\<bar>m\<bar> \<le> 2 ^ 53 \<Longrightarrow> f64_rnd (of_int m) = of_int m"
  using f64_rnd_exact [of m 0] by simp

definition is_f64 :: "rat \<Rightarrow> bool" where
  "is_f64 x \<longleftrightarrow> f64_rnd x = x"

lemma is_f64_rnd [simp]: "is_f64 (f64_rnd x)"
proof (cases x "0 :: rat" rule: linorder_cases)
  case greater
  then show ?thesis
    using significand [OF greater] by (simp add: is_f64_def f64_rnd_pos [OF greater] f64_rnd_exact)
next
  case less
  then have x: "0 < - x" by simp
  have "f64_rnd (f64_rnd (- x)) = f64_rnd (- x)"
    using significand [OF x] by (simp only: f64_rnd_pos [OF x]) (rule f64_rnd_exact, simp)
  then show ?thesis by (simp add: is_f64_def f64_rnd_minus)
qed (simp add: is_f64_def)

lemma f64_rnd_nonneg: "0 \<le> x \<Longrightarrow> 0 \<le> f64_rnd x"
proof (cases "x = 0")
  case False
  assume "0 \<le> x"
  with False have x: "0 < x" by simp
  with significand(1) [OF x] show ?thesis by (simp add: f64_rnd_pos [OF x])
qed simp

lemma f64_rnd_mono_pos:
  assumes "0 < x" "x \<le> y"
  shows "f64_rnd x \<le> f64_rnd y"
proof -
  let ?u = "2 powi (ilog2 x - 52) :: rat" and ?v = "2 powi (ilog2 y - 52) :: rat"
  have y: "0 < y" using assms by simp
  have uv: "0 < ?u" "0 < ?v" by simp_all
  consider (same) "ilog2 x = ilog2 y" | (less) "ilog2 x + 1 \<le> ilog2 y"
    using ilog2_mono [OF assms] by linarith
  then show ?thesis
  proof cases
    case same
    have "x / ?v \<le> y / ?v" using assms(2) uv by (intro divide_right_mono) simp_all
    then show ?thesis
      using round_even_mono [of "x / ?v" "y / ?v"] uv
      by (simp add: f64_rnd_pos [OF assms(1)] f64_rnd_pos [OF y] same)
  next
    case less
    have "f64_rnd x \<le> of_int (2 ^ 53) * ?u"
      unfolding f64_rnd_pos [OF assms(1)] using significand(2) [OF assms(1)] uv
      by (intro mult_right_mono) (simp_all only: of_int_le_iff less_imp_le)
    also have "\<dots> = 2 powi (ilog2 x + 1)" by (simp add: power_int_diff power_int_add)
    also have "\<dots> \<le> 2 powi ilog2 y" using less by (intro power_int_increasing) simp_all
    also have "\<dots> = of_int (2 ^ 52) * ?v" by (simp add: power_int_diff)
    also have "\<dots> \<le> f64_rnd y"
      unfolding f64_rnd_pos [OF y] using significand(1) [OF y] uv
      by (intro mult_right_mono) (simp_all only: of_int_le_iff less_imp_le)
    finally show ?thesis .
  qed
qed

text \<open>Rounding keeps the order.\<close>

lemma f64_rnd_mono: "x \<le> y \<Longrightarrow> f64_rnd x \<le> f64_rnd y"
proof -
  assume xy: "x \<le> y"
  consider "0 < x" | "x \<le> 0" "0 \<le> y" | "y < 0" using xy by linarith
  then show ?thesis
  proof cases
    case 1
    then show ?thesis using xy by (rule f64_rnd_mono_pos)
  next
    case 2
    then have "0 \<le> f64_rnd (- x)" "0 \<le> f64_rnd y" by (simp_all add: f64_rnd_nonneg)
    then show ?thesis by (simp add: f64_rnd_minus)
  next
    case 3
    with xy have "f64_rnd (- y) \<le> f64_rnd (- x)" by (intro f64_rnd_mono_pos) simp_all
    then show ?thesis by (simp add: f64_rnd_minus)
  qed
qed

lemma f64_rnd_between: "is_f64 a \<Longrightarrow> is_f64 b \<Longrightarrow> a \<le> x \<Longrightarrow> x \<le> b \<Longrightarrow> a \<le> f64_rnd x \<and> f64_rnd x \<le> b"
  by (metis f64_rnd_mono is_f64_def)

lemma is_f64_int: "\<bar>m\<bar> \<le> 2 ^ 53 \<Longrightarrow> is_f64 (of_int m)"
  by (simp add: is_f64_def f64_rnd_int)

text \<open>The error of a positive result below a power of two.\<close>

lemma f64_rnd_error:
  assumes "0 < x" "x < 2 powi n"
  shows "\<bar>f64_rnd x - x\<bar> \<le> 2 powi (n - 54)"
proof -
  have "(2 :: rat) powi ilog2 x < 2 powi n" using ilog2_bounds(1) [OF assms(1)] assms(2) by linarith
  then have "ilog2 x < n" by (rule powi_less)
  then have "(2 :: rat) powi (ilog2 x - 53) \<le> 2 powi (n - 54)" by (intro power_int_increasing) simp_all
  with f64_rnd_close [OF assms(1)] show ?thesis by linarith
qed

lemma f64_trunc_between: "of_int a \<le> x \<Longrightarrow> x \<le> of_int b \<Longrightarrow> a \<le> f64_trunc x \<and> f64_trunc x \<le> b"
  by (simp add: f64_trunc_def le_floor_iff ceiling_le_iff) (metis floor_le_ceiling le_ceiling_iff floor_le_iff ceiling_le_iff order_trans le_floor_iff)

end
