(* ===== verification/Resample.thy ===== *)
theory Resample
  imports Rtpbridge_Prelude F64
begin

text \<open>
  The linear resampler (\<open>src/src/media/resample.rs\<close>).  Positions are doubles.  A failed
  assertion or an index out of range, a panic in the source, is \<open>None\<close>, as is a loop that
  does not end; the theorem below shows that neither happens.
\<close>

section \<open>Definitions\<close>

record resampler =
  rp_from_rate :: u32
  rp_to_rate :: u32
  rp_frac_pos :: rat
  rp_previous :: "i16 option"

definition Resampler_new :: "u32 \<Rightarrow> u32 \<Rightarrow> resampler option" where
  "Resampler_new from_rate to_rate =
     (if from_rate = 0 \<or> to_rate = 0 then None
      else Some \<lparr>rp_from_rate = from_rate, rp_to_rate = to_rate, rp_frac_pos = 0, rp_previous = None\<rparr>)"

definition Resampler_is_passthrough :: "resampler \<Rightarrow> bool" where
  "Resampler_is_passthrough r \<longleftrightarrow> rp_from_rate r = rp_to_rate r"

definition f64_of_i16 :: "i16 \<Rightarrow> rat" where
  "f64_of_i16 s = of_int (sint s)"

definition f64_of_usize :: "nat \<Rightarrow> rat" where
  "f64_of_usize n = f64_rnd (of_nat n)"

definition f64_as_i16 :: "rat \<Rightarrow> i16" where
  "f64_as_i16 x = word_of_int (max (- 32768) (min 32767 (f64_trunc x)))"

definition EPSILON :: rat where
  "EPSILON = f64_rnd (1 / 10 ^ 9)"

definition interpolate :: "i16 \<Rightarrow> i16 \<Rightarrow> rat \<Rightarrow> i16" where
  "interpolate before current fraction =
     f64_as_i16 (f64_add (f64_of_i16 before)
       (f64_mul fraction (f64_sub (f64_of_i16 current) (f64_of_i16 before))))"

definition sample_before :: "i16 option \<Rightarrow> i16 list \<Rightarrow> nat \<Rightarrow> i16" where
  "sample_before previous input index =
     (if index = 0 then case previous of Some s \<Rightarrow> s | None \<Rightarrow> input ! 0 else input ! (index - 1))"

partial_function (option) resample_loop ::
  "rat \<Rightarrow> i16 option \<Rightarrow> i16 list \<Rightarrow> rat \<Rightarrow> i16 list \<Rightarrow> (rat \<times> i16 list) option" where
  "resample_loop ratio previous input pos output =
     (if f64_add pos EPSILON < f64_of_usize (length input) then
        let index = nat \<lfloor>pos\<rfloor>; fraction = f64_sub pos (f64_of_usize index) in
        if length input \<le> index then None
        else resample_loop ratio previous input (f64_add pos ratio)
               (output @ [interpolate (sample_before previous input index) (input ! index) fraction])
      else Some (pos, output))"

definition Resampler_process :: "resampler \<Rightarrow> i16 list \<Rightarrow> (i16 list \<times> resampler) option" where
  "Resampler_process r input =
     (if Resampler_is_passthrough r then Some (input, r)
      else if input = [] then Some ([], r)
      else
        let ratio = f64_div (of_nat (unat (rp_from_rate r))) (of_nat (unat (rp_to_rate r))) in
        case resample_loop ratio (rp_previous r) input (rp_frac_pos r) [] of
          None \<Rightarrow> None
        | Some (pos, output) \<Rightarrow>
            Some (output, r\<lparr>rp_frac_pos := max (f64_sub pos (f64_of_usize (length input))) 0,
                            rp_previous := Some (last input)\<rparr>))"

section \<open>Interpolation\<close>

lemma sint_i16_bounds: "- 32768 \<le> sint s" "sint s \<le> 32767" for s :: i16
  using sint_greater_eq [of s] sint_less [of s] by simp_all

lemma sint_f64_as_i16:
  assumes "of_int a \<le> x" "x \<le> of_int b" "- 32768 \<le> a" "b \<le> 32767"
  shows "a \<le> sint (f64_as_i16 x) \<and> sint (f64_as_i16 x) \<le> b"
proof -
  have t: "a \<le> f64_trunc x" "f64_trunc x \<le> b" using f64_trunc_between [OF assms(1,2)] by simp_all
  then have "max (- 32768) (min 32767 (f64_trunc x)) = f64_trunc x" using assms by simp
  moreover have "sint (word_of_int (f64_trunc x) :: i16) = f64_trunc x"
    using t assms by (simp add: signed_of_int signed_take_bit_int_eq_self)
  ultimately show ?thesis using t by (simp add: f64_as_i16_def)
qed

text \<open>An interpolated sample does not leave the range of its neighbours, in spite of the rounding.\<close>

lemma interpolate_between:
  assumes "0 \<le> fraction" "fraction \<le> 1"
  shows "min (sint b) (sint c) \<le> sint (interpolate b c fraction)
    \<and> sint (interpolate b c fraction) \<le> max (sint b) (sint c)"
proof -
  let ?d = "sint c - sint b"
  have small: "\<bar>sint b\<bar> \<le> 2 ^ 53" "\<bar>sint c\<bar> \<le> 2 ^ 53" "\<bar>?d\<bar> \<le> 2 ^ 53"
    using sint_i16_bounds [of b] sint_i16_bounds [of c] by simp_all
  have d: "f64_sub (f64_of_i16 c) (f64_of_i16 b) = of_int ?d"
    using f64_rnd_int [OF small(3)] by (simp add: f64_sub_def f64_of_i16_def)
  let ?p = "f64_mul fraction (of_int ?d)"
  have "min 0 (of_int ?d) \<le> fraction * of_int ?d \<and> fraction * of_int ?d \<le> max 0 (of_int ?d :: rat)"
    using assms by (auto simp: min_def max_def mult_le_0_iff zero_le_mult_iff mult_left_le_one_le
        mult_le_cancel_right1 mult_le_cancel_right2)
  then have p: "of_int (min 0 ?d) \<le> fraction * of_int ?d" "fraction * of_int ?d \<le> (of_int (max 0 ?d) :: rat)"
    by (simp_all add: of_int_min of_int_max)
  have "of_int (min 0 ?d) \<le> ?p \<and> ?p \<le> of_int (max 0 ?d)"
    unfolding f64_mul_def using p small(3) by (intro f64_rnd_between is_f64_int) auto
  then have s: "of_int (min (sint b) (sint c)) \<le> of_int (sint b) + ?p"
    "of_int (sint b) + ?p \<le> of_int (max (sint b) (sint c))"
    by (auto simp: min_def max_def split: if_splits)
  have "of_int (min (sint b) (sint c)) \<le> f64_add (f64_of_i16 b) ?p
      \<and> f64_add (f64_of_i16 b) ?p \<le> of_int (max (sint b) (sint c))"
    unfolding f64_add_def f64_of_i16_def using s small(1,2) by (intro f64_rnd_between is_f64_int) auto
  then show ?thesis
    unfolding interpolate_def d
    using sint_i16_bounds [of b] sint_i16_bounds [of c] by (intro sint_f64_as_i16) auto
qed

section \<open>The loop\<close>

definition between_neighbours :: "i16 option \<Rightarrow> i16 list \<Rightarrow> i16 \<Rightarrow> bool" where
  "between_neighbours previous input s \<longleftrightarrow> (\<exists>i < length input.
     let b = sint (sample_before previous input i); c = sint (input ! i)
     in min b c \<le> sint s \<and> sint s \<le> max b c)"

lemma f64_of_usize_small: "n \<le> 2 ^ 53 \<Longrightarrow> f64_of_usize n = of_nat n"
  using f64_rnd_int [of "int n"] by (simp add: f64_of_usize_def)

lemma epsilon_nonneg: "0 \<le> EPSILON"
  by (simp add: EPSILON_def f64_rnd_nonneg)

lemma loop_index:
  assumes pos: "is_f64 pos" "0 \<le> pos" and len: "length input \<le> 2 ^ 20"
    and loop: "f64_add pos EPSILON < f64_of_usize (length input)"
  shows "pos < of_nat (length input)" "nat \<lfloor>pos\<rfloor> < length input"
    "0 \<le> f64_sub pos (f64_of_usize (nat \<lfloor>pos\<rfloor>))" "f64_sub pos (f64_of_usize (nat \<lfloor>pos\<rfloor>)) \<le> 1"
proof -
  have "f64_rnd pos \<le> f64_add pos EPSILON"
    unfolding f64_add_def using epsilon_nonneg by (intro f64_rnd_mono) simp
  then show lt: "pos < of_nat (length input)"
    using loop pos(1) len by (simp add: is_f64_def f64_of_usize_small)
  have fl: "of_int \<lfloor>pos\<rfloor> \<le> pos" "pos < of_int \<lfloor>pos\<rfloor> + 1" "0 \<le> \<lfloor>pos\<rfloor>"
    using pos(2) floor_correct [of pos] by simp_all
  have "(of_int \<lfloor>pos\<rfloor> :: rat) < of_nat (length input)" using lt fl by linarith
  then have "\<lfloor>pos\<rfloor> < int (length input)" by (metis of_int_less_iff of_int_of_nat_eq)
  then show idx: "nat \<lfloor>pos\<rfloor> < length input" using fl(3) by linarith
  then have "f64_of_usize (nat \<lfloor>pos\<rfloor>) = of_int \<lfloor>pos\<rfloor>"
    using len fl(3) by (simp add: f64_of_usize_small)
  moreover have "0 \<le> f64_rnd (pos - of_int \<lfloor>pos\<rfloor>) \<and> f64_rnd (pos - of_int \<lfloor>pos\<rfloor>) \<le> 1"
    using fl is_f64_int [of 0] is_f64_int [of 1] by (intro f64_rnd_between) simp_all
  ultimately show "0 \<le> f64_sub pos (f64_of_usize (nat \<lfloor>pos\<rfloor>))" "f64_sub pos (f64_of_usize (nat \<lfloor>pos\<rfloor>)) \<le> 1"
    by (simp_all add: f64_sub_def)
qed

text \<open>Every round moves the position on by at least a fixed amount.\<close>

lemma loop_advances:
  assumes pos: "0 \<le> pos" "pos < 2 ^ 20" and ratio: "2 powi (- 32) \<le> ratio" "ratio \<le> 2 ^ 32"
  shows "pos + 2 powi (- 33) \<le> f64_add pos ratio" "f64_add pos ratio \<le> 2 ^ 33"
proof -
  have sum: "0 < pos + ratio" using pos ratio by (simp add: add_nonneg_pos less_le_trans [of 0 "2 powi (- 32)"])
  show "pos + 2 powi (- 33) \<le> f64_add pos ratio"
  proof (cases "pos + ratio < 2 powi 21")
    case True
    have e: "21 - 54 = (- 33 :: int)" by simp
    have "pos + ratio - 2 powi (- 33) \<le> f64_rnd (pos + ratio)"
      using f64_rnd_error [OF sum True] unfolding e by linarith
    moreover have "(2 :: rat) powi (- 32) = 2 powi (- 33) + 2 powi (- 33)" by simp
    ultimately show ?thesis using ratio(1) unfolding f64_add_def by linarith
  next
    case False
    have "f64_rnd (2 powi 21) \<le> f64_rnd (pos + ratio)" using False by (intro f64_rnd_mono) simp
    then have "2 ^ 21 \<le> f64_rnd (pos + ratio)" using f64_rnd_exact [of 1 21] by (simp add: power_int_def)
    moreover have "(2 :: rat) powi (- 33) \<le> 1" by simp
    ultimately show ?thesis using pos(2) unfolding f64_add_def by simp
  qed
  have "f64_rnd (pos + ratio) \<le> f64_rnd (of_int (2 ^ 33))" using pos ratio by (intro f64_rnd_mono) simp
  then show "f64_add pos ratio \<le> 2 ^ 33" using f64_rnd_int [of "2 ^ 33"] by (simp add: f64_add_def)
qed

lemma loop_returns:
  assumes "length input \<le> 2 ^ 20" "2 powi (- 32) \<le> ratio" "ratio \<le> 2 ^ 32"
    "is_f64 pos" "0 \<le> pos" "pos \<le> 2 ^ 33" "list_all (between_neighbours previous input) outp"
    "of_nat (length input) - of_nat n * 2 powi (- 33) \<le> pos"
  shows "\<exists>pos' outp'. resample_loop ratio previous input pos outp = Some (pos', outp')
    \<and> is_f64 pos' \<and> 0 \<le> pos' \<and> pos' \<le> 2 ^ 33 \<and> list_all (between_neighbours previous input) outp'"
  using assms(4-)
proof (induction n arbitrary: pos outp)
  case 0
  have "f64_rnd pos \<le> f64_add pos EPSILON"
    unfolding f64_add_def using epsilon_nonneg by (intro f64_rnd_mono) simp
  with 0 have "\<not> f64_add pos EPSILON < f64_of_usize (length input)"
    using assms(1) by (simp add: f64_of_usize_small is_f64_def)
  then show ?case using 0 by (subst resample_loop.simps) simp
next
  case (Suc n)
  show ?case
  proof (cases "f64_add pos EPSILON < f64_of_usize (length input)")
    case False
    then show ?thesis using Suc(2-) by (subst resample_loop.simps) simp
  next
    case True
    note idx = loop_index [OF Suc(2,3) assms(1) True]
    let ?i = "nat \<lfloor>pos\<rfloor>"
    let ?s = "interpolate (sample_before previous input ?i) (input ! ?i) (f64_sub pos (f64_of_usize ?i))"
    have "between_neighbours previous input ?s"
      unfolding between_neighbours_def Let_def
      using interpolate_between [OF idx(3,4)] idx(2) by blast
    with Suc(5) have out: "list_all (between_neighbours previous input) (outp @ [?s])" by simp
    have "(of_nat (length input) :: rat) \<le> of_nat (2 ^ 20)" using assms(1) by (rule of_nat_mono)
    then have "pos < 2 ^ 20" using idx(1) by simp
    note adv = loop_advances [OF Suc(3) this assms(2,3)]
    have "of_nat (length input) - of_nat n * 2 powi (- 33) \<le> f64_add pos ratio"
      using Suc(6) adv(1) by (simp add: add_divide_distrib)
    moreover have "0 \<le> f64_add pos ratio" using adv(1) Suc(3) by simp
    ultimately have "\<exists>pos' outp'. resample_loop ratio previous input (f64_add pos ratio) (outp @ [?s]) = Some (pos', outp')
      \<and> is_f64 pos' \<and> 0 \<le> pos' \<and> pos' \<le> 2 ^ 33 \<and> list_all (between_neighbours previous input) outp'"
      using adv(2) out by (intro Suc(1)) (simp_all add: f64_add_def)
    moreover have "resample_loop ratio previous input pos outp
        = resample_loop ratio previous input (f64_add pos ratio) (outp @ [?s])"
      using True idx(2) by (subst resample_loop.simps) (simp add: Let_def)
    ultimately show ?thesis by simp
  qed
qed

section \<open>Streams of blocks\<close>

definition resampler_ok :: "resampler \<Rightarrow> bool" where
  "resampler_ok r \<longleftrightarrow> rp_from_rate r \<noteq> 0 \<and> rp_to_rate r \<noteq> 0
     \<and> is_f64 (rp_frac_pos r) \<and> 0 \<le> rp_frac_pos r \<and> rp_frac_pos r \<le> 2 ^ 33"

definition in_range :: "int \<Rightarrow> int \<Rightarrow> i16 \<Rightarrow> bool" where
  "in_range lo hi s \<longleftrightarrow> lo \<le> sint s \<and> sint s \<le> hi"

lemma between_in_range:
  assumes "between_neighbours previous input s" "list_all (in_range lo hi) input" "pred_option (in_range lo hi) previous"
  shows "in_range lo hi s"
proof -
  from assms(1) obtain i where i: "i < length input"
    and s: "min (sint (sample_before previous input i)) (sint (input ! i)) \<le> sint s"
      "sint s \<le> max (sint (sample_before previous input i)) (sint (input ! i))"
    by (auto simp: between_neighbours_def Let_def)
  have "in_range lo hi (input ! i)" "in_range lo hi (sample_before previous input i)"
    using i assms(2,3) by (cases previous; force simp: list_all_length sample_before_def)+
  with s show ?thesis by (auto simp: in_range_def min_def max_def split: if_splits)
qed

lemma ratio_bounds:
  assumes "from_rate \<noteq> (0 :: u32)" "to_rate \<noteq> (0 :: u32)"
  defines "ratio \<equiv> f64_div (of_nat (unat from_rate)) (of_nat (unat to_rate))"
  shows "2 powi (- 32) \<le> ratio" "ratio \<le> 2 ^ 32"
proof -
  let ?q = "of_nat (unat from_rate) / of_nat (unat to_rate) :: rat"
  have u: "1 \<le> unat from_rate" "1 \<le> unat to_rate" using assms(1,2) by (simp_all add: unat_gt_0 Suc_le_eq)
  have lt: "(of_nat (unat from_rate) :: rat) \<le> of_nat (2 ^ 32)" "(of_nat (unat to_rate) :: rat) \<le> of_nat (2 ^ 32)"
    using unat_u32_less [of from_rate] unat_u32_less [of to_rate] by (intro of_nat_mono; simp)+
  have ge: "(1 :: rat) \<le> of_nat (unat from_rate)" "(1 :: rat) \<le> of_nat (unat to_rate)"
    using u by (metis of_nat_1 of_nat_mono)+
  have "1 / 2 ^ 32 \<le> ?q" using lt ge by (intro frac_le) simp_all
  moreover have "?q \<le> 2 ^ 32 / 1" using lt ge by (intro frac_le) simp_all
  ultimately have "f64_rnd (of_int 1 * 2 powi (- 32)) \<le> ratio" "ratio \<le> f64_rnd (of_int (2 ^ 32))"
    unfolding ratio_def f64_div_def by (intro f64_rnd_mono; simp)+
  then show "2 powi (- 32) \<le> ratio" "ratio \<le> 2 ^ 32"
    using f64_rnd_exact [of 1 "- 32"] f64_rnd_int [of "2 ^ 32"] by simp_all
qed

lemma process_returns:
  assumes r: "resampler_ok r" and len: "length input \<le> 2 ^ 20"
    and rng: "list_all (in_range lo hi) input" "pred_option (in_range lo hi) (rp_previous r)"
  shows "\<exists>outp r'. Resampler_process r input = Some (outp, r') \<and> resampler_ok r'
    \<and> list_all (in_range lo hi) outp \<and> pred_option (in_range lo hi) (rp_previous r')"
proof (cases "Resampler_is_passthrough r \<or> input = []")
  case True
  then show ?thesis using r rng by (auto simp: Resampler_process_def)
next
  case False
  let ?ratio = "f64_div (of_nat (unat (rp_from_rate r))) (of_nat (unat (rp_to_rate r)))"
  have pos: "is_f64 (rp_frac_pos r)" "0 \<le> rp_frac_pos r" "rp_frac_pos r \<le> 2 ^ 33"
    using r by (simp_all add: resampler_ok_def)
  have n: "of_nat (length input) - of_nat (length input * 2 ^ 33) * 2 powi (- 33) \<le> rp_frac_pos r"
    using pos(2) by simp
  note ratio = ratio_bounds [of "rp_from_rate r" "rp_to_rate r"]
  have "\<exists>pos' outp. resample_loop ?ratio (rp_previous r) input (rp_frac_pos r) [] = Some (pos', outp)
    \<and> is_f64 pos' \<and> 0 \<le> pos' \<and> pos' \<le> 2 ^ 33 \<and> list_all (between_neighbours (rp_previous r) input) outp"
    using r by (intro loop_returns [OF len _ _ pos _ n] ratio) (simp_all add: resampler_ok_def)
  then obtain pos' outp where loop: "resample_loop ?ratio (rp_previous r) input (rp_frac_pos r) [] = Some (pos', outp)"
    and p': "is_f64 pos'" "0 \<le> pos'" "pos' \<le> 2 ^ 33" and nb: "list_all (between_neighbours (rp_previous r) input) outp"
    by blast
  have "f64_sub pos' (f64_of_usize (length input)) \<le> f64_rnd (of_int (2 ^ 33))"
    unfolding f64_sub_def using p'(3) len by (intro f64_rnd_mono) (simp add: f64_of_usize_small)
  then have sub: "f64_sub pos' (f64_of_usize (length input)) \<le> 2 ^ 33" using f64_rnd_int [of "2 ^ 33"] by simp
  have "is_f64 (max (f64_sub pos' (f64_of_usize (length input))) 0)"
    by (simp add: max_def f64_sub_def is_f64_def [of 0])
  moreover have "list_all (in_range lo hi) outp"
    using nb between_in_range [OF _ rng] by (auto simp: list_all_iff)
  moreover have "in_range lo hi (last input)" using rng(1) False by (auto simp: list_all_iff)
  ultimately show ?thesis
    using False loop r sub by (auto simp: Resampler_process_def Let_def resampler_ok_def)
qed

fun resample_blocks :: "resampler \<Rightarrow> i16 list list \<Rightarrow> i16 list list option" where
  "resample_blocks r [] = Some []"
| "resample_blocks r (b # bs) =
     (case Resampler_process r b of
        None \<Rightarrow> None
      | Some (outp, r') \<Rightarrow> map_option ((#) outp) (resample_blocks r' bs))"

lemma resample_blocks_returns:
  "resampler_ok r \<Longrightarrow> list_all (\<lambda>b. length b \<le> 2 ^ 20 \<and> list_all (in_range lo hi) b) blocks \<Longrightarrow>
     pred_option (in_range lo hi) (rp_previous r) \<Longrightarrow>
     \<exists>outs. resample_blocks r blocks = Some outs \<and> length outs = length blocks
       \<and> list_all (list_all (in_range lo hi)) outs"
proof (induction blocks arbitrary: r)
  case (Cons b bs)
  then obtain outp r' where "Resampler_process r b = Some (outp, r')" "resampler_ok r'"
    "list_all (in_range lo hi) outp" "pred_option (in_range lo hi) (rp_previous r')"
    using process_returns [of r b lo hi] by auto
  with Cons(1) [of r'] Cons(3) show ?case by auto
qed simp

section \<open>Properties\<close>

text \<open>C33. Whatever the two sample rates are, resampling a stream block by block always comes to an
  end, for blocks of up to a million samples, without an index out of range, and in spite of the
  floating-point rounding no output sample leaves the range of the input samples.\<close>

theorem resample_total_no_overshoot:
  assumes "Resampler_new from_rate to_rate = Some r"
    "list_all (\<lambda>b. length b \<le> 2 ^ 20 \<and> list_all (in_range lo hi) b) blocks"
  shows "\<exists>outs. resample_blocks r blocks = Some outs \<and> length outs = length blocks
    \<and> list_all (list_all (in_range lo hi)) outs"
proof (rule resample_blocks_returns [OF _ assms(2)])
  show "resampler_ok r" "pred_option (in_range lo hi) (rp_previous r)"
    using assms(1) is_f64_int [of 0] by (auto simp: Resampler_new_def resampler_ok_def split: if_splits)
qed

theorem resample_total_no_overshoot_witness:
  "\<exists>r. Resampler_new 8000 16000 = Some r
    \<and> (\<exists>outs. resample_blocks r [[100, -100], [50]] = Some outs \<and> length outs = length [[100, -100], [50 :: i16]]
        \<and> list_all (list_all (in_range (- 100) 100)) outs)"
proof -
  obtain r where r: "Resampler_new 8000 16000 = Some r" by (simp add: Resampler_new_def)
  have "list_all (\<lambda>b. length b \<le> 2 ^ 20 \<and> list_all (in_range (- 100) 100) b) [[100, -100], [50]]"
    by (simp add: in_range_def)
  from resample_total_no_overshoot [OF r this] r show ?thesis by blast
qed

end
