(* ===== verification/Mixer.thy ===== *)
theory Mixer
  imports Containers Rtp_Header Audio_Codec Resample
begin

unbundle bit_operations_syntax

text \<open>
  The audio mixer of a destination that hears two or more sources
  (\<open>src/src/session/mixer.rs\<close>): it sums one 20 ms frame of every source with saturation,
  encodes the sum and stamps it with its own timeline.  The accumulator is an \<open>i64\<close> that
  holds a sum of 16-bit samples and cannot overflow below \<open>2 ^ 47\<close> sources; it is an
  \<open>int\<close>.  A panic is the error \<open>Panic\<close>.
\<close>

section \<open>Definitions\<close>

datatype mixer_error =
    Needs20msInput
  | Needs20msFrame
  | SourceQueueFull
  | Codec codec_error
  | Panic

record 's source_state =
  so_decoder :: "'s audio_decoder option"
  so_resampler :: "resampler option"
  so_pcm_buffer :: "i16 list"
  so_contributed :: bool
  so_queued :: "i16 list list"

record 's destination_mixer =
  mx_dest_codec :: audio_codec
  mx_dest_pt :: u8
  mx_encoder :: "'s audio_encoder"
  mx_sources :: "(endpoint_id, 's source_state) hash_map"
  mx_mix_buffer :: "i16 list"
  mx_accumulator :: "int list"
  mx_encode_buffer :: bytes
  mx_rtp_timestamp :: u32
  mx_frame_samples :: nat
  mx_clock_increment :: u32
  mx_frames_emitted :: u64
  mx_output_queue :: "routed_rtp_packet list"

definition DestinationMixer_matches_output :: "'s destination_mixer \<Rightarrow> audio_codec \<Rightarrow> u8 \<Rightarrow> bool" where
  "DestinationMixer_matches_output m codec payload_type \<longleftrightarrow> mx_dest_codec m = codec \<and> mx_dest_pt m = payload_type"

definition DestinationMixer_matches_profile :: "'s destination_mixer \<Rightarrow> opus_profile \<Rightarrow> bool" where
  "DestinationMixer_matches_profile m profile \<longleftrightarrow>
     mx_dest_codec m \<noteq> Opus \<or> AudioEncoder_opus_profile (mx_encoder m) = profile"

text \<open>The random first timestamp is an argument.\<close>

definition DestinationMixer_new_with_profile ::
  "'s codec_lib \<Rightarrow> audio_codec \<Rightarrow> u8 \<Rightarrow> opus_profile \<Rightarrow> u32 \<Rightarrow> mixer_error + 's destination_mixer" where
  "DestinationMixer_new_with_profile lib dest_codec dest_pt opus_profile random_ts =
     (case make_encoder_with_profile lib dest_codec opus_profile of
        Inl e \<Rightarrow> Inl (Codec e)
      | Inr encoder \<Rightarrow>
          let frame_samples = AudioCodec_ptime_samples dest_codec;
              clock_increment = AudioCodec_rtp_clock_rate dest_codec div 50
          in Inr \<lparr>mx_dest_codec = dest_codec, mx_dest_pt = dest_pt, mx_encoder = encoder, mx_sources = [],
                  mx_mix_buffer = replicate frame_samples 0, mx_accumulator = replicate frame_samples 0,
                  mx_encode_buffer = [], mx_rtp_timestamp = random_ts, mx_frame_samples = frame_samples,
                  mx_clock_increment = clock_increment, mx_frames_emitted = 0, mx_output_queue = []\<rparr>)"

definition DestinationMixer_new ::
  "'s codec_lib \<Rightarrow> audio_codec \<Rightarrow> u8 \<Rightarrow> u32 \<Rightarrow> mixer_error + 's destination_mixer" where
  "DestinationMixer_new lib dest_codec dest_pt random_ts =
     DestinationMixer_new_with_profile lib dest_codec dest_pt OpusProfile_default random_ts"

definition put_source :: "endpoint_id \<Rightarrow> 's source_state \<Rightarrow> 's destination_mixer \<Rightarrow> 's destination_mixer" where
  "put_source source_id s m = m\<lparr>mx_sources := hm_insert source_id s (mx_sources m)\<rparr>"

definition DestinationMixer_ensure_source ::
  "'s codec_lib \<Rightarrow> 's destination_mixer \<Rightarrow> endpoint_id \<Rightarrow> audio_codec
     \<Rightarrow> (mixer_error + 's source_state) \<times> 's destination_mixer" where
  "DestinationMixer_ensure_source lib m source_id source_codec =
     (case hm_get (mx_sources m) source_id of
        Some s \<Rightarrow> (Inr s, m)
      | None \<Rightarrow>
          (case make_decoder lib source_codec of
             Inl e \<Rightarrow> (Inl (Codec e), m)
           | Inr decoder \<Rightarrow>
               let from = AudioCodec_sample_rate source_codec;
                   to = AudioCodec_sample_rate (mx_dest_codec m);
                   new = (\<lambda>resampler. \<lparr>so_decoder = Some decoder, so_resampler = resampler, so_pcm_buffer = [],
                            so_contributed = False, so_queued = []\<rparr>)
               in if from \<noteq> to then
                    case Resampler_new from to of
                      None \<Rightarrow> (Inl Panic, m)
                    | Some r \<Rightarrow> (Inr (new (Some r)), put_source source_id (new (Some r)) m)
                  else (Inr (new None), put_source source_id (new None) m)))"

definition DestinationMixer_feed_pcm ::
  "'s destination_mixer \<Rightarrow> endpoint_id \<Rightarrow> i16 list \<Rightarrow> (mixer_error + unit) \<times> 's destination_mixer" where
  "DestinationMixer_feed_pcm m source_id samples =
     (if length samples \<noteq> mx_frame_samples m then (Inl Needs20msFrame, m)
      else
        let source = hm_entry (mx_sources m) source_id
              \<lparr>so_decoder = None, so_resampler = None, so_pcm_buffer = [], so_contributed = False, so_queued = []\<rparr>;
            m = put_source source_id source m
        in if \<not> length (so_queued source) < 12 then (Inl SourceQueueFull, m)
           else (Inr (), put_source source_id (source\<lparr>so_queued := so_queued source @ [samples]\<rparr>) m))"

definition DestinationMixer_has_pending :: "'s destination_mixer \<Rightarrow> bool" where
  "DestinationMixer_has_pending m = list_ex (\<lambda>(_, s). so_contributed s \<or> so_queued s \<noteq> []) (mx_sources m)"

definition take_queued :: "'s source_state \<Rightarrow> 's source_state" where
  "take_queued s = (case so_queued s of
     [] \<Rightarrow> s
   | samples # rest \<Rightarrow> s\<lparr>so_queued := rest, so_pcm_buffer := samples, so_contributed := True\<rparr>)"

definition each_source :: "('s source_state \<Rightarrow> 's source_state) \<Rightarrow> 's destination_mixer \<Rightarrow> 's destination_mixer" where
  "each_source f m = m\<lparr>mx_sources := map (map_prod id f) (mx_sources m)\<rparr>"

text \<open>Adding one source's samples to the accumulator, as far as the mix buffer reaches.\<close>

definition accumulate :: "nat \<Rightarrow> i16 list \<Rightarrow> int list \<Rightarrow> int list" where
  "accumulate n pcm acc =
     map (\<lambda>i. if i < length pcm \<and> i < n then acc ! i + sint (pcm ! i) else acc ! i) [0..<length acc]"

definition saturate :: "int \<Rightarrow> i16" where
  "saturate x = word_of_int (max (- 32768) (min 32767 x))"

definition mix_sources :: "'s destination_mixer \<Rightarrow> int list" where
  "mix_sources m =
     fold (\<lambda>(_, s) acc. if so_contributed s then accumulate (length (mx_mix_buffer m)) (so_pcm_buffer s) acc else acc)
       (mx_sources m) (replicate (length (mx_accumulator m)) 0)"

text \<open>The stages of \<open>flush_frame\<close>: the sum, and after encoding the new packet.\<close>

definition mix_frame :: "'s destination_mixer \<Rightarrow> 's destination_mixer" where
  "mix_frame m =
     (let m = m\<lparr>mx_accumulator := mix_sources m\<rparr>;
          n = min (length (mx_mix_buffer m)) (length (mx_accumulator m))
      in m\<lparr>mx_mix_buffer := map saturate (take n (mx_accumulator m)) @ drop n (mx_mix_buffer m)\<rparr>)"

definition emit_frame :: "'s destination_mixer \<Rightarrow> 's destination_mixer" where
  "emit_frame m =
     (let marker = (mx_frames_emitted m = 0);
          timestamp = mx_rtp_timestamp m;
          m = m\<lparr>mx_rtp_timestamp := mx_rtp_timestamp m + mx_clock_increment m,
                mx_frames_emitted := mx_frames_emitted m + 1\<rparr>;
          m = each_source (\<lambda>s. s\<lparr>so_contributed := False\<rparr>) m
      in m\<lparr>mx_output_queue := mx_output_queue m
             @ [\<lparr>pk_source_endpoint_id = 0, pk_payload_type = mx_dest_pt m, pk_sequence_number = 0,
                 pk_timestamp = timestamp, pk_ssrc = 0, pk_marker = marker,
                 pk_payload = mx_encode_buffer m\<rparr>]\<rparr>)"

definition DestinationMixer_flush_frame ::
  "'s codec_lib \<Rightarrow> 's destination_mixer \<Rightarrow> (mixer_error + unit) \<times> 's destination_mixer" where
  "DestinationMixer_flush_frame lib m =
     (let m = each_source take_queued m in
      if \<not> list_ex (\<lambda>(_, s). so_contributed s) (mx_sources m) then (Inr (), m)
      else
        let m = mix_frame m;
            (r, encoded, encoder) = AudioEncoder_encode lib (mx_encoder m) (mx_mix_buffer m) (mx_encode_buffer m);
            m = m\<lparr>mx_encode_buffer := encoded, mx_encoder := encoder\<rparr>
        in case r of
             Inl e \<Rightarrow> (Inl (Codec e), m)
           | Inr _ \<Rightarrow> (Inr (), emit_frame m))"

text \<open>The stages of \<open>feed\<close>: a second contribution starts a new frame; then the payload is decoded
  and resampled into the source's buffer.\<close>

definition frame_boundary ::
  "'s codec_lib \<Rightarrow> 's destination_mixer \<Rightarrow> endpoint_id \<Rightarrow> (mixer_error + unit) \<times> 's destination_mixer" where
  "frame_boundary lib m source_id =
     (if (case hm_get (mx_sources m) source_id of Some s \<Rightarrow> so_contributed s | None \<Rightarrow> False)
      then DestinationMixer_flush_frame lib m else (Inr (), m))"

definition feed_source ::
  "'s codec_lib \<Rightarrow> 's destination_mixer \<Rightarrow> endpoint_id \<Rightarrow> 's source_state \<Rightarrow> bytes
     \<Rightarrow> (mixer_error + unit) \<times> 's destination_mixer" where
  "feed_source lib m source_id source payload =
     (case so_decoder source of
        None \<Rightarrow> (Inl Panic, m)
      | Some decoder \<Rightarrow>
          let (r, pcm, decoder) = AudioDecoder_decode lib decoder payload (so_pcm_buffer source);
              source = source\<lparr>so_pcm_buffer := pcm, so_decoder := Some decoder\<rparr>
          in case r of
               Inl e \<Rightarrow> (Inl (Codec e), put_source source_id source m)
             | Inr _ \<Rightarrow>
                 (case (case so_resampler source of
                          None \<Rightarrow> Some source
                        | Some rs \<Rightarrow>
                            map_option (\<lambda>(pcm, rs). source\<lparr>so_pcm_buffer := pcm, so_resampler := Some rs\<rparr>)
                              (Resampler_process rs (so_pcm_buffer source))) of
                    None \<Rightarrow> (Inl Panic, put_source source_id source m)
                  | Some source \<Rightarrow>
                      if length (so_pcm_buffer source) \<noteq> mx_frame_samples m
                      then (Inl Needs20msInput, put_source source_id source m)
                      else (Inr (), put_source source_id (source\<lparr>so_contributed := True\<rparr>) m)))"

definition DestinationMixer_feed ::
  "'s codec_lib \<Rightarrow> 's destination_mixer \<Rightarrow> endpoint_id \<Rightarrow> audio_codec \<Rightarrow> bytes
     \<Rightarrow> (mixer_error + unit) \<times> 's destination_mixer" where
  "DestinationMixer_feed lib m source_id source_codec payload =
     (case frame_boundary lib m source_id of
        (Inl e, m) \<Rightarrow> (Inl e, m)
      | (Inr _, m) \<Rightarrow>
          (case DestinationMixer_ensure_source lib m source_id source_codec of
             (Inl e, m) \<Rightarrow> (Inl e, m)
           | (Inr source, m) \<Rightarrow> feed_source lib m source_id source payload))"

definition DestinationMixer_drain :: "'s destination_mixer \<Rightarrow> routed_rtp_packet list \<times> 's destination_mixer" where
  "DestinationMixer_drain m = (mx_output_queue m, m\<lparr>mx_output_queue := []\<rparr>)"

definition DestinationMixer_flush ::
  "'s codec_lib \<Rightarrow> 's destination_mixer \<Rightarrow> (mixer_error + routed_rtp_packet list) \<times> 's destination_mixer" where
  "DestinationMixer_flush lib m =
     (case DestinationMixer_flush_frame lib m of
        (Inl e, m) \<Rightarrow> (Inl e, m)
      | (Inr _, m) \<Rightarrow> (Inr (mx_output_queue m), m\<lparr>mx_output_queue := []\<rparr>))"

definition DestinationMixer_flush_tick ::
  "'s codec_lib \<Rightarrow> 's destination_mixer \<Rightarrow> (mixer_error + unit) \<times> 's destination_mixer" where
  "DestinationMixer_flush_tick lib m = DestinationMixer_flush_frame lib m"

definition DestinationMixer_continue_from_timestamp :: "'s destination_mixer \<Rightarrow> u32 \<Rightarrow> 's destination_mixer" where
  "DestinationMixer_continue_from_timestamp m last_ts = m\<lparr>mx_rtp_timestamp := last_ts + mx_clock_increment m\<rparr>"

definition DestinationMixer_remove_source :: "'s destination_mixer \<Rightarrow> endpoint_id \<Rightarrow> 's destination_mixer" where
  "DestinationMixer_remove_source m source_id = m\<lparr>mx_sources := hm_remove source_id (mx_sources m)\<rparr>"

definition DestinationMixer_retain_sources :: "'s destination_mixer \<Rightarrow> endpoint_id list \<Rightarrow> 's destination_mixer" where
  "DestinationMixer_retain_sources m active =
     m\<lparr>mx_sources := filter (\<lambda>(i, _). i \<in> set active) (mx_sources m)\<rparr>"

section \<open>The sum\<close>

text \<open>The specification: every sample of the mix is the saturated sum of the frames' samples.\<close>

definition mixed :: "nat \<Rightarrow> i16 list list \<Rightarrow> i16 list" where
  "mixed n frames = map (\<lambda>i. saturate (\<Sum>f\<leftarrow>frames. sint (f ! i))) [0..<n]"

definition contributions :: "'s destination_mixer \<Rightarrow> i16 list list" where
  "contributions m = map (so_pcm_buffer \<circ> snd) (filter (so_contributed \<circ> snd) (mx_sources m))"

lemma length_accumulate [simp]: "length (accumulate n pcm acc) = length acc"
  by (simp add: accumulate_def)

lemma nth_accumulate:
  "i < length acc \<Longrightarrow> length pcm = length acc \<Longrightarrow> n = length acc \<Longrightarrow>
     accumulate n pcm acc ! i = acc ! i + sint (pcm ! i)"
  by (simp add: accumulate_def)

lemma fold_accumulate:
  assumes "\<forall>(_, s) \<in> set ss. so_contributed s \<longrightarrow> length (so_pcm_buffer s) = n" "length acc = n"
  defines "r \<equiv> fold (\<lambda>(_, s) acc. if so_contributed s then accumulate n (so_pcm_buffer s) acc else acc) ss acc"
  shows "length r = n"
    "i < n \<Longrightarrow> r ! i = acc ! i + (\<Sum>f\<leftarrow>map (so_pcm_buffer \<circ> snd) (filter (so_contributed \<circ> snd) ss). sint (f ! i))"
  using assms(1,2) unfolding r_def
  by (induction ss arbitrary: acc) (auto simp: nth_accumulate split_beta)

lemma mix_sources_sum:
  assumes "\<forall>(_, s) \<in> set (mx_sources m). so_contributed s \<longrightarrow> length (so_pcm_buffer s) = n"
    "length (mx_mix_buffer m) = n" "length (mx_accumulator m) = n"
  shows "map saturate (mix_sources m) = mixed n (contributions m)"
  unfolding mix_sources_def mixed_def contributions_def assms(2,3)
  using fold_accumulate [OF assms(1), of "replicate n 0"] by (intro nth_equalityI) simp_all

section \<open>The invariant\<close>

definition source_ok :: "nat \<Rightarrow> 's source_state \<Rightarrow> bool" where
  "source_ok n s \<longleftrightarrow> length (so_queued s) \<le> 12 \<and> list_all (\<lambda>f. length f = n) (so_queued s)
     \<and> (so_contributed s \<longrightarrow> length (so_pcm_buffer s) = n)"

definition mixer_ok :: "'s destination_mixer \<Rightarrow> bool" where
  "mixer_ok m \<longleftrightarrow> hm_wf (mx_sources m) \<and> length (mx_mix_buffer m) = mx_frame_samples m
     \<and> length (mx_accumulator m) = mx_frame_samples m
     \<and> (\<forall>i s. hm_get (mx_sources m) i = Some s \<longrightarrow> source_ok (mx_frame_samples m) s)"

lemma mixer_ok_sources:
  assumes "mixer_ok m" "(i, s) \<in> set (mx_sources m)"
  shows "source_ok (mx_frame_samples m) s"
  using assms by (auto simp: mixer_ok_def hm_wf_def hm_get_def)

lemma mixer_ok_put:
  "mixer_ok m \<Longrightarrow> source_ok (mx_frame_samples m) s \<Longrightarrow> mixer_ok (put_source i s m)"
  by (auto simp: mixer_ok_def put_source_def)

lemma put_source_keeps [simp]:
  "mx_frame_samples (put_source i s m) = mx_frame_samples m" "mx_output_queue (put_source i s m) = mx_output_queue m"
  "mx_rtp_timestamp (put_source i s m) = mx_rtp_timestamp m" "mx_frames_emitted (put_source i s m) = mx_frames_emitted m"
  "mx_clock_increment (put_source i s m) = mx_clock_increment m" "mx_dest_pt (put_source i s m) = mx_dest_pt m"
  by (simp_all add: put_source_def)

lemma hm_get_map: "hm_get (map (map_prod id f) m) k = map_option f (hm_get m k)"
  by (induction m) (auto simp: hm_get_def)

lemma hm_wf_map: "hm_wf (map (map_prod id f) m) = hm_wf m"
  by (simp add: hm_wf_def comp_def)

lemma mixer_ok_each:
  assumes "mixer_ok m" "\<And>s. source_ok (mx_frame_samples m) s \<Longrightarrow> source_ok (mx_frame_samples m) (f s)"
  shows "mixer_ok (each_source f m)"
  using assms by (auto simp: mixer_ok_def each_source_def hm_get_map hm_wf_map)

lemma each_source_keeps [simp]:
  "mx_frame_samples (each_source f m) = mx_frame_samples m" "mx_output_queue (each_source f m) = mx_output_queue m"
  "mx_rtp_timestamp (each_source f m) = mx_rtp_timestamp m" "mx_frames_emitted (each_source f m) = mx_frames_emitted m"
  "mx_clock_increment (each_source f m) = mx_clock_increment m" "mx_dest_pt (each_source f m) = mx_dest_pt m"
  "mx_mix_buffer (each_source f m) = mx_mix_buffer m" "mx_encoder (each_source f m) = mx_encoder m"
  "mx_accumulator (each_source f m) = mx_accumulator m" "mx_encode_buffer (each_source f m) = mx_encode_buffer m"
  by (simp_all add: each_source_def)

lemma source_ok_take_queued: "source_ok n s \<Longrightarrow> source_ok n (take_queued s)"
  by (auto simp: source_ok_def take_queued_def split: list.splits)

lemma source_ok_reset: "source_ok n s \<Longrightarrow> source_ok n (s\<lparr>so_contributed := False\<rparr>)"
  by (simp add: source_ok_def)

section \<open>Flushing a frame\<close>

definition silent :: "'s destination_mixer \<Rightarrow> bool" where
  "silent m \<longleftrightarrow> contributions (each_source take_queued m) = []"

lemma silent_iff: "silent m \<longleftrightarrow> \<not> list_ex (\<lambda>(_, s). so_contributed s) (mx_sources (each_source take_queued m))"
  by (auto simp: silent_def contributions_def list_ex_iff filter_empty_conv split_beta)

lemma flush_frame_silent: "silent m \<Longrightarrow> DestinationMixer_flush_frame lib m = (Inr (), each_source take_queued m)"
  by (simp add: DestinationMixer_flush_frame_def silent_iff Let_def)

lemma contributed_lengths:
  assumes "mixer_ok m"
  shows "\<forall>(_, s) \<in> set (mx_sources m). so_contributed s \<longrightarrow> length (so_pcm_buffer s) = mx_frame_samples m"
  using mixer_ok_sources [OF assms] by (fastforce simp: source_ok_def)

lemma mix_frame_eq:
  assumes "mixer_ok m"
  shows "mix_frame m = m\<lparr>mx_accumulator := mix_sources m, mx_mix_buffer := mixed (mx_frame_samples m) (contributions m)\<rparr>"
    and "mixer_ok (mix_frame m)"
proof -
  have len: "length (mx_mix_buffer m) = mx_frame_samples m" "length (mx_accumulator m) = mx_frame_samples m"
    using assms by (simp_all add: mixer_ok_def)
  note mix = mix_sources_sum [OF contributed_lengths [OF assms] len]
  have n: "length (mix_sources m) = mx_frame_samples m"
    using arg_cong [OF mix, of length] by (simp add: mixed_def)
  show eq: "mix_frame m = m\<lparr>mx_accumulator := mix_sources m, mx_mix_buffer := mixed (mx_frame_samples m) (contributions m)\<rparr>"
    using mix n len by (simp add: mix_frame_def Let_def)
  show "mixer_ok (mix_frame m)"
    using assms n by (simp add: eq mixer_ok_def mixed_def)
qed

lemma mixer_ok_emit: "mixer_ok m \<Longrightarrow> mixer_ok (emit_frame m)"
proof -
  assume m: "mixer_ok m"
  have "mixer_ok (each_source (\<lambda>s. s\<lparr>so_contributed := False\<rparr>) m)"
    by (rule mixer_ok_each [OF m]) (rule source_ok_reset)
  then show ?thesis by (simp add: emit_frame_def Let_def mixer_ok_def each_source_def)
qed

text \<open>The state in which the frame is encoded.\<close>

definition ready :: "'s destination_mixer \<Rightarrow> 's destination_mixer" where
  "ready m = mix_frame (each_source take_queued m)"

lemma ready_ok:
  assumes "mixer_ok m"
  shows "mixer_ok (ready m)" "mx_mix_buffer (ready m) = mixed (mx_frame_samples m) (contributions (each_source take_queued m))"
proof -
  have ok: "mixer_ok (each_source take_queued m)" by (rule mixer_ok_each [OF assms source_ok_take_queued])
  show "mixer_ok (ready m)" unfolding ready_def by (rule mix_frame_eq(2) [OF ok])
  show "mx_mix_buffer (ready m) = mixed (mx_frame_samples m) (contributions (each_source take_queued m))"
    unfolding ready_def mix_frame_eq(1) [OF ok] by simp
qed

lemma ready_keeps [simp]:
  "mx_frame_samples (ready m) = mx_frame_samples m" "mx_output_queue (ready m) = mx_output_queue m"
  "mx_rtp_timestamp (ready m) = mx_rtp_timestamp m" "mx_frames_emitted (ready m) = mx_frames_emitted m"
  "mx_clock_increment (ready m) = mx_clock_increment m" "mx_dest_pt (ready m) = mx_dest_pt m"
  "mx_encoder (ready m) = mx_encoder m" "mx_encode_buffer (ready m) = mx_encode_buffer m"
  by (simp_all add: ready_def mix_frame_def Let_def)

lemma flush_frame_loud:
  "\<not> silent m \<Longrightarrow> AudioEncoder_encode lib (mx_encoder m) (mx_mix_buffer (ready m)) (mx_encode_buffer m) = (r, encoded, encoder) \<Longrightarrow>
   DestinationMixer_flush_frame lib m =
     (let m = (ready m)\<lparr>mx_encode_buffer := encoded, mx_encoder := encoder\<rparr> in
      case r of Inl e \<Rightarrow> (Inl (Codec e), m) | Inr _ \<Rightarrow> (Inr (), emit_frame m))"
  unfolding DestinationMixer_flush_frame_def silent_iff Let_def ready_def [symmetric]
  by (simp only: ready_keeps prod.case simp_thms if_False if_True not_not split: if_split)

lemma mixer_ok_flush: "mixer_ok m \<Longrightarrow> mixer_ok (snd (DestinationMixer_flush_frame lib m))"
proof (cases "silent m")
  case True
  assume "mixer_ok m"
  with True show ?thesis by (simp add: flush_frame_silent mixer_ok_each source_ok_take_queued)
next
  case False
  assume m: "mixer_ok m"
  obtain r encoded encoder where enc: "AudioEncoder_encode lib (mx_encoder m) (mx_mix_buffer (ready m)) (mx_encode_buffer m)
      = (r, encoded, encoder)"
    by (metis prod_cases3)
  have "mixer_ok ((ready m)\<lparr>mx_encode_buffer := encoded, mx_encoder := encoder\<rparr>)"
    using ready_ok(1) [OF m] by (simp add: mixer_ok_def)
  then show ?thesis
    unfolding flush_frame_loud [OF False enc] by (simp add: Let_def mixer_ok_emit split: sum.splits)
qed

section \<open>Runs of the mixer\<close>

datatype mixer_op =
    Feed endpoint_id audio_codec bytes
  | Feed_Pcm endpoint_id "i16 list"
  | Flush_Tick
  | Drain
  | Continue_From u32
  | Remove_Source endpoint_id
  | Retain_Sources "endpoint_id list"

primrec mixer_apply ::
  "'s codec_lib \<Rightarrow> 's destination_mixer \<Rightarrow> mixer_op \<Rightarrow> routed_rtp_packet list \<times> 's destination_mixer" where
  "mixer_apply lib m (Feed i codec payload) = ([], snd (DestinationMixer_feed lib m i codec payload))"
| "mixer_apply lib m (Feed_Pcm i samples) = ([], snd (DestinationMixer_feed_pcm m i samples))"
| "mixer_apply lib m Flush_Tick = ([], snd (DestinationMixer_flush_tick lib m))"
| "mixer_apply lib m Drain = DestinationMixer_drain m"
| "mixer_apply lib m (Continue_From ts) = ([], DestinationMixer_continue_from_timestamp m ts)"
| "mixer_apply lib m (Remove_Source i) = ([], DestinationMixer_remove_source m i)"
| "mixer_apply lib m (Retain_Sources active) = ([], DestinationMixer_retain_sources m active)"

abbreviation mixer_end :: "'s codec_lib \<Rightarrow> 's destination_mixer \<Rightarrow> mixer_op list \<Rightarrow> 's destination_mixer" where
  "mixer_end lib m ops \<equiv> state_with (mixer_apply lib) m ops"

abbreviation mixer_drained :: "'s codec_lib \<Rightarrow> 's destination_mixer \<Rightarrow> mixer_op list \<Rightarrow> routed_rtp_packet list" where
  "mixer_drained lib m ops \<equiv> concat (results_with (mixer_apply lib) m ops)"

subsection \<open>The timeline\<close>

text \<open>What a packet says of the mixer's timeline, and the next \<open>n\<close> packets of a mixer.\<close>

definition stamp :: "routed_rtp_packet \<Rightarrow> u32 \<times> bool \<times> u8" where
  "stamp p = (pk_timestamp p, pk_marker p, pk_payload_type p)"

definition next_stamps :: "'s destination_mixer \<Rightarrow> nat \<Rightarrow> (u32 \<times> bool \<times> u8) list" where
  "next_stamps m n = map (\<lambda>k. (mx_rtp_timestamp m + of_nat k * mx_clock_increment m,
     mx_frames_emitted m + of_nat k = 0, mx_dest_pt m)) [0..<n]"

text \<open>\<open>moved m out m' n\<close>: from \<open>m\<close> to \<open>m'\<close> the mixer made \<open>n\<close> packets, of which \<open>out\<close> left it.\<close>

definition moved :: "'s destination_mixer \<Rightarrow> routed_rtp_packet list \<Rightarrow> 's destination_mixer \<Rightarrow> nat \<Rightarrow> bool" where
  "moved m out m' n \<longleftrightarrow>
     mx_rtp_timestamp m' = mx_rtp_timestamp m + of_nat n * mx_clock_increment m
     \<and> mx_frames_emitted m' = mx_frames_emitted m + of_nat n
     \<and> mx_clock_increment m' = mx_clock_increment m \<and> mx_dest_pt m' = mx_dest_pt m
     \<and> mx_frame_samples m' = mx_frame_samples m
     \<and> map stamp (out @ mx_output_queue m') = map stamp (mx_output_queue m) @ next_stamps m n"

lemma next_stamps_append:
  assumes "mx_rtp_timestamp m' = mx_rtp_timestamp m + of_nat a * mx_clock_increment m"
    "mx_frames_emitted m' = mx_frames_emitted m + of_nat a"
    "mx_clock_increment m' = mx_clock_increment m" "mx_dest_pt m' = mx_dest_pt m"
  shows "next_stamps m a @ next_stamps m' b = next_stamps m (a + b)"
  using assms
  by (intro nth_equalityI) (auto simp: next_stamps_def nth_append algebra_simps simp flip: of_nat_add distrib_right)

lemma moved_trans: "moved m o1 m1 a \<Longrightarrow> moved m1 o2 m2 b \<Longrightarrow> moved m (o1 @ o2) m2 (a + b)"
  using next_stamps_append [of m1 m a b]
  by (auto simp: moved_def algebra_simps) (metis append.assoc)

lemma moved_same:
  assumes "mx_rtp_timestamp m' = mx_rtp_timestamp m" "mx_frames_emitted m' = mx_frames_emitted m"
    "mx_clock_increment m' = mx_clock_increment m" "mx_dest_pt m' = mx_dest_pt m"
    "mx_frame_samples m' = mx_frame_samples m" "out @ mx_output_queue m' = mx_output_queue m"
  shows "moved m out m' 0"
  using assms by (simp add: moved_def next_stamps_def flip: map_append)

lemma moved_put: "moved m [] m' n \<Longrightarrow> moved m [] (put_source i s m') n"
  by (simp add: moved_def)

lemma moved_flush: "\<exists>n. moved m [] (snd (DestinationMixer_flush_frame lib m)) n"
proof (cases "silent m")
  case True
  then have "moved m [] (snd (DestinationMixer_flush_frame lib m)) 0"
    by (intro moved_same) (simp_all add: flush_frame_silent)
  then show ?thesis ..
next
  case False
  obtain r encoded encoder where enc: "AudioEncoder_encode lib (mx_encoder m) (mx_mix_buffer (ready m)) (mx_encode_buffer m)
      = (r, encoded, encoder)"
    by (metis prod_cases3)
  let ?m = "(ready m)\<lparr>mx_encode_buffer := encoded, mx_encoder := encoder\<rparr>"
  have "moved m [] ?m 0" by (intro moved_same) simp_all
  moreover have "moved m [] (emit_frame ?m) 1"
    by (simp add: moved_def emit_frame_def Let_def next_stamps_def stamp_def each_source_def)
  ultimately show ?thesis unfolding flush_frame_loud [OF False enc] by (auto simp: Let_def split: sum.splits)
qed

lemma ensure_source_cases:
  "(\<exists>e. DestinationMixer_ensure_source lib m i codec = (Inl e, m))
   \<or> (\<exists>s. DestinationMixer_ensure_source lib m i codec = (Inr s, m) \<and> hm_get (mx_sources m) i = Some s)
   \<or> (\<exists>s. DestinationMixer_ensure_source lib m i codec = (Inr s, put_source i s m)
         \<and> so_queued s = [] \<and> \<not> so_contributed s)"
  by (cases "hm_get (mx_sources m) i"; cases "make_decoder lib codec";
      cases "Resampler_new (AudioCodec_sample_rate codec) (AudioCodec_sample_rate (mx_dest_codec m))")
    (simp_all add: DestinationMixer_ensure_source_def Let_def)

lemma emitted_not_contributed:
  assumes "DestinationMixer_flush_frame lib m = (Inr u, m')" "hm_get (mx_sources m') i = Some s"
  shows "\<not> so_contributed s"
proof (cases "silent m")
  case True
  then have m': "m' = each_source take_queued m" and none: "\<not> list_ex (\<lambda>(_, s). so_contributed s) (mx_sources m')"
    using assms(1) by (simp_all add: flush_frame_silent silent_iff)
  have "(i, s) \<in> set (mx_sources m')" using assms(2) by (simp add: hm_get_def map_of_SomeD)
  with none show ?thesis by (auto simp: list_ex_iff)
next
  case False
  obtain r encoded encoder where enc: "AudioEncoder_encode lib (mx_encoder m) (mx_mix_buffer (ready m)) (mx_encode_buffer m)
      = (r, encoded, encoder)"
    by (metis prod_cases3)
  from assms(1) have "m' = emit_frame ((ready m)\<lparr>mx_encode_buffer := encoded, mx_encoder := encoder\<rparr>)"
    unfolding flush_frame_loud [OF False enc] by (simp add: Let_def split: sum.splits)
  with assms(2) show ?thesis by (auto simp: emit_frame_def Let_def each_source_def hm_get_map)
qed

lemma boundary_ok:
  assumes "frame_boundary lib m i = (r, m')"
  shows "mixer_ok m \<Longrightarrow> mixer_ok m'" "\<exists>n. moved m [] m' n"
    "r = Inr () \<Longrightarrow> hm_get (mx_sources m') i = Some s \<Longrightarrow> \<not> so_contributed s"
proof -
  have same: "moved m [] m 0" by (intro moved_same) simp_all
  have m': "m' = m \<or> m' = snd (DestinationMixer_flush_frame lib m)"
    using assms by (auto simp: frame_boundary_def split: if_splits)
  then show "mixer_ok m \<Longrightarrow> mixer_ok m'" "\<exists>n. moved m [] m' n"
    using mixer_ok_flush moved_flush same by blast+
  show "\<not> so_contributed s" if "r = Inr ()" "hm_get (mx_sources m') i = Some s"
    using assms that emitted_not_contributed [of lib m "()" m' i s]
    by (auto simp: frame_boundary_def split: if_splits option.splits)
qed

lemma feed_source_shape:
  "\<not> so_contributed source \<Longrightarrow>
   snd (feed_source lib m i source payload) = m \<or>
   (\<exists>s. snd (feed_source lib m i source payload) = put_source i s m \<and> so_queued s = so_queued source
      \<and> (so_contributed s \<longrightarrow> length (so_pcm_buffer s) = mx_frame_samples m))"
  unfolding feed_source_def
  by (cases "so_decoder source") (auto simp: Let_def split_beta split: sum.splits option.splits)

lemma feed_ok:
  assumes m: "mixer_ok m"
  shows "mixer_ok (snd (DestinationMixer_feed lib m i codec payload))"
    "\<exists>n. moved m [] (snd (DestinationMixer_feed lib m i codec payload)) n"
proof -
  obtain r m1 where b: "frame_boundary lib m i = (r, m1)" by fastforce
  note bok = boundary_ok [OF b]
  have "mixer_ok (snd (DestinationMixer_feed lib m i codec payload))
    \<and> (\<exists>n. moved m [] (snd (DestinationMixer_feed lib m i codec payload)) n)"
  proof (cases r)
    case (Inl e)
    then show ?thesis using b bok m by (simp add: DestinationMixer_feed_def)
  next
    case (Inr u)
    have m1: "mixer_ok m1" "\<exists>n. moved m [] m1 n" using bok m by blast+
    consider (failed) e where "DestinationMixer_ensure_source lib m1 i codec = (Inl e, m1)"
      | (source) s m2 where "DestinationMixer_ensure_source lib m1 i codec = (Inr s, m2)"
          "m2 = m1 \<and> hm_get (mx_sources m1) i = Some s \<or> m2 = put_source i s m1 \<and> so_queued s = [] \<and> \<not> so_contributed s"
      using ensure_source_cases [of lib m1 i codec] by blast
    then show ?thesis
    proof cases
      case failed
      then show ?thesis using b Inr m1 by (simp add: DestinationMixer_feed_def)
    next
      case source
      have s: "source_ok (mx_frame_samples m1) s" "\<not> so_contributed s"
        using source(2) bok(3) Inr m1(1) by (auto simp: mixer_ok_def source_ok_def)
      have m2: "mixer_ok m2" "\<exists>n. moved m [] m2 n" "mx_frame_samples m2 = mx_frame_samples m1"
        using source(2) m1 s by (auto intro: mixer_ok_put moved_put)
      have eq: "DestinationMixer_feed lib m i codec payload = feed_source lib m2 i s payload"
        using b Inr source(1) by (simp add: DestinationMixer_feed_def)
      show ?thesis
        unfolding eq using feed_source_shape [OF s(2), of lib m2 i payload]
      proof
        assume "snd (feed_source lib m2 i s payload) = m2"
        with m2 show "mixer_ok (snd (feed_source lib m2 i s payload)) \<and> (\<exists>n. moved m [] (snd (feed_source lib m2 i s payload)) n)"
          by simp
      next
        assume "\<exists>s'. snd (feed_source lib m2 i s payload) = put_source i s' m2 \<and> so_queued s' = so_queued s
            \<and> (so_contributed s' \<longrightarrow> length (so_pcm_buffer s') = mx_frame_samples m2)"
        then obtain s' where s': "snd (feed_source lib m2 i s payload) = put_source i s' m2"
          "so_queued s' = so_queued s" "so_contributed s' \<longrightarrow> length (so_pcm_buffer s') = mx_frame_samples m2" by blast
        have "source_ok (mx_frame_samples m2) s'" using s(1) s'(2,3) m2(3) by (simp add: source_ok_def)
        with m2 s'(1) show "mixer_ok (snd (feed_source lib m2 i s payload)) \<and> (\<exists>n. moved m [] (snd (feed_source lib m2 i s payload)) n)"
          by (auto intro: mixer_ok_put moved_put)
      qed
    qed
  qed
  then show "mixer_ok (snd (DestinationMixer_feed lib m i codec payload))"
    "\<exists>n. moved m [] (snd (DestinationMixer_feed lib m i codec payload)) n" by blast+
qed

lemma feed_pcm_ok:
  assumes m: "mixer_ok m"
  shows "mixer_ok (snd (DestinationMixer_feed_pcm m i samples))"
    "moved m [] (snd (DestinationMixer_feed_pcm m i samples)) 0"
proof -
  let ?new = "\<lparr>so_decoder = None, so_resampler = None, so_pcm_buffer = [], so_contributed = False, so_queued = []\<rparr>"
  let ?s = "hm_entry (mx_sources m) i ?new"
  have s: "source_ok (mx_frame_samples m) ?s"
    using m by (auto simp: mixer_ok_def hm_entry_def source_ok_def split: option.splits)
  have ok: "mixer_ok (put_source i ?s m)" by (rule mixer_ok_put [OF m s])
  have "source_ok (mx_frame_samples m) (?s\<lparr>so_queued := so_queued ?s @ [samples]\<rparr>)"
    if "length samples = mx_frame_samples m" "length (so_queued ?s) < 12"
    using s that by (simp add: source_ok_def)
  then have ok2: "mixer_ok (put_source i (?s\<lparr>so_queued := so_queued ?s @ [samples]\<rparr>) (put_source i ?s m))"
    if "length samples = mx_frame_samples m" "length (so_queued ?s) < 12"
    using that ok by (intro mixer_ok_put [OF ok]) simp_all
  show "mixer_ok (snd (DestinationMixer_feed_pcm m i samples))"
    using m ok ok2 by (simp add: DestinationMixer_feed_pcm_def Let_def)
  have "moved m [] m 0" by (intro moved_same) simp_all
  then show "moved m [] (snd (DestinationMixer_feed_pcm m i samples)) 0"
    by (simp add: DestinationMixer_feed_pcm_def Let_def moved_put)
qed

lemma drop_sources_ok:
  assumes "mixer_ok m" "hm_wf ss" "\<And>i s. hm_get ss i = Some s \<Longrightarrow> hm_get (mx_sources m) i = Some s"
  shows "mixer_ok (m\<lparr>mx_sources := ss\<rparr>)"
  using assms by (auto simp: mixer_ok_def)

lemma filter_sources:
  assumes "hm_wf m"
  shows "hm_wf (filter (\<lambda>(i, _). P i) m)"
    "hm_get (filter (\<lambda>(i, _). P i) m) i = Some s \<Longrightarrow> hm_get m i = Some s"
  using assms by (induction m) (auto simp: hm_wf_def hm_get_def split: if_splits dest: map_of_SomeD)

lemma apply_ok: "mixer_ok m \<Longrightarrow> mixer_ok (snd (mixer_apply lib m op))"
proof (cases op)
  case (Remove_Source i)
  assume m: "mixer_ok m"
  then have wf: "hm_wf (mx_sources m)" by (simp add: mixer_ok_def)
  show ?thesis
    using m wf by (simp add: Remove_Source DestinationMixer_remove_source_def)
      (auto intro!: drop_sources_ok split: if_splits)
next
  case (Retain_Sources active)
  assume m: "mixer_ok m"
  then have wf: "hm_wf (mx_sources m)" by (simp add: mixer_ok_def)
  show ?thesis
    unfolding Retain_Sources mixer_apply.simps snd_conv DestinationMixer_retain_sources_def
    by (rule drop_sources_ok [OF m filter_sources(1) [OF wf]]) (rule filter_sources(2) [OF wf])
next
  case Drain
  assume "mixer_ok m"
  then show ?thesis by (simp add: Drain DestinationMixer_drain_def mixer_ok_def)
next
  case (Continue_From ts)
  assume "mixer_ok m"
  then show ?thesis by (simp add: Continue_From DestinationMixer_continue_from_timestamp_def mixer_ok_def)
qed (simp_all add: feed_ok feed_pcm_ok mixer_ok_flush DestinationMixer_flush_tick_def)

lemma apply_moved:
  assumes "mixer_ok m" "\<nexists>ts. op = Continue_From ts"
  shows "\<exists>n. moved m (fst (mixer_apply lib m op)) (snd (mixer_apply lib m op)) n"
proof (cases op)
  case (Feed i codec payload)
  then show ?thesis using feed_ok(2) [OF assms(1)] by simp
next
  case (Feed_Pcm i samples)
  then show ?thesis using feed_pcm_ok(2) [OF assms(1)] by auto
next
  case Flush_Tick
  then show ?thesis using moved_flush by (simp add: DestinationMixer_flush_tick_def)
next
  case Drain
  have "moved m (mx_output_queue m) (m\<lparr>mx_output_queue := []\<rparr>) 0" by (intro moved_same) simp_all
  then show ?thesis by (auto simp: Drain DestinationMixer_drain_def)
next
  case (Continue_From ts)
  with assms(2) show ?thesis by simp
next
  case (Remove_Source i)
  have "moved m [] (DestinationMixer_remove_source m i) 0"
    by (intro moved_same) (simp_all add: DestinationMixer_remove_source_def)
  then show ?thesis by (auto simp: Remove_Source)
next
  case (Retain_Sources active)
  have "moved m [] (DestinationMixer_retain_sources m active) 0"
    by (intro moved_same) (simp_all add: DestinationMixer_retain_sources_def)
  then show ?thesis by (auto simp: Retain_Sources)
qed

lemma apply_frame_samples: "mixer_ok m \<Longrightarrow> mx_frame_samples (snd (mixer_apply lib m op)) = mx_frame_samples m"
proof (cases "\<exists>ts. op = Continue_From ts")
  case True
  then show ?thesis by (auto simp: DestinationMixer_continue_from_timestamp_def)
next
  case False
  assume "mixer_ok m"
  from apply_moved [OF this False, of lib] show ?thesis by (auto simp: moved_def)
qed

lemma run_ok:
  "mixer_ok m \<Longrightarrow> mixer_ok (mixer_end lib m ops) \<and> mx_frame_samples (mixer_end lib m ops) = mx_frame_samples m"
  by (induction ops arbitrary: m) (simp_all add: apply_ok apply_frame_samples)

lemma run_moved:
  "mixer_ok m \<Longrightarrow> list_all (\<lambda>op. \<nexists>ts. op = Continue_From ts) ops \<Longrightarrow>
     \<exists>n. moved m (mixer_drained lib m ops) (mixer_end lib m ops) n"
proof (induction ops arbitrary: m)
  case Nil
  have "moved m [] m 0" by (intro moved_same) simp_all
  then show ?case by auto
next
  case (Cons op ops)
  obtain a where "moved m (fst (mixer_apply lib m op)) (snd (mixer_apply lib m op)) a"
    using apply_moved [OF Cons(2), of op lib] Cons(3) by auto
  moreover obtain b where "moved (snd (mixer_apply lib m op)) (mixer_drained lib (snd (mixer_apply lib m op)) ops)
      (mixer_end lib (snd (mixer_apply lib m op)) ops) b"
    using Cons(1) [OF apply_ok [OF Cons(2), of lib op]] Cons(3) by auto
  ultimately show ?case using moved_trans by fastforce
qed

lemma new_ok:
  assumes "DestinationMixer_new_with_profile lib codec pt profile ts = Inr m"
  shows "mixer_ok m" "mx_frame_samples m = AudioCodec_ptime_samples codec" "mx_output_queue m = []"
    "mx_rtp_timestamp m = ts" "mx_frames_emitted m = 0" "mx_dest_pt m = pt"
    "mx_clock_increment m = AudioCodec_rtp_clock_rate codec div 50"
  using assms
  by (auto simp: DestinationMixer_new_with_profile_def mixer_ok_def Let_def split: sum.splits)

lemma sint_saturate: "sint (saturate x) = max (- 32768) (min 32767 x)"
  unfolding saturate_def by (simp add: signed_of_int signed_take_bit_int_eq_self)

section \<open>Properties\<close>

text \<open>C31. Whatever was fed to a mixer before, a tick adds up exactly one frame of every source that has
  one, each of them 20 ms long: sample by sample the mix is the sum, limited to the 16-bit range and
  never wrapped.  The encoded mix becomes the next output packet; if the encoder fails the error is
  returned and nothing is output, and if no source has a frame nothing is output either.\<close>

theorem mixer_tick_saturated_sum:
  assumes "DestinationMixer_new_with_profile lib codec pt profile ts = Inr m0"
  shows "let m = mixer_end lib m0 ops; n = AudioCodec_ptime_samples codec;
      frames = contributions (each_source take_queued m);
      (r, m') = DestinationMixer_flush_tick lib m
    in if frames = [] then r = Inr () \<and> mx_output_queue m' = mx_output_queue m
       else list_all (\<lambda>f. length f = n) frames
         \<and> map sint (mx_mix_buffer m') = map (\<lambda>i. max (- 32768) (min 32767 (\<Sum>f\<leftarrow>frames. sint (f ! i)))) [0..<n]
         \<and> (case AudioEncoder_encode lib (mx_encoder m) (mx_mix_buffer m') (mx_encode_buffer m) of
              (Inl e, _) \<Rightarrow> r = Inl (Codec e) \<and> mx_output_queue m' = mx_output_queue m
            | (Inr _, payload, _) \<Rightarrow> r = Inr ()
                \<and> (\<exists>p. mx_output_queue m' = mx_output_queue m @ [p] \<and> pk_payload p = payload))"
proof -
  define m where "m = mixer_end lib m0 ops"
  let ?n = "AudioCodec_ptime_samples codec" and ?t = "each_source take_queued m"
  have inv: "mixer_ok m" "mx_frame_samples m = ?n"
    using run_ok [OF new_ok(1) [OF assms], of lib ops] new_ok(2) [OF assms] by (simp_all add: m_def)
  have ok: "mixer_ok ?t" by (rule mixer_ok_each [OF inv(1) source_ok_take_queued])
  have len: "list_all (\<lambda>f. length f = ?n) (contributions ?t)"
    using contributed_lengths [OF ok] inv(2) by (auto simp: contributions_def list_all_iff)
  have mix: "map sint (mx_mix_buffer (ready m))
      = map (\<lambda>i. max (- 32768) (min 32767 (\<Sum>f\<leftarrow>contributions ?t. sint (f ! i)))) [0..<?n]"
    unfolding ready_ok(2) [OF inv(1)] mixed_def inv(2) by (simp add: sint_saturate)
  obtain r encoded encoder where enc: "AudioEncoder_encode lib (mx_encoder m) (mx_mix_buffer (ready m)) (mx_encode_buffer m)
      = (r, encoded, encoder)"
    by (metis prod_cases3)
  let ?e = "(ready m)\<lparr>mx_encode_buffer := encoded, mx_encoder := encoder\<rparr>"
  have emit: "mx_mix_buffer (emit_frame ?e) = mx_mix_buffer (ready m)"
    "\<exists>p. mx_output_queue (emit_frame ?e) = mx_output_queue m @ [p] \<and> pk_payload p = encoded"
    by (simp_all add: emit_frame_def Let_def each_source_def)
  show ?thesis
  proof (cases "silent m")
    case True
    then show ?thesis
      unfolding m_def [symmetric] Let_def DestinationMixer_flush_tick_def flush_frame_silent [OF True]
      by (simp add: silent_def)
  next
    case False
    then show ?thesis
      unfolding m_def [symmetric] Let_def DestinationMixer_flush_tick_def flush_frame_loud [OF False enc]
      using len mix emit enc by (cases r) (simp_all add: silent_def)
  qed
qed

text \<open>A library of coders for the examples, which only use raw samples, and a mixer of frames of two
  samples.\<close>

definition demo_lib :: "unit codec_lib" where
  "demo_lib = \<lparr>cl_ulaw_decode = ucast, cl_ulaw_encode = ucast,
     cl_g722_decoder_new = (), cl_g722_decode = (\<lambda>s b. (map ucast b, s)),
     cl_g722_encoder_new = (), cl_g722_encode = (\<lambda>s p. (map ucast p, s)),
     cl_opus_decoder_new = Inr (), cl_opus_decode = (\<lambda>s b buf. (Inr 0, buf, s)),
     cl_opus_encoder_new = Inr (), cl_opus_set_bitrate = (\<lambda>s _. Inr s), cl_opus_set_vbr = (\<lambda>s _. Inr s),
     cl_opus_set_max_bandwidth = (\<lambda>s _. Inr s), cl_opus_encode = (\<lambda>s p buf. (Inr 0, buf, s))\<rparr>"

definition demo_mixer :: "unit destination_mixer" where
  "demo_mixer = \<lparr>mx_dest_codec = L16 100, mx_dest_pt = 127, mx_encoder = L16Encoder 100, mx_sources = [],
     mx_mix_buffer = [0, 0], mx_accumulator = [0, 0], mx_encode_buffer = [], mx_rtp_timestamp = 7,
     mx_frame_samples = 2, mx_clock_increment = 2, mx_frames_emitted = 0, mx_output_queue = []\<rparr>"

lemma demo_mixer_new: "DestinationMixer_new_with_profile demo_lib (L16 100) 127 OpusProfile_default 7 = Inr demo_mixer"
proof -
  have two: "replicate 2 x = [x, x]" for x :: 'a by (simp add: numeral_2_eq_2)
  show ?thesis
    by (simp add: DestinationMixer_new_with_profile_def make_encoder_with_profile_def AudioCodec_ptime_samples_def
        demo_mixer_def Let_def two)
qed

theorem mixer_tick_saturated_sum_witness:
  "let m = mixer_end demo_lib demo_mixer [Feed_Pcm 1 [30000, 5], Feed_Pcm 2 [10000, -7]] in
   DestinationMixer_new_with_profile demo_lib (L16 100) 127 OpusProfile_default 7 = Inr demo_mixer
   \<and> map sint (mx_mix_buffer (snd (DestinationMixer_flush_tick demo_lib m))) = [32767, - 2]"
proof -
  let ?ops = "[Feed_Pcm 1 [30000, 5], Feed_Pcm 2 [10000, -7]]"
  let ?m = "mixer_end demo_lib demo_mixer ?ops"
  have m: "contributions (each_source take_queued ?m) = [[30000, 5], [10000, -7]]"
    by (simp add: demo_mixer_def DestinationMixer_feed_pcm_def put_source_def hm_entry_def hm_get_def hm_insert_def
        each_source_def take_queued_def contributions_def Let_def)
  have n: "AudioCodec_ptime_samples (L16 100) = 2" by (simp add: AudioCodec_ptime_samples_def)
  have s: "sint (30000 :: i16) = 30000" "sint (10000 :: i16) = 10000" "sint (5 :: i16) = 5" "sint (- 7 :: i16) = - 7"
    by simp_all
  from mixer_tick_saturated_sum [OF demo_mixer_new, of ?ops] have
    "map sint (mx_mix_buffer (snd (DestinationMixer_flush_tick demo_lib ?m)))
     = map (\<lambda>i. max (- 32768) (min 32767 (\<Sum>f\<leftarrow>[[30000, 5], [10000, -7 :: i16]]. sint (f ! i)))) [0..<2]"
    unfolding Let_def m n by (simp only: split_beta list.distinct if_False simp_thms)
  then show ?thesis using demo_mixer_new by (simp add: Let_def s upt_rec numeral_2_eq_2)
qed

text \<open>C32. As long as nobody moves the mixer's timeline, the packets it makes form one timeline whatever
  the sources do: 20 ms apart from the first timestamp on, wrapping at 32 bits, with the marker on
  the first packet, the destination's payload type on all of them, and no packet lost between the
  mixer and its output.  No source ever has more than 12 frames (240 ms) waiting.\<close>

theorem mixer_timeline:
  assumes "DestinationMixer_new_with_profile lib codec pt profile ts = Inr m0"
    "list_all (\<lambda>op. \<nexists>ts. op = Continue_From ts) ops"
  shows "let out = mixer_drained lib m0 ops @ mx_output_queue (mixer_end lib m0 ops) in
    map stamp out = map (\<lambda>k. (ts + of_nat k * (AudioCodec_rtp_clock_rate codec div 50), of_nat k = (0 :: u64), pt))
      [0..<length out]
    \<and> list_all (\<lambda>(_, s). length (so_queued s) \<le> 12) (mx_sources (mixer_end lib m0 ops))"
proof -
  note new = new_ok [OF assms(1)]
  obtain n where "moved m0 (mixer_drained lib m0 ops) (mixer_end lib m0 ops) n"
    using run_moved [OF new(1) assms(2)] by blast
  then have st: "map stamp (mixer_drained lib m0 ops @ mx_output_queue (mixer_end lib m0 ops)) = next_stamps m0 n"
    by (simp add: moved_def new(3))
  have "length (mixer_drained lib m0 ops @ mx_output_queue (mixer_end lib m0 ops)) = n"
    using arg_cong [OF st, of length] by (simp add: next_stamps_def)
  moreover have "list_all (\<lambda>(_, s). length (so_queued s) \<le> 12) (mx_sources (mixer_end lib m0 ops))"
    using mixer_ok_sources [of "mixer_end lib m0 ops"] run_ok [OF new(1), of lib ops]
    by (fastforce simp: list_all_iff source_ok_def)
  ultimately show ?thesis
    unfolding Let_def st by (simp add: next_stamps_def new)
qed

theorem mixer_timeline_witness:
  "let ops = [Feed_Pcm 1 [1, 2], Flush_Tick, Drain, Feed_Pcm 1 [3, 4], Flush_Tick];
       out = mixer_drained demo_lib demo_mixer ops @ mx_output_queue (mixer_end demo_lib demo_mixer ops) in
   DestinationMixer_new_with_profile demo_lib (L16 100) 127 OpusProfile_default 7 = Inr demo_mixer
   \<and> list_all (\<lambda>op. \<nexists>ts. op = Continue_From ts) ops
   \<and> map stamp out = map (\<lambda>k. (7 + of_nat k * 2, of_nat k = (0 :: u64), 127)) [0..<length out]"
proof -
  let ?ops = "[Feed_Pcm 1 [1, 2], Flush_Tick, Drain, Feed_Pcm 1 [3, 4], Flush_Tick]"
  have ops: "list_all (\<lambda>op. \<nexists>ts. op = Continue_From ts) ?ops" by simp
  have rate: "AudioCodec_rtp_clock_rate (L16 100) div 50 = 2" by simp
  note timeline = mixer_timeline [OF demo_mixer_new ops, unfolded Let_def rate]
  show ?thesis unfolding Let_def
    using demo_mixer_new ops conjunct1 [OF timeline] by blast
qed

end
