(* ===== verification/Sdp.thy ===== *)
theory Sdp
  imports Text Srtp Audio_Codec
begin

text \<open>
  SDP for plain RTP (\<open>src/src/media/sdp.rs\<close>): codec tables and their selection, the
  parser \<open>parse_sdp\<close> with its two passes over the lines, the checks an endpoint makes on a
  parsed description, and the generator.  The parser's mutable locals are the record
  \<open>sdp_scan\<close>; a line's branch of the code's \<open>if\<close> chain is a branch of \<open>scan_line\<close>.
\<close>

section \<open>Definitions\<close>

subsection \<open>Codecs\<close>

record sdp_codec =
  cd_pt :: u8
  cd_name :: string
  cd_clock_rate :: u32
  cd_channels :: "u8 option"
  cd_maxptime :: "u32 option"
  cd_fmtp :: "string option"

definition CODEC_PCMU :: sdp_codec where
  "CODEC_PCMU = \<lparr>cd_pt = 0, cd_name = ''PCMU'', cd_clock_rate = 8000, cd_channels = None,
     cd_maxptime = None, cd_fmtp = None\<rparr>"

definition CODEC_G722 :: sdp_codec where
  "CODEC_G722 = \<lparr>cd_pt = 9, cd_name = ''G722'', cd_clock_rate = 8000, cd_channels = None,
     cd_maxptime = None, cd_fmtp = None\<rparr>"

definition CODEC_OPUS :: sdp_codec where
  "CODEC_OPUS = \<lparr>cd_pt = 111, cd_name = ''opus'', cd_clock_rate = 48000, cd_channels = Some 2,
     cd_maxptime = None, cd_fmtp = Some ''minptime=10;useinbandfec=1;stereo=0;sprop-stereo=0''\<rparr>"

definition CODEC_TELEPHONE_EVENT :: sdp_codec where
  "CODEC_TELEPHONE_EVENT = \<lparr>cd_pt = 101, cd_name = ''telephone-event'', cd_clock_rate = 8000,
     cd_channels = None, cd_maxptime = None, cd_fmtp = Some ''0-16''\<rparr>"

definition codec_quality :: "sdp_codec \<Rightarrow> nat" where
  "codec_quality c =
     (case AudioCodec_from_name (cd_name c) of
        Some Opus \<Rightarrow> 3 | Some G722 \<Rightarrow> 2 | Some Pcmu \<Rightarrow> 1 | _ \<Rightarrow> 0)"

definition is_telephone_event :: "sdp_codec \<Rightarrow> bool" where
  "is_telephone_event c \<longleftrightarrow> cd_name c = ''telephone-event''"

definition select_answer_codec :: "sdp_codec list \<Rightarrow> sdp_codec option" where
  "select_answer_codec codecs =
     (case filter (\<lambda>c. \<not> is_telephone_event c) codecs of
        [] \<Rightarrow> None
      | c # cs \<Rightarrow>
          Some (foldl (\<lambda>best c. if codec_quality best < codec_quality c then c else best) c cs))"

definition select_telephone_event_codec :: "sdp_codec list \<Rightarrow> u32 \<Rightarrow> sdp_codec option" where
  "select_telephone_event_codec codecs media_clock_rate =
     (case find is_telephone_event codecs of
        None \<Rightarrow> None
      | Some first \<Rightarrow>
          (case find (\<lambda>c. is_telephone_event c \<and> cd_clock_rate c = media_clock_rate) codecs of
             Some c \<Rightarrow> Some c | None \<Rightarrow> Some first))"

fun ordered_codecs :: "sdp_codec list \<Rightarrow> sdp_codec list \<Rightarrow> string list \<Rightarrow> sdp_codec list" where
  "ordered_codecs known ordered [] = ordered"
| "ordered_codecs known ordered (name # names) =
     (case find (\<lambda>c. eq_ignore_ascii_case name (cd_name c)) known of
        Some c \<Rightarrow>
          ordered_codecs known
            (if list_ex (\<lambda>e. cd_pt e = cd_pt c) ordered then ordered else ordered @ [c]) names
      | None \<Rightarrow> ordered_codecs known ordered names)"

definition offer_codec_list :: "string list option \<Rightarrow> sdp_codec list" where
  "offer_codec_list prefer =
     (let known = [CODEC_OPUS, CODEC_G722, CODEC_PCMU];
          codecs = (case prefer of Some names \<Rightarrow> ordered_codecs known [] names | None \<Rightarrow> known)
      in codecs @ [CODEC_TELEPHONE_EVENT])"

subsection \<open>The Opus receive profile\<close>

definition clamp :: "nat \<Rightarrow> nat \<Rightarrow> nat \<Rightarrow> nat" where
  "clamp lo hi x = max lo (min hi x)"

definition profile_item :: "opus_profile \<Rightarrow> string \<Rightarrow> opus_profile" where
  "profile_item profile item =
     (case split_once (CHR ''='') (trim item) of
        None \<Rightarrow> profile
      | Some (key, val) \<Rightarrow>
          let key = to_ascii_lowercase (trim key); num = parse_uint 32 (trim val) in
          if key = ''maxaveragebitrate'' then
            (case num of Some v \<Rightarrow> profile\<lparr>op_bitrate := of_nat (clamp 6000 510000 v)\<rparr> | None \<Rightarrow> profile)
          else if key = ''maxplaybackrate'' then
            (case num of Some v \<Rightarrow> profile\<lparr>op_playback_rate := of_nat (clamp 8000 48000 v)\<rparr> | None \<Rightarrow> profile)
          else if key = ''minptime'' then
            (case num of Some v \<Rightarrow> profile\<lparr>op_min_packet_ms := of_nat v\<rparr> | None \<Rightarrow> profile)
          else if key = ''stereo'' then profile\<lparr>op_stereo := (trim val = ''1'')\<rparr>
          else profile)"

definition OpusProfile_parse :: "string option \<Rightarrow> opus_profile" where
  "OpusProfile_parse fmtp =
     foldl profile_item OpusProfile_default
       (split_char (CHR '';'') (case fmtp of Some s \<Rightarrow> s | None \<Rightarrow> []))"

definition OpusProfile_advertised_default :: opus_profile where
  "OpusProfile_advertised_default = OpusProfile_default\<lparr>op_min_packet_ms := 10, op_max_packet_ms := 20\<rparr>"

definition OpusProfile_from_codec :: "sdp_codec \<Rightarrow> opus_profile" where
  "OpusProfile_from_codec codec =
     (OpusProfile_parse (cd_fmtp codec))
       \<lparr>op_max_packet_ms := (case cd_maxptime codec of Some m \<Rightarrow> m | None \<Rightarrow> 120)\<rparr>"

definition OpusProfile_encodable :: "opus_profile \<Rightarrow> bool" where
  "OpusProfile_encodable p \<longleftrightarrow> op_min_packet_ms p \<le> 20 \<and> 20 \<le> op_max_packet_ms p"

definition OpusProfile_permits :: "opus_profile \<Rightarrow> opus_profile \<Rightarrow> bool" where
  "OpusProfile_permits p sender \<longleftrightarrow>
     op_min_packet_ms p \<le> op_min_packet_ms sender \<and> op_max_packet_ms sender \<le> op_max_packet_ms p
     \<and> op_bitrate sender \<le> op_bitrate p \<and> op_playback_rate sender \<le> op_playback_rate p
     \<and> (op_stereo p \<or> \<not> op_stereo sender)"

definition OpusProfile_fmtp :: "opus_profile \<Rightarrow> string" where
  "OpusProfile_fmtp p =
     ''minptime='' @ show_nat (unat (op_min_packet_ms p)) @ '';useinbandfec=1;stereo=''
     @ (if op_stereo p then ''1'' else ''0'') @ '';sprop-stereo=0;maxaveragebitrate=''
     @ show_nat (unat (op_bitrate p)) @ '';maxplaybackrate='' @ show_nat (unat (op_playback_rate p))"

subsection \<open>Keys\<close>

record sdp_crypto =
  cy_tag :: u32
  cy_suite :: string
  cy_key_b64 :: string
  cy_key_lifetime_packets :: "nat option"

definition plain_number :: "string \<Rightarrow> bool" where
  "plain_number s \<longleftrightarrow> s \<noteq> [] \<and> list_all (is_digit 10) s \<and> \<not> (1 < length s \<and> starts_with ''0'' s)"

definition parse_sdes_lifetime :: "string \<Rightarrow> nat option" where
  "parse_sdes_lifetime val =
     (let lifetime =
            (case strip_prefix ''2^'' val of
               Some exponent \<Rightarrow>
                 if \<not> plain_number exponent then None
                 else (case parse_uint 32 exponent of
                         Some e \<Rightarrow> if e < 64 then Some (2 ^ e) else None
                       | None \<Rightarrow> None)
             | None \<Rightarrow> if \<not> plain_number val then None else parse_uint 64 val)
      in case lifetime of
           Some n \<Rightarrow> if 1 \<le> n \<and> n \<le> MAX_SRTP_PACKETS_PER_MASTER_KEY then Some n else None
         | None \<Rightarrow> None)"

definition parse_sdes_inline_key :: "string \<Rightarrow> (string \<times> nat option) option" where
  "parse_sdes_inline_key val =
     (case strip_prefix ''inline:'' val of
        None \<Rightarrow> None
      | Some val \<Rightarrow>
          (case split_char (CHR ''|'') val of
             [key_b64] \<Rightarrow> Some (key_b64, None)
           | [key_b64, lifetime] \<Rightarrow>
               (case parse_sdes_lifetime lifetime of
                  Some n \<Rightarrow> Some (key_b64, Some n) | None \<Rightarrow> None)
           | _ \<Rightarrow> None))"

definition SDES_SUITE :: string where "SDES_SUITE = ''AES_CM_128_HMAC_SHA1_80''"

definition parse_sdes_crypto :: "string \<Rightarrow> sdp_crypto option" where
  "parse_sdes_crypto val =
     (case split_whitespace val of
        [tag, suite, key] \<Rightarrow>
          if suite \<noteq> SDES_SUITE then None
          else (case parse_u32 tag of
            Some n \<Rightarrow>
              if n = 0 then None
              else (case parse_sdes_inline_key key of
                Some (key_b64, lifetime) \<Rightarrow>
                  Some \<lparr>cy_tag = n, cy_suite = suite, cy_key_b64 = key_b64, cy_key_lifetime_packets = lifetime\<rparr>
              | None \<Rightarrow> None)
          | None \<Rightarrow> None)
      | _ \<Rightarrow> None)"

definition crypto_lifetime :: "sdp_crypto \<Rightarrow> nat" where
  "crypto_lifetime crypto =
     (case cy_key_lifetime_packets crypto of Some n \<Rightarrow> n | None \<Rightarrow> MAX_SRTP_PACKETS_PER_MASTER_KEY)"

definition supported_sdes_key :: "crypto_lib \<Rightarrow> sdp_crypto \<Rightarrow> bool" where
  "supported_sdes_key lib crypto \<longleftrightarrow>
     (case SrtpContext_from_sdes_key_with_lifetime lib (cy_key_b64 crypto) (crypto_lifetime crypto) of
        Inr _ \<Rightarrow> True | Inl _ \<Rightarrow> False)"

subsection \<open>Parsed descriptions\<close>

record sdp_media_section =
  ms_media :: string
  ms_protocol :: string
  ms_formats :: "string list"
  ms_active :: bool
  ms_crypto_present :: bool
  ms_crypto_supported :: bool

record parsed_sdp =
  ps_remote_addr :: "socket_addr option"
  ps_remote_rtcp_addr :: "socket_addr option"
  ps_invalid_rtcp :: bool
  ps_codecs :: "sdp_codec list"
  ps_opus_profile :: "opus_profile option"
  ps_telephone_event_pt :: "u8 option"
  ps_telephone_event_clock_rate :: "u32 option"
  ps_crypto :: "sdp_crypto option"
  ps_crypto_present :: bool
  ps_audio_sections :: nat
  ps_media_sections :: "sdp_media_section list"
  ps_selected_audio_section :: "nat option"
  ps_is_webrtc :: bool
  ps_direction :: "string option"
  ps_rtcp_mux :: bool
  ps_media_protocol :: "string option"
  ps_is_osrtp :: bool

datatype sdp_error = NotOneAudioSection | NoAudioSection | InvalidMediaSection | UnsupportedProfile
  | MissingCrypto | InvalidKeyMaterial | InvalidRtcpDestination | NoConnectionAddress
  | RtcpFamilyMismatch | NoSelectedSection | SelectedNotAudio

definition validate_selected_plain_media :: "crypto_lib \<Rightarrow> parsed_sdp \<Rightarrow> sdp_error + unit" where
  "validate_selected_plain_media lib p =
     (if ps_selected_audio_section p = None
         \<or> list_ex (\<lambda>s. ms_media s = [] \<or> ms_protocol s = [] \<or> ms_formats s = []) (ps_media_sections p)
      then Inl InvalidMediaSection
      else
        let secure =
              (case ps_media_protocol p of
                 Some proto \<Rightarrow>
                   if proto = ''RTP/AVP'' \<or> proto = ''RTP/AVPF'' then Some False
                   else if proto = ''RTP/SAVP'' \<or> proto = ''RTP/SAVPF'' then Some True
                   else None
               | None \<Rightarrow> None)
        in case secure of
             None \<Rightarrow> Inl UnsupportedProfile
           | Some secure \<Rightarrow>
               if (secure \<or> ps_crypto_present p) \<and> ps_crypto p = None then Inl MissingCrypto
               else if (case ps_crypto p of Some c \<Rightarrow> \<not> supported_sdes_key lib c | None \<Rightarrow> False)
               then Inl InvalidKeyMaterial
               else if ps_invalid_rtcp p then Inl InvalidRtcpDestination
               else if ps_remote_addr p = None then Inl NoConnectionAddress
               else if (case (ps_remote_addr p, ps_remote_rtcp_addr p) of
                          (Some rtp, Some rtcp) \<Rightarrow> is_ipv6 (sa_ip rtp) \<noteq> is_ipv6 (sa_ip rtcp)
                        | _ \<Rightarrow> False)
               then Inl RtcpFamilyMismatch
               else Inr ())"

definition validate_plain_transport :: "crypto_lib \<Rightarrow> parsed_sdp \<Rightarrow> sdp_error + unit" where
  "validate_plain_transport lib p =
     (if ps_audio_sections p \<noteq> 1 then Inl NotOneAudioSection else validate_selected_plain_media lib p)"

definition validate_plain_offer :: "crypto_lib \<Rightarrow> parsed_sdp \<Rightarrow> sdp_error + unit" where
  "validate_plain_offer lib p =
     (if ps_audio_sections p = 0 then Inl NoAudioSection else validate_selected_plain_media lib p)"

definition audio_section_preference :: "sdp_media_section \<Rightarrow> nat option" where
  "audio_section_preference section =
     (if ms_media section \<noteq> ''audio'' \<or> \<not> ms_active section then None
      else
        let savp = (ms_protocol section = ''RTP/SAVP'' \<or> ms_protocol section = ''RTP/SAVPF'');
            avp = (ms_protocol section = ''RTP/AVP'' \<or> ms_protocol section = ''RTP/AVPF'')
        in Some (if savp \<and> ms_crypto_supported section then 4
                 else if avp \<and> ms_crypto_supported section then 3
                 else if savp then 2
                 else if avp \<and> ms_crypto_present section then 2
                 else if avp then 1 else 0))"

subsection \<open>The first pass: sections\<close>

definition nth_opt :: "'a list \<Rightarrow> nat \<Rightarrow> 'a option" where
  "nth_opt xs i = (if i < length xs then Some (xs ! i) else None)"

definition port_of :: "string option \<Rightarrow> u16 option" where
  "port_of word =
     (case word of
        None \<Rightarrow> None
      | Some s \<Rightarrow> (case parse_u16 s of Some p \<Rightarrow> if p = 0 then None else Some p | None \<Rightarrow> None))"

definition section_of :: "string \<Rightarrow> sdp_media_section" where
  "section_of rest =
     (let parts = split_whitespace rest in
      \<lparr>ms_media = (case nth_opt parts 0 of Some m \<Rightarrow> m | None \<Rightarrow> []),
       ms_protocol = (case nth_opt parts 2 of Some p \<Rightarrow> p | None \<Rightarrow> []),
       ms_formats = drop 3 parts, ms_active = (port_of (nth_opt parts 1) \<noteq> None),
       ms_crypto_present = False, ms_crypto_supported = False\<rparr>)"

text \<open>\<open>current_section\<close> of the first pass is the last section, if there is one.\<close>

definition section_line :: "crypto_lib \<Rightarrow> sdp_media_section list \<Rightarrow> string \<Rightarrow> sdp_media_section list" where
  "section_line lib sections line =
     (case strip_prefix ''m='' line of
        Some rest \<Rightarrow> sections @ [section_of rest]
      | None \<Rightarrow>
          (case strip_prefix ''a=crypto:'' line of
             Some val \<Rightarrow>
               if sections = [] then sections
               else
                 let section = (last sections)\<lparr>ms_crypto_present := True\<rparr> in
                 butlast sections
                 @ [case parse_sdes_crypto val of
                      Some crypto \<Rightarrow> section\<lparr>ms_crypto_supported := supported_sdes_key lib crypto\<rparr>
                    | None \<Rightarrow> section]
           | None \<Rightarrow> sections))"

definition scan_sections :: "crypto_lib \<Rightarrow> string \<Rightarrow> sdp_media_section list" where
  "scan_sections lib sdp = foldl (section_line lib) [] (map trim (text_lines sdp))"

text \<open>The number of active audio sections and the preferred one, the first of the best.\<close>

fun select_section ::
  "sdp_media_section list \<Rightarrow> nat \<Rightarrow> nat \<times> (nat \<times> nat) option \<Rightarrow> nat \<times> (nat \<times> nat) option" where
  "select_section [] index acc = acc"
| "select_section (section # sections) index (audio_sections, best) =
     select_section sections (Suc index)
       (case audio_section_preference section of
          None \<Rightarrow> (audio_sections, best)
        | Some preference \<Rightarrow>
            (Suc audio_sections,
             case best of
               Some (_, b) \<Rightarrow> if b < preference then Some (index, preference) else best
             | None \<Rightarrow> Some (index, preference)))"

subsection \<open>The second pass: attributes\<close>

record sdp_scan =
  sn_result :: parsed_sdp
  sn_session_c_addr :: "ip_addr option"
  sn_audio_c_addr :: "ip_addr option"
  sn_m_port :: "u16 option"
  sn_rtcp_port :: "u16 option"
  sn_rtcp_ip :: "ip_addr option"
  sn_pts :: "u8 list"
  sn_maxptime :: "u32 option"
  sn_fmtp :: "(u8, string) hash_map"
  sn_rtpmap :: "(u8, string \<times> u32 \<times> u8 option) hash_map"
  sn_media_section :: "bool option"
  sn_current_section :: "nat option"

definition MAX_SDP_CODECS :: nat where "MAX_SDP_CODECS = 32"

fun collect_pts :: "u8 list \<Rightarrow> string list \<Rightarrow> u8 list" where
  "collect_pts pts [] = pts"
| "collect_pts pts (s # ss) =
     (if MAX_SDP_CODECS \<le> length pts then pts
      else collect_pts (case parse_u8 s of Some pt \<Rightarrow> pts @ [pt] | None \<Rightarrow> pts) ss)"

definition scan_connection :: "string \<Rightarrow> sdp_scan \<Rightarrow> sdp_scan" where
  "scan_connection rest n =
     (let addr = (case split_whitespace rest of a # _ \<Rightarrow> parse_ip a | [] \<Rightarrow> None) in
      case sn_media_section n of
        None \<Rightarrow> n\<lparr>sn_session_c_addr := addr\<rparr>
      | Some True \<Rightarrow> n\<lparr>sn_audio_c_addr := addr\<rparr>
      | Some False \<Rightarrow> n)"

definition scan_audio :: "string \<Rightarrow> sdp_scan \<Rightarrow> sdp_scan" where
  "scan_audio rest n =
     (let parts = split_whitespace rest;
          active_port = port_of (nth_opt parts 0)
      in if active_port = None \<or> sn_current_section n \<noteq> ps_selected_audio_section (sn_result n)
         then n\<lparr>sn_media_section := Some False\<rparr>
         else
           n\<lparr>sn_media_section := Some True, sn_m_port := active_port,
             sn_result := (if 2 \<le> length parts
                           then (sn_result n)\<lparr>ps_media_protocol := Some (parts ! 1)\<rparr> else sn_result n),
             sn_pts := collect_pts (sn_pts n) (drop 2 parts)\<rparr>)"

definition scan_fmtp :: "string \<Rightarrow> sdp_scan \<Rightarrow> sdp_scan" where
  "scan_fmtp rest n =
     (case split_once (CHR '' '') rest of
        None \<Rightarrow> n
      | Some (pt, val) \<Rightarrow>
          (case parse_u8 pt of
             Some pt \<Rightarrow> if hm_len (sn_fmtp n) < 32 then n\<lparr>sn_fmtp := hm_insert pt (trim val) (sn_fmtp n)\<rparr> else n
           | None \<Rightarrow> n))"

definition scan_rtpmap :: "string \<Rightarrow> sdp_scan \<Rightarrow> sdp_scan" where
  "scan_rtpmap rest n =
     (case split_once (CHR '' '') rest of
        None \<Rightarrow> n
      | Some (pt, encoding) \<Rightarrow>
          (case parse_u8 pt of
             None \<Rightarrow> n
           | Some pt \<Rightarrow>
               let codec_parts = split_char (CHR ''/'') encoding;
                   clock_rate = (case nth_opt codec_parts 1 of
                                   Some s \<Rightarrow> (case parse_u32 s of Some r \<Rightarrow> r | None \<Rightarrow> 0)
                                 | None \<Rightarrow> 0);
                   channels = (case nth_opt codec_parts 2 of Some s \<Rightarrow> parse_u8 s | None \<Rightarrow> None)
               in if hm_len (sn_rtpmap n) < 32
                  then n\<lparr>sn_rtpmap := hm_insert pt (hd codec_parts, clock_rate, channels) (sn_rtpmap n)\<rparr>
                  else n))"

definition scan_rtcp :: "string \<Rightarrow> sdp_scan \<Rightarrow> sdp_scan" where
  "scan_rtcp rest n =
     (let parts = split_whitespace rest;
          rtcp_port = port_of (nth_opt parts 0);
          rtcp_ip = (case nth_opt parts 3 of Some ip \<Rightarrow> parse_ip ip | None \<Rightarrow> None);
          valid_address =
            (nth_opt parts 1 = Some ''IN''
             \<and> (case rtcp_ip of
                  Some (V4 _ _ _ _) \<Rightarrow> nth_opt parts 2 = Some ''IP4''
                | Some (V6 _) \<Rightarrow> nth_opt parts 2 = Some ''IP6''
                | None \<Rightarrow> False))
      in n\<lparr>sn_rtcp_port := rtcp_port, sn_rtcp_ip := rtcp_ip,
           sn_result :=
             (if rtcp_port = None \<or> \<not> (length parts = 1 \<or> length parts = 4 \<and> valid_address)
              then (sn_result n)\<lparr>ps_invalid_rtcp := True\<rparr> else sn_result n)\<rparr>)"

definition webrtc_line :: "string \<Rightarrow> bool" where
  "webrtc_line line \<longleftrightarrow> starts_with ''a=fingerprint:'' line \<or> starts_with ''a=ice-ufrag:'' line"

definition is_direction :: "string \<Rightarrow> bool" where
  "is_direction s \<longleftrightarrow> s = ''sendrecv'' \<or> s = ''recvonly'' \<or> s = ''sendonly'' \<or> s = ''inactive''"

text \<open>The attributes that count at session level and in the selected audio section.\<close>

definition scan_attribute :: "string \<Rightarrow> sdp_scan \<Rightarrow> sdp_scan" where
  "scan_attribute line n =
     (case strip_prefix ''a=maxptime:'' line of Some rest \<Rightarrow> n\<lparr>sn_maxptime := parse_u32 rest\<rparr> | None \<Rightarrow>
      case strip_prefix ''a=fmtp:'' line of Some rest \<Rightarrow> scan_fmtp rest n | None \<Rightarrow>
      case strip_prefix ''a=rtpmap:'' line of Some rest \<Rightarrow> scan_rtpmap rest n | None \<Rightarrow>
      case strip_prefix ''a=crypto:'' line of
        Some rest \<Rightarrow>
          n\<lparr>sn_result := (sn_result n)\<lparr>ps_crypto_present := True,
              ps_crypto := (case parse_sdes_crypto rest of
                              Some c \<Rightarrow> Some c | None \<Rightarrow> ps_crypto (sn_result n))\<rparr>\<rparr>
      | None \<Rightarrow>
      if webrtc_line line then n\<lparr>sn_result := (sn_result n)\<lparr>ps_is_webrtc := True\<rparr>\<rparr>
      else if starts_with ''a='' line \<and> is_direction (drop 2 line)
      then n\<lparr>sn_result := (sn_result n)\<lparr>ps_direction := Some (drop 2 line)\<rparr>\<rparr>
      else case strip_prefix ''a=rtcp:'' line of Some rest \<Rightarrow> scan_rtcp rest n | None \<Rightarrow>
      if line = ''a=rtcp-mux'' then n\<lparr>sn_result := (sn_result n)\<lparr>ps_rtcp_mux := True\<rparr>\<rparr> else n)"

definition enter_section :: "string \<Rightarrow> sdp_scan \<Rightarrow> sdp_scan" where
  "enter_section line n =
     (if starts_with ''m='' line
      then n\<lparr>sn_current_section := Some (case sn_current_section n of None \<Rightarrow> 0 | Some i \<Rightarrow> Suc i)\<rparr>
      else n)"

definition scan_content :: "string \<Rightarrow> sdp_scan \<Rightarrow> sdp_scan" where
  "scan_content line n =
     (if starts_with ''c=IN IP4 '' line \<or> starts_with ''c=IN IP6 '' line
      then scan_connection (drop 9 line) n
      else if starts_with ''m='' line \<and> \<not> starts_with ''m=audio '' line
      then n\<lparr>sn_media_section := Some False\<rparr>
      else case strip_prefix ''m=audio '' line of
        Some rest \<Rightarrow> scan_audio rest n
      | None \<Rightarrow>
          if sn_media_section n = Some False
          then (if webrtc_line line then n\<lparr>sn_result := (sn_result n)\<lparr>ps_is_webrtc := True\<rparr>\<rparr> else n)
          else scan_attribute line n)"

definition scan_line :: "sdp_scan \<Rightarrow> string \<Rightarrow> sdp_scan" where
  "scan_line n line = scan_content line (enter_section line n)"

lemmas scan_line_defs = scan_line_def scan_content_def enter_section_def

subsection \<open>From payload types to codecs\<close>

definition one_channel :: "u8 option \<Rightarrow> bool" where
  "one_channel channels \<longleftrightarrow> (case channels of None \<Rightarrow> True | Some c \<Rightarrow> c = 1)"

definition narrowband_entry :: "string \<Rightarrow> string \<times> u32 \<times> u8 option \<Rightarrow> bool" where
  "narrowband_entry codec entry =
     (case entry of (name, rate, channels) \<Rightarrow>
        eq_ignore_ascii_case name codec \<and> rate = 8000 \<and> one_channel channels)"

definition static_pt_ok :: "sdp_scan \<Rightarrow> u8 \<Rightarrow> string \<Rightarrow> bool" where
  "static_pt_ok n pt codec =
     (case hm_get (sn_rtpmap n) pt of None \<Rightarrow> True | Some entry \<Rightarrow> narrowband_entry codec entry)"

definition push_codec :: "sdp_codec \<Rightarrow> parsed_sdp \<Rightarrow> parsed_sdp" where
  "push_codec c r = r\<lparr>ps_codecs := ps_codecs r @ [c]\<rparr>"

definition map_pt :: "sdp_scan \<Rightarrow> parsed_sdp \<Rightarrow> u8 \<Rightarrow> parsed_sdp" where
  "map_pt n r pt =
     (if pt = 0 \<and> static_pt_ok n 0 ''PCMU'' then push_codec CODEC_PCMU r
      else if pt = 9 \<and> static_pt_ok n 9 ''G722'' then push_codec CODEC_G722 r
      else if 96 \<le> pt then
        (case hm_get (sn_rtpmap n) pt of
           None \<Rightarrow> r
         | Some (name, clock_rate, channels) \<Rightarrow>
             if eq_ignore_ascii_case name ''telephone-event'' then
               push_codec (CODEC_TELEPHONE_EVENT\<lparr>cd_pt := pt,
                   cd_clock_rate := (if 0 < clock_rate then clock_rate
                                     else cd_clock_rate CODEC_TELEPHONE_EVENT)\<rparr>) r
             else if eq_ignore_ascii_case name ''opus'' \<and> clock_rate = 48000
                     \<and> (case channels of None \<Rightarrow> True | Some c \<Rightarrow> c = 2)
             then
               let opus = CODEC_OPUS\<lparr>cd_pt := pt, cd_maxptime := sn_maxptime n,
                                     cd_fmtp := hm_get (sn_fmtp n) pt\<rparr>;
                   profile = OpusProfile_from_codec opus;
                   r = r\<lparr>ps_opus_profile := Some profile\<rparr>
               in if OpusProfile_encodable profile then push_codec opus r else r
             else if narrowband_entry ''PCMU'' (name, clock_rate, channels)
             then push_codec (CODEC_PCMU\<lparr>cd_pt := pt\<rparr>) r
             else if narrowband_entry ''G722'' (name, clock_rate, channels)
             then push_codec (CODEC_G722\<lparr>cd_pt := pt\<rparr>) r
             else r)
      else r)"

definition set_addresses :: "sdp_scan \<Rightarrow> parsed_sdp \<Rightarrow> parsed_sdp" where
  "set_addresses n r =
     (let c_addr = (case sn_audio_c_addr n of Some a \<Rightarrow> Some a | None \<Rightarrow> sn_session_c_addr n);
          r = (case (c_addr, sn_m_port n) of
                 (Some addr, Some port) \<Rightarrow>
                   if port \<noteq> 0 then r\<lparr>ps_remote_addr := Some \<lparr>sa_ip = addr, sa_port = port\<rparr>\<rparr> else r
               | _ \<Rightarrow> r);
          rtcp_ip = (case sn_rtcp_ip n of Some ip \<Rightarrow> Some ip | None \<Rightarrow> c_addr)
      in case (rtcp_ip, sn_rtcp_port n) of
           (Some ip, Some port) \<Rightarrow> r\<lparr>ps_remote_rtcp_addr := Some \<lparr>sa_ip = ip, sa_port = port\<rparr>\<rparr>
         | _ \<Rightarrow> r)"

definition set_telephone_event :: "parsed_sdp \<Rightarrow> parsed_sdp" where
  "set_telephone_event r =
     (let selected_media_clock =
            (case select_answer_codec (ps_codecs r) of Some c \<Rightarrow> cd_clock_rate c | None \<Rightarrow> 8000)
      in case select_telephone_event_codec (ps_codecs r) selected_media_clock of
           Some c \<Rightarrow> r\<lparr>ps_telephone_event_pt := Some (cd_pt c),
                       ps_telephone_event_clock_rate := Some (cd_clock_rate c)\<rparr>
         | None \<Rightarrow> r)"

definition parsed_sdp_new :: parsed_sdp where
  "parsed_sdp_new =
     \<lparr>ps_remote_addr = None, ps_remote_rtcp_addr = None, ps_invalid_rtcp = False, ps_codecs = [],
      ps_opus_profile = None, ps_telephone_event_pt = None, ps_telephone_event_clock_rate = None,
      ps_crypto = None, ps_crypto_present = False, ps_audio_sections = 0, ps_media_sections = [],
      ps_selected_audio_section = None, ps_is_webrtc = False, ps_direction = None,
      ps_rtcp_mux = False, ps_media_protocol = None, ps_is_osrtp = False\<rparr>"

definition sdp_scan_new :: "parsed_sdp \<Rightarrow> sdp_scan" where
  "sdp_scan_new r =
     \<lparr>sn_result = r, sn_session_c_addr = None, sn_audio_c_addr = None, sn_m_port = None,
      sn_rtcp_port = None, sn_rtcp_ip = None, sn_pts = [], sn_maxptime = None, sn_fmtp = [],
      sn_rtpmap = [], sn_media_section = None, sn_current_section = None\<rparr>"

definition parse_sdp :: "crypto_lib \<Rightarrow> string \<Rightarrow> parsed_sdp" where
  "parse_sdp lib sdp =
     (let sections = scan_sections lib sdp;
          (audio_sections, best) = select_section sections 0 (0, None);
          r = parsed_sdp_new\<lparr>ps_media_sections := sections, ps_audio_sections := audio_sections,
                ps_selected_audio_section := map_option fst best\<rparr>;
          n = foldl scan_line (sdp_scan_new r) (map trim (text_lines sdp));
          r = set_addresses n (sn_result n);
          r = foldl (map_pt n) r (sn_pts n);
          r = set_telephone_event r
      in if ps_crypto r \<noteq> None \<and> \<not> ps_is_webrtc r \<and> ps_media_protocol r = Some ''RTP/AVP''
         then r\<lparr>ps_is_osrtp := True\<rparr> else r)"

subsection \<open>Generating\<close>

definition CRLF :: string where "CRLF = [CHR 0x0D, CHR 0x0A]"

definition rtpmap_lines :: "sdp_codec \<Rightarrow> string list" where
  "rtpmap_lines codec =
     [''a=rtpmap:'' @ show_nat (unat (cd_pt codec)) @ '' '' @ cd_name codec @ ''/''
        @ show_nat (unat (cd_clock_rate codec))
        @ (case cd_channels codec of Some ch \<Rightarrow> ''/'' @ show_nat (unat ch) | None \<Rightarrow> [])]
     @ (case cd_fmtp codec of
          Some fmtp \<Rightarrow> [''a=fmtp:'' @ show_nat (unat (cd_pt codec)) @ '' '' @ fmtp] | None \<Rightarrow> [])"

definition crypto_lines :: "sdp_crypto option \<Rightarrow> string list" where
  "crypto_lines crypto =
     (case crypto of
        None \<Rightarrow> []
      | Some c \<Rightarrow>
          [''a=crypto:'' @ show_nat (unat (cy_tag c)) @ '' '' @ cy_suite c @ '' inline:'' @ cy_key_b64 c
             @ (case cy_key_lifetime_packets c of Some n \<Rightarrow> ''|'' @ show_nat n | None \<Rightarrow> [])])"

definition with_telephone_event :: "sdp_codec list \<Rightarrow> sdp_codec list" where
  "with_telephone_event codecs =
     (if list_ex is_telephone_event codecs then codecs else codecs @ [CODEC_TELEPHONE_EVENT])"

definition media_lines :: "u16 \<Rightarrow> string \<Rightarrow> sdp_codec list \<Rightarrow> sdp_crypto option \<Rightarrow> string list" where
  "media_lines rtp_port proto all_codecs crypto =
     [''m=audio '' @ show_nat (unat rtp_port) @ '' '' @ proto @ '' ''
        @ join '' '' (map (\<lambda>c. show_nat (unat (cd_pt c))) all_codecs)]
     @ concat (map rtpmap_lines all_codecs) @ crypto_lines crypto
     @ [''a=sendrecv'', ''a=rtcp-mux'', ''a=ptime:20'', ''a=maxptime:20'']"

definition rejected_line :: "sdp_media_section \<Rightarrow> string" where
  "rejected_line section =
     ''m='' @ ms_media section @ '' 0 '' @ ms_protocol section @ '' '' @ join '' '' (ms_formats section)"

definition sdp_lines ::
  "socket_addr \<Rightarrow> u16 \<Rightarrow> sdp_codec list \<Rightarrow> sdp_crypto option \<Rightarrow> u64 \<Rightarrow> bool
     \<Rightarrow> (sdp_media_section list \<times> nat) option \<Rightarrow> string list" where
  "sdp_lines local_addr rtp_port codecs crypto session_id use_rtp_avp_profile answer_sections =
     (let ip = sa_ip local_addr;
          ip_ver = (if is_ipv6 ip then ''IP6'' else ''IP4'');
          proto = (case answer_sections of
                     Some (sections, selected) \<Rightarrow> ms_protocol (sections ! selected)
                   | None \<Rightarrow> if crypto \<noteq> None \<and> \<not> use_rtp_avp_profile then ''RTP/SAVP'' else ''RTP/AVP'');
          media = media_lines rtp_port proto (with_telephone_event codecs) crypto
      in [''v=0'', ''o=rtpbridge '' @ show_nat (unat session_id) @ '' 1 IN '' @ ip_ver @ '' '' @ show_ip ip,
          ''s=rtpbridge'', ''c=IN '' @ ip_ver @ '' '' @ show_ip ip, ''t=0 0'']
         @ (case answer_sections of
              Some (sections, selected) \<Rightarrow>
                concat (map (\<lambda>i. if i = selected then media else [rejected_line (sections ! i)])
                          [0..<length sections])
            | None \<Rightarrow> media))"

text \<open>Every line the generator writes ends in a carriage return and a line feed.\<close>

definition generate_sdp ::
  "socket_addr \<Rightarrow> u16 \<Rightarrow> sdp_codec list \<Rightarrow> sdp_crypto option \<Rightarrow> u64 \<Rightarrow> bool
     \<Rightarrow> (sdp_media_section list \<times> nat) option \<Rightarrow> string" where
  "generate_sdp local_addr rtp_port codecs crypto session_id use_rtp_avp_profile answer_sections =
     concat (map (\<lambda>line. line @ CRLF)
       (sdp_lines local_addr rtp_port codecs crypto session_id use_rtp_avp_profile answer_sections))"

definition generate_sdp_offer ::
  "socket_addr \<Rightarrow> u16 \<Rightarrow> sdp_codec list \<Rightarrow> sdp_crypto option \<Rightarrow> u64 \<Rightarrow> string" where
  "generate_sdp_offer local_addr rtp_port codecs crypto session_id =
     generate_sdp local_addr rtp_port codecs crypto session_id False None"

definition generate_osrtp_sdp_offer ::
  "socket_addr \<Rightarrow> u16 \<Rightarrow> sdp_codec list \<Rightarrow> sdp_crypto \<Rightarrow> u64 \<Rightarrow> string" where
  "generate_osrtp_sdp_offer local_addr rtp_port codecs crypto session_id =
     generate_sdp local_addr rtp_port codecs (Some crypto) session_id True None"

text \<open>The guard makes the selected index valid for the generator.\<close>

definition generate_sdp_answer_for_offer ::
  "socket_addr \<Rightarrow> u16 \<Rightarrow> sdp_codec list \<Rightarrow> sdp_crypto option \<Rightarrow> u64 \<Rightarrow> parsed_sdp \<Rightarrow> sdp_error + string" where
  "generate_sdp_answer_for_offer local_addr rtp_port codecs crypto session_id offer =
     (case ps_selected_audio_section offer of
        None \<Rightarrow> Inl NoSelectedSection
      | Some selected \<Rightarrow>
          (case nth_opt (ps_media_sections offer) selected of
             Some section \<Rightarrow>
               if ms_media section = ''audio'' then
                 Inr (generate_sdp local_addr rtp_port codecs crypto session_id False
                        (Some (ps_media_sections offer, selected)))
               else Inl SelectedNotAudio
           | None \<Rightarrow> Inl SelectedNotAudio))"

section \<open>Lemmas\<close>

subsection \<open>Reading back one generated line\<close>

lemma show_nat_no_char:
  "CHR '' '' \<notin> set (show_nat n)" "CHR ''/'' \<notin> set (show_nat n)" "CHR ''|'' \<notin> set (show_nat n)"
  "CHR 0x0A \<notin> set (show_nat n)"
  by (auto dest: show_nat_digits)

lemma split_char_Cons: "d \<notin> set w \<Longrightarrow> split_char d (w @ d # s) = w # split_char d s"
  unfolding split_char_def by (rule split_by_append) (auto simp: list_all_iff)

lemma split_char_word: "d \<notin> set w \<Longrightarrow> split_char d w = [w]"
  unfolding split_char_def by (rule split_by_word) (auto simp: list_all_iff)

text \<open>A codec the generator can write so that the parser reads it back.\<close>

definition plain_name :: "string \<Rightarrow> bool" where
  "plain_name s \<longleftrightarrow> is_word s \<and> CHR ''/'' \<notin> set s"

definition clean_text :: "string \<Rightarrow> bool" where
  "clean_text s \<longleftrightarrow> s \<noteq> [] \<and> \<not> is_whitespace (hd s) \<and> \<not> is_whitespace (last s) \<and> CHR 0x0A \<notin> set s"

definition writable :: "sdp_codec \<Rightarrow> bool" where
  "writable c \<longleftrightarrow> plain_name (cd_name c) \<and> (case cd_fmtp c of Some f \<Rightarrow> clean_text f | None \<Rightarrow> True)"

definition rtpmap_entry :: "sdp_codec \<Rightarrow> string \<times> u32 \<times> u8 option" where
  "rtpmap_entry c = (cd_name c, cd_clock_rate c, cd_channels c)"

lemma scan_rtpmap_line:
  assumes "plain_name (cd_name c)" "hm_len (sn_rtpmap n) < 32"
  shows "scan_rtpmap (show_nat (unat (cd_pt c)) @ CHR '' '' # cd_name c @ CHR ''/''
        # show_nat (unat (cd_clock_rate c)) @ (case cd_channels c of Some ch \<Rightarrow> ''/'' @ show_nat (unat ch) | None \<Rightarrow> [])) n
      = n\<lparr>sn_rtpmap := hm_insert (cd_pt c) (rtpmap_entry c) (sn_rtpmap n)\<rparr>"
  using assms
  by (cases "cd_channels c")
    (simp_all add: scan_rtpmap_def split_once_append show_nat_no_char split_char_Cons split_char_word
      plain_name_def nth_opt_def rtpmap_entry_def Let_def)

lemma scan_fmtp_line:
  assumes "clean_text f" "hm_len (sn_fmtp n) < 32"
  shows "scan_fmtp (show_nat (unat (pt :: u8)) @ CHR '' '' # f) n = n\<lparr>sn_fmtp := hm_insert pt f (sn_fmtp n)\<rparr>"
  using assms by (simp add: scan_fmtp_def split_once_append show_nat_no_char clean_text_def trim_id)

definition note_codec :: "sdp_scan \<Rightarrow> sdp_codec \<Rightarrow> sdp_scan" where
  "note_codec n c =
     n\<lparr>sn_rtpmap := hm_insert (cd_pt c) (rtpmap_entry c) (sn_rtpmap n),
       sn_fmtp := (case cd_fmtp c of Some f \<Rightarrow> hm_insert (cd_pt c) f (sn_fmtp n) | None \<Rightarrow> sn_fmtp n)\<rparr>"

lemma scan_rtpmap_lines:
  assumes "writable c" "hm_len (sn_rtpmap n) < 32" "hm_len (sn_fmtp n) < 32" "sn_media_section n = Some True"
  shows "foldl scan_line n (rtpmap_lines c) = note_codec n c"
  using assms
  by (simp add: rtpmap_lines_def scan_line_defs scan_attribute_def writable_def scan_rtpmap_line
      note_codec_def scan_fmtp_line Let_def split: option.splits)

definition plain_key :: "sdp_crypto \<Rightarrow> bool" where
  "plain_key c \<longleftrightarrow> cy_tag c \<noteq> 0 \<and> cy_suite c = SDES_SUITE \<and> is_word (cy_key_b64 c)
     \<and> CHR ''|'' \<notin> set (cy_key_b64 c)
     \<and> (case cy_key_lifetime_packets c of
          Some n \<Rightarrow> 1 \<le> n \<and> n \<le> MAX_SRTP_PACKETS_PER_MASTER_KEY | None \<Rightarrow> True)"

lemma plain_number_show: "plain_number (show_nat n)"
proof -
  have "\<not> (1 < length (show_nat n) \<and> starts_with ''0'' (show_nat n))"
  proof
    assume a: "1 < length (show_nat n) \<and> starts_with ''0'' (show_nat n)"
    then have "hd (show_nat n) = CHR ''0''" by (cases "show_nat n") simp_all
    then have "n = 0" using hd_show_radix [of 10 n] by (simp add: show_nat_def)
    with a show False by (simp add: show_nat_def show_radix.simps)
  qed
  then show ?thesis
    using show_radix_digits [of 10 n] by (simp add: plain_number_def) (simp add: show_nat_def)
qed

lemma show_nat_no_power: "strip_prefix ''2^'' (show_nat n) = None"
proof (cases "show_nat n")
  case (Cons c cs)
  then show ?thesis
    using show_nat_digits [of "hd cs" n] by (cases cs) auto
qed simp

lemma parse_lifetime_show:
  "1 \<le> n \<Longrightarrow> n \<le> MAX_SRTP_PACKETS_PER_MASTER_KEY \<Longrightarrow> parse_sdes_lifetime (show_nat n) = Some n"
  by (simp add: parse_sdes_lifetime_def show_nat_no_power plain_number_show parse_show_nat
      MAX_SRTP_PACKETS_PER_MASTER_KEY_def Let_def)

definition inline_text :: "sdp_crypto \<Rightarrow> string" where
  "inline_text c = ''inline:'' @ cy_key_b64 c
     @ (case cy_key_lifetime_packets c of Some n \<Rightarrow> ''|'' @ show_nat n | None \<Rightarrow> [])"

lemma parse_inline_text:
  "plain_key c \<Longrightarrow> parse_sdes_inline_key (inline_text c) = Some (cy_key_b64 c, cy_key_lifetime_packets c)"
  by (auto simp: parse_sdes_inline_key_def inline_text_def plain_key_def split_char_Cons split_char_word
      show_nat_no_char parse_lifetime_show split: option.splits)

lemma is_word_inline_text: "plain_key c \<Longrightarrow> is_word (inline_text c)"
  using is_word_show_nat
  by (auto simp: inline_text_def plain_key_def is_word_def is_whitespace_def Let_def list_all_iff
      split: option.splits)

lemma parse_crypto_text:
  assumes "plain_key c"
  shows "parse_sdes_crypto (show_nat (unat (cy_tag c)) @ CHR '' '' # cy_suite c @ CHR '' '' # inline_text c) = Some c"
proof -
  have "is_word SDES_SUITE" by (simp add: SDES_SUITE_def is_word_def is_whitespace_def Let_def)
  moreover have "cy_suite c = SDES_SUITE" "cy_tag c \<noteq> 0" using assms by (simp_all add: plain_key_def)
  ultimately show ?thesis
    using is_word_inline_text [OF assms] parse_inline_text [OF assms]
    by (simp add: parse_sdes_crypto_def split_whitespace_Cons split_whitespace_word)
qed

subsection \<open>Generated text, line by line\<close>

lemma clean_word: "is_word w \<Longrightarrow> clean_text w"
  by (auto simp: is_word_def clean_text_def list_all_iff)

lemma clean_append:
  "clean_text b \<Longrightarrow> a \<noteq> [] \<Longrightarrow> \<not> is_whitespace (hd a) \<Longrightarrow> CHR 0x0A \<notin> set a \<Longrightarrow> clean_text (a @ b)"
  by (simp add: clean_text_def)

lemma clean_trim: "clean_text l \<Longrightarrow> trim l = l"
  by (simp add: clean_text_def trim_id)

lemma word_no_newline: "is_word w \<Longrightarrow> CHR 0x0A \<notin> set w"
  by (auto simp: is_word_def list_all_iff)

lemma clean_join: "list_all is_word ws \<Longrightarrow> ws \<noteq> [] \<Longrightarrow> clean_text (join '' '' ws)"
proof (induction ws)
  case (Cons w ws)
  then show ?case
    using clean_append [of "join '' '' ws" "w @ '' ''"] word_no_newline [of w]
    by (cases ws) (auto simp: clean_word is_word_def list_all_iff)
qed simp

lemma lines_of_text:
  assumes "list_all clean_text ls"
  shows "map trim (text_lines (concat (map (\<lambda>l. l @ CRLF) ls))) = ls"
proof -
  have "text_lines (concat (map (\<lambda>l. l @ CRLF) ls)) = ls"
    unfolding CRLF_def by (rule text_lines_crlf) (use assms in \<open>auto simp: list_all_iff clean_text_def\<close>)
  then show ?thesis using assms by (simp add: map_idI list_all_iff clean_trim)
qed

lemma clean_rtpmap_lines: "writable c \<Longrightarrow> list_all clean_text (rtpmap_lines c)"
proof -
  assume w: "writable c"
  have nl: "CHR 0x0A \<notin> set (cd_name c)" using w by (simp add: writable_def plain_name_def word_no_newline)
  have "clean_text ((''a=rtpmap:'' @ show_nat (unat (cd_pt c)) @ '' '' @ cd_name c @ ''/'')
      @ show_nat (unat (cd_clock_rate c)))"
    by (rule clean_append) (simp_all add: clean_word nl show_nat_no_char is_whitespace_def Let_def)
  moreover have "clean_text ((''a=rtpmap:'' @ show_nat (unat (cd_pt c)) @ '' '' @ cd_name c @ ''/''
      @ show_nat (unat (cd_clock_rate c)) @ ''/'') @ show_nat (unat (ch :: u8)))" for ch
    by (rule clean_append) (simp_all add: clean_word nl show_nat_no_char is_whitespace_def Let_def)
  moreover have "clean_text ((''a=fmtp:'' @ show_nat (unat (cd_pt c)) @ '' '') @ f)" if "cd_fmtp c = Some f" for f
    using w that by (intro clean_append) (simp_all add: writable_def show_nat_no_char is_whitespace_def Let_def)
  ultimately show ?thesis by (auto simp: rtpmap_lines_def split: option.split)
qed

definition session_lines :: "ip_addr \<Rightarrow> u64 \<Rightarrow> string list" where
  "session_lines ip session_id =
     (let ip_ver = (if is_ipv6 ip then ''IP6'' else ''IP4'')
      in [''v=0'', ''o=rtpbridge '' @ show_nat (unat session_id) @ '' 1 IN '' @ ip_ver @ '' '' @ show_ip ip,
          ''s=rtpbridge'', ''c=IN '' @ ip_ver @ '' '' @ show_ip ip, ''t=0 0''])"

lemma clean_session_lines: "list_all clean_text (session_lines ip sid)"
proof -
  have "clean_text ((''o=rtpbridge '' @ show_nat (unat sid) @ '' 1 IN '' @ v @ '' '') @ show_ip ip)"
    if "CHR 0x0A \<notin> set v" for v
    by (rule clean_append) (simp_all add: that clean_word show_nat_no_char is_whitespace_def Let_def)
  moreover have "clean_text ((''c=IN '' @ v @ '' '') @ show_ip ip)" if "CHR 0x0A \<notin> set v" for v
    by (rule clean_append) (simp_all add: that clean_word is_whitespace_def Let_def)
  moreover have "clean_text ''v=0''" "clean_text ''s=rtpbridge''" "clean_text ''t=0 0''"
    by (simp_all add: clean_text_def is_whitespace_def Let_def)
  ultimately show ?thesis by (simp add: session_lines_def Let_def)
qed

lemma clean_media_lines:
  assumes "list_all writable cs" "cs \<noteq> []" "is_word proto" "\<forall>c. crypto = Some c \<longrightarrow> plain_key c"
  shows "list_all clean_text (media_lines port proto cs crypto)"
proof -
  have "clean_text ((''m=audio '' @ show_nat (unat port) @ '' '' @ proto @ '' '')
      @ join '' '' (map (\<lambda>c. show_nat (unat (cd_pt c))) cs))"
    using assms(2,3)
    by (intro clean_append clean_join)
      (simp_all add: list_all_iff show_nat_no_char word_no_newline is_whitespace_def Let_def)
  moreover have "clean_text ((''a=crypto:'' @ show_nat (unat (cy_tag c)) @ '' '' @ cy_suite c @ '' '') @ inline_text c)"
    if "crypto = Some c" for c
    using assms(4) that
    by (intro clean_append clean_word is_word_inline_text)
      (simp_all add: plain_key_def SDES_SUITE_def show_nat_no_char is_whitespace_def Let_def)
  moreover have "clean_text ''a=sendrecv''" "clean_text ''a=rtcp-mux''" "clean_text ''a=ptime:20''"
    "clean_text ''a=maxptime:20''"
    by (simp_all add: clean_text_def is_whitespace_def Let_def)
  moreover have "list_all clean_text (concat (map rtpmap_lines cs))"
    using assms(1) clean_rtpmap_lines by (fastforce simp: list_all_iff)
  ultimately show ?thesis
    by (auto simp: media_lines_def crypto_lines_def inline_text_def split: option.split)
qed

subsection \<open>The passes over generated text\<close>

lemma crypto_lines_Some:
  "crypto_lines (Some c) =
     [''a=crypto:'' @ show_nat (unat (cy_tag c)) @ CHR '' '' # cy_suite c @ CHR '' '' # inline_text c]"
  by (simp add: crypto_lines_def inline_text_def)

definition audio_section ::
  "crypto_lib \<Rightarrow> string \<Rightarrow> sdp_codec list \<Rightarrow> sdp_crypto option \<Rightarrow> sdp_media_section" where
  "audio_section lib proto cs crypto =
     \<lparr>ms_media = ''audio'', ms_protocol = proto, ms_formats = map (\<lambda>c. show_nat (unat (cd_pt c))) cs,
      ms_active = True, ms_crypto_present = (crypto \<noteq> None),
      ms_crypto_supported = (case crypto of Some c \<Rightarrow> supported_sdes_key lib c | None \<Rightarrow> False)\<rparr>"

lemma sections_rtpmap: "foldl (section_line lib) ss (concat (map rtpmap_lines cs)) = ss"
  by (induction cs) (simp_all add: rtpmap_lines_def section_line_def split: option.split)

lemma media_words:
  assumes "is_word proto"
  shows "split_whitespace (show_nat p @ '' '' @ proto @ '' '' @ join '' '' (map (\<lambda>c. show_nat (f c)) cs))
    = show_nat p # proto # map (\<lambda>c. show_nat (f c)) cs"
  using split_whitespace_join [of "map (\<lambda>c. show_nat (f c)) cs"] assms
  by (simp add: split_whitespace_Cons list_all_iff)

lemma port_of_show: "p \<noteq> 0 \<Longrightarrow> port_of (Some (show_nat (unat p))) = Some p"
  by (simp add: port_of_def)

lemma section_of_media:
  assumes "is_word proto" "port \<noteq> (0 :: u16)"
  shows "section_of (''audio '' @ show_nat (unat port) @ '' '' @ proto @ '' ''
      @ join '' '' (map (\<lambda>c. show_nat (unat (cd_pt c))) cs)) = audio_section lib proto cs None"
proof -
  have "is_word ''audio''" by (simp add: is_word_def is_whitespace_def Let_def)
  from split_whitespace_Cons [OF this] media_words [OF assms(1), of "unat port" "\<lambda>c. unat (cd_pt c)" cs]
  have "split_whitespace (''audio '' @ show_nat (unat port) @ '' '' @ proto @ '' ''
      @ join '' '' (map (\<lambda>c. show_nat (unat (cd_pt c))) cs))
    = ''audio'' # show_nat (unat port) # proto # map (\<lambda>c. show_nat (unat (cd_pt c))) cs"
    by simp
  then show ?thesis
    using assms(2) by (simp add: section_of_def audio_section_def nth_opt_def port_of_show Let_def)
qed

lemma sections_of_lines:
  assumes "is_word proto" "port \<noteq> 0" "\<forall>c. crypto = Some c \<longrightarrow> plain_key c"
  shows "foldl (section_line lib) [] (session_lines ip sid @ media_lines port proto cs crypto)
    = [audio_section lib proto cs crypto]"
proof -
  have session: "foldl (section_line lib) [] (session_lines ip sid) = []"
    by (simp add: session_lines_def section_line_def Let_def)
  have "foldl (section_line lib) [audio_section lib proto cs None] (crypto_lines crypto)
      = [audio_section lib proto cs crypto]"
  proof (cases crypto)
    case (Some c)
    then show ?thesis
      using assms(3) parse_crypto_text [of c]
      by (simp add: crypto_lines_Some section_line_def audio_section_def)
  qed (simp add: crypto_lines_def)
  then show ?thesis
    using section_of_media [OF assms(1,2), of cs lib]
    by (simp add: session media_lines_def sections_rtpmap section_line_def)
qed

lemma collect_pts_show:
  "length pts + length cs \<le> 32 \<Longrightarrow>
   collect_pts pts (map (\<lambda>c. show_nat (unat (cd_pt c))) cs) = pts @ map cd_pt cs"
  by (induction cs arbitrary: pts) (simp_all add: MAX_SDP_CODECS_def)

definition noted :: "sdp_scan \<Rightarrow> sdp_codec list \<Rightarrow> bool" where
  "noted n cs \<longleftrightarrow> (\<forall>c \<in> set cs. hm_get (sn_rtpmap n) (cd_pt c) = Some (rtpmap_entry c)
     \<and> hm_get (sn_fmtp n) (cd_pt c) = cd_fmtp c)"

lemma hm_len_insert: "hm_wf m \<Longrightarrow> hm_len (hm_insert k v m) \<le> Suc (hm_len m)"
  by (rule hm.len_ins_le)

lemma note_codecs:
  assumes "hm_wf (sn_rtpmap n)" "hm_wf (sn_fmtp n)" "distinct (map cd_pt cs)"
    and "\<forall>c \<in> set cs. hm_get (sn_fmtp n) (cd_pt c) = None"
  shows "noted (foldl note_codec n cs) cs
    \<and> (\<forall>pt. pt \<notin> cd_pt ` set cs \<longrightarrow>
        hm_get (sn_rtpmap (foldl note_codec n cs)) pt = hm_get (sn_rtpmap n) pt
        \<and> hm_get (sn_fmtp (foldl note_codec n cs)) pt = hm_get (sn_fmtp n) pt)"
  using assms
proof (induction cs arbitrary: n)
  case (Cons c cs)
  let ?n = "note_codec n c"
  have "hm_wf (sn_rtpmap ?n)" "hm_wf (sn_fmtp ?n)"
    using Cons.prems(1,2) by (simp_all add: note_codec_def split: option.split)
  moreover have "hm_get (sn_fmtp ?n) (cd_pt d) = None" if "d \<in> set cs" for d
  proof -
    have "cd_pt d \<noteq> cd_pt c" using Cons.prems(3) that by (fastforce simp: image_iff)
    with Cons.prems(4) that show ?thesis by (auto simp: note_codec_def split: option.split)
  qed
  ultimately have IH: "noted (foldl note_codec ?n cs) cs"
    "pt \<notin> cd_pt ` set cs \<Longrightarrow> hm_get (sn_rtpmap (foldl note_codec ?n cs)) pt = hm_get (sn_rtpmap ?n) pt
      \<and> hm_get (sn_fmtp (foldl note_codec ?n cs)) pt = hm_get (sn_fmtp ?n) pt" for pt
    using Cons.IH [of ?n] Cons.prems(3) by auto
  have "hm_get (sn_rtpmap ?n) (cd_pt c) = Some (rtpmap_entry c)" "hm_get (sn_fmtp ?n) (cd_pt c) = cd_fmtp c"
    using Cons.prems(4) by (auto simp: note_codec_def split: option.split)
  moreover have "hm_get (sn_rtpmap ?n) pt = hm_get (sn_rtpmap n) pt"
    "hm_get (sn_fmtp ?n) pt = hm_get (sn_fmtp n) pt" if "pt \<noteq> cd_pt c" for pt
    using that by (simp_all add: note_codec_def split: option.split)
  ultimately show ?case
    using IH Cons.prems(3) by (auto simp: noted_def)
qed (simp add: noted_def)

lemma note_codecs_frame:
  "\<exists>m f. foldl note_codec n cs = n\<lparr>sn_rtpmap := m, sn_fmtp := f\<rparr>"
proof (induction cs arbitrary: n)
  case Nil
  show ?case by (rule exI [of _ "sn_rtpmap n"], rule exI [of _ "sn_fmtp n"]) simp
next
  case (Cons c cs)
  from Cons.IH [of "note_codec n c"] obtain m f where
    "foldl note_codec (note_codec n c) cs = (note_codec n c)\<lparr>sn_rtpmap := m, sn_fmtp := f\<rparr>" by blast
  moreover have "(note_codec n c)\<lparr>sn_rtpmap := m, sn_fmtp := f\<rparr> = n\<lparr>sn_rtpmap := m, sn_fmtp := f\<rparr>"
    by (simp add: note_codec_def)
  ultimately show ?case by auto
qed

lemma scan_codecs:
  assumes "list_all writable cs" "hm_wf (sn_rtpmap n)" "hm_wf (sn_fmtp n)"
    and "hm_len (sn_rtpmap n) + length cs \<le> 32" "hm_len (sn_fmtp n) + length cs \<le> 32"
    and "sn_media_section n = Some True"
  shows "foldl scan_line n (concat (map rtpmap_lines cs)) = foldl note_codec n cs"
  using assms
proof (induction cs arbitrary: n)
  case (Cons c cs)
  let ?n = "note_codec n c"
  have "foldl scan_line n (rtpmap_lines c) = ?n"
    using Cons.prems by (intro scan_rtpmap_lines) simp_all
  moreover have "hm_wf (sn_rtpmap ?n)" "hm_wf (sn_fmtp ?n)" "sn_media_section ?n = Some True"
    using Cons.prems by (simp_all add: note_codec_def split: option.split)
  moreover have "hm_len (sn_rtpmap ?n) \<le> Suc (hm_len (sn_rtpmap n))"
    "hm_len (sn_fmtp ?n) \<le> Suc (hm_len (sn_fmtp n))"
    using hm_len_insert [OF Cons.prems(2)] hm_len_insert [OF Cons.prems(3)]
    by (auto simp: note_codec_def split: option.split)
  ultimately show ?case using Cons.prems Cons.IH [of ?n] by simp
qed simp

subsection \<open>Codecs read back\<close>

text \<open>
  The codecs the bridge works with: what \<open>parse_sdp\<close> yields and what the generator may be
  given.
\<close>

definition bridge_codec :: "sdp_codec \<Rightarrow> bool" where
  "bridge_codec c \<longleftrightarrow>
     (cd_pt c = 0 \<or> 96 \<le> cd_pt c) \<and> c = CODEC_PCMU\<lparr>cd_pt := cd_pt c\<rparr>
     \<or> (cd_pt c = 9 \<or> 96 \<le> cd_pt c) \<and> c = CODEC_G722\<lparr>cd_pt := cd_pt c\<rparr>
     \<or> 96 \<le> cd_pt c \<and> 0 < cd_clock_rate c
        \<and> c = CODEC_TELEPHONE_EVENT\<lparr>cd_pt := cd_pt c, cd_clock_rate := cd_clock_rate c\<rparr>
     \<or> 96 \<le> cd_pt c \<and> OpusProfile_encodable (OpusProfile_from_codec c)
        \<and> c = CODEC_OPUS\<lparr>cd_pt := cd_pt c, cd_maxptime := cd_maxptime c, cd_fmtp := cd_fmtp c\<rparr>"

lemma bridge_codec_cases [consumes 1, case_names PCMU G722 TE OPUS]:
  assumes "bridge_codec c"
    and "\<And>pt. pt = 0 \<or> 96 \<le> pt \<Longrightarrow> c = CODEC_PCMU\<lparr>cd_pt := pt\<rparr> \<Longrightarrow> P"
    and "\<And>pt. pt = 9 \<or> 96 \<le> pt \<Longrightarrow> c = CODEC_G722\<lparr>cd_pt := pt\<rparr> \<Longrightarrow> P"
    and "\<And>pt r. 96 \<le> pt \<Longrightarrow> 0 < r \<Longrightarrow> c = CODEC_TELEPHONE_EVENT\<lparr>cd_pt := pt, cd_clock_rate := r\<rparr> \<Longrightarrow> P"
    and "\<And>pt m f. 96 \<le> pt \<Longrightarrow> c = CODEC_OPUS\<lparr>cd_pt := pt, cd_maxptime := m, cd_fmtp := f\<rparr> \<Longrightarrow>
      OpusProfile_encodable (OpusProfile_from_codec c) \<Longrightarrow> P"
  shows P
  using assms unfolding bridge_codec_def by metis

lemmas codec_defs = CODEC_PCMU_def CODEC_G722_def CODEC_TELEPHONE_EVENT_def CODEC_OPUS_def

text \<open>Our descriptions announce packets of at most 20 ms, which reading Opus back shows.\<close>

definition read_back :: "sdp_codec \<Rightarrow> sdp_codec" where
  "read_back c = (if cd_name c = ''opus'' then c\<lparr>cd_maxptime := Some 20\<rparr> else c)"

lemma eq_ignore_case_refl [simp]: "eq_ignore_ascii_case s s"
  by (simp add: eq_ignore_ascii_case_def)

lemma codec_names_differ [simp]:
  "\<not> eq_ignore_ascii_case ''PCMU'' ''telephone-event''" "\<not> eq_ignore_ascii_case ''PCMU'' ''opus''"
  "\<not> eq_ignore_ascii_case ''G722'' ''telephone-event''" "\<not> eq_ignore_ascii_case ''G722'' ''opus''"
  "\<not> eq_ignore_ascii_case ''G722'' ''PCMU''" "\<not> eq_ignore_ascii_case ''opus'' ''telephone-event''"
  by (simp_all add: eq_ignore_ascii_case_def to_ascii_lowercase_def char_lower_def char_of_eq_iff)

lemma encodable_read_back:
  "OpusProfile_encodable (OpusProfile_from_codec c) \<Longrightarrow>
   OpusProfile_encodable (OpusProfile_from_codec (c\<lparr>cd_maxptime := Some 20\<rparr>))"
  by (simp add: OpusProfile_encodable_def OpusProfile_from_codec_def)

lemma map_pt_read_back:
  assumes "bridge_codec c" "noted n [c]" "sn_maxptime n = Some 20"
  shows "\<exists>prof. map_pt n r (cd_pt c) = r\<lparr>ps_codecs := ps_codecs r @ [read_back c], ps_opus_profile := prof\<rparr>"
  using assms(1)
proof (cases rule: bridge_codec_cases)
  case (PCMU pt)
  then show ?thesis using assms(2)
    by (intro exI [of _ "ps_opus_profile r"])
      (auto simp: codec_defs noted_def rtpmap_entry_def map_pt_def static_pt_ok_def narrowband_entry_def
        one_channel_def push_codec_def read_back_def)
next
  case (G722 pt)
  then show ?thesis using assms(2)
    by (intro exI [of _ "ps_opus_profile r"])
      (auto simp: codec_defs noted_def rtpmap_entry_def map_pt_def static_pt_ok_def narrowband_entry_def
        one_channel_def push_codec_def read_back_def)
next
  case (TE pt rate)
  then show ?thesis using assms(2)
    by (intro exI [of _ "ps_opus_profile r"])
      (auto simp: codec_defs noted_def rtpmap_entry_def map_pt_def push_codec_def read_back_def)
next
  case (OPUS pt m f)
  let ?opus = "c\<lparr>cd_maxptime := Some 20\<rparr>"
  have "OpusProfile_encodable (OpusProfile_from_codec ?opus)" using OPUS(3) by (rule encodable_read_back)
  then show ?thesis using assms(2,3) OPUS(1,2)
    by (intro exI [of _ "Some (OpusProfile_from_codec ?opus)"])
      (auto simp: codec_defs noted_def rtpmap_entry_def map_pt_def push_codec_def read_back_def Let_def)
qed

lemma map_pts_read_back:
  assumes "list_all bridge_codec cs" "noted n cs" "sn_maxptime n = Some 20"
  shows "\<exists>prof. foldl (map_pt n) r (map cd_pt cs)
    = r\<lparr>ps_codecs := ps_codecs r @ map read_back cs, ps_opus_profile := prof\<rparr>"
  using assms
proof (induction cs arbitrary: r)
  case Nil
  show ?case by (rule exI [of _ "ps_opus_profile r"]) simp
next
  case (Cons c cs)
  have "noted n [c]" "noted n cs" using Cons.prems(2) by (simp_all add: noted_def)
  with Cons.prems map_pt_read_back [of c n r] obtain prof where
    c: "map_pt n r (cd_pt c) = r\<lparr>ps_codecs := ps_codecs r @ [read_back c], ps_opus_profile := prof\<rparr>"
    by auto
  with Cons.IH [of "map_pt n r (cd_pt c)"] Cons.prems \<open>noted n cs\<close> show ?case by auto
qed

subsection \<open>Generated text read back\<close>

lemma scan_session_lines:
  "foldl scan_line (sdp_scan_new r) (session_lines ip sid) = (sdp_scan_new r)\<lparr>sn_session_c_addr := Some ip\<rparr>"
  by (simp add: session_lines_def scan_line_defs scan_attribute_def webrtc_line_def scan_connection_def
      split_whitespace_word sdp_scan_new_def Let_def)

lemma scan_media_line:
  assumes "is_word proto" "port \<noteq> 0" "length cs \<le> 32"
    and "sn_current_section n = None" "ps_selected_audio_section (sn_result n) = Some 0" "sn_pts n = []"
  shows "scan_line n (''m=audio '' @ show_nat (unat port) @ '' '' @ proto @ '' ''
        @ join '' '' (map (\<lambda>c. show_nat (unat (cd_pt c))) cs))
    = n\<lparr>sn_current_section := Some 0, sn_media_section := Some True, sn_m_port := Some port,
        sn_result := (sn_result n)\<lparr>ps_media_protocol := Some proto\<rparr>, sn_pts := map cd_pt cs\<rparr>"
  using assms media_words [OF assms(1), of "unat port" "\<lambda>c. unat (cd_pt c)" cs]
  by (simp add: scan_line_defs scan_audio_def Let_def nth_opt_def port_of_show collect_pts_show)

lemma scan_crypto_lines:
  assumes "\<forall>c. crypto = Some c \<longrightarrow> plain_key c" "sn_media_section n = Some True"
    and "ps_crypto (sn_result n) = None" "\<not> ps_crypto_present (sn_result n)"
  shows "foldl scan_line n (crypto_lines crypto)
    = n\<lparr>sn_result := (sn_result n)\<lparr>ps_crypto := crypto, ps_crypto_present := (crypto \<noteq> None)\<rparr>\<rparr>"
proof (cases crypto)
  case None
  with assms(3,4) show ?thesis by (simp add: crypto_lines_def)
next
  case (Some c)
  with assms(1) parse_crypto_text [of c] assms(2) show ?thesis
    by (simp add: crypto_lines_Some scan_line_defs scan_attribute_def)
qed

lemma scan_tail_lines:
  assumes "sn_media_section n = Some True"
  shows "foldl scan_line n [''a=sendrecv'', ''a=rtcp-mux'', ''a=ptime:20'', ''a=maxptime:20'']
    = n\<lparr>sn_result := (sn_result n)\<lparr>ps_direction := Some ''sendrecv'', ps_rtcp_mux := True\<rparr>,
        sn_maxptime := Some 20\<rparr>"
proof -
  have "parse_u32 ''20'' = Some 20"
    by (simp add: parse_u32_def parse_uint_def Let_def is_digit_ranges from_digits_def to_digit_def)
  with assms show ?thesis
    by (simp add: scan_line_defs scan_attribute_def webrtc_line_def is_direction_def)
qed

text \<open>What the generator may be asked to write.\<close>

definition describable :: "string \<Rightarrow> sdp_codec list \<Rightarrow> sdp_crypto option \<Rightarrow> bool" where
  "describable proto cs crypto \<longleftrightarrow>
     proto \<in> {''RTP/AVP'', ''RTP/SAVP''} \<and> cs \<noteq> [] \<and> length cs \<le> 32 \<and> distinct (map cd_pt cs)
     \<and> list_all bridge_codec cs \<and> list_all writable cs
     \<and> (case crypto of Some c \<Rightarrow> plain_key c | None \<Rightarrow> True)"

lemma scan_generated:
  assumes "describable proto cs crypto" "port \<noteq> 0"
    and "ps_selected_audio_section r = Some 0" "ps_crypto r = None" "\<not> ps_crypto_present r"
  shows "\<exists>m f. foldl scan_line (sdp_scan_new r) (session_lines ip sid @ media_lines port proto cs crypto)
      = (sdp_scan_new r)\<lparr>sn_session_c_addr := Some ip, sn_current_section := Some 0,
          sn_media_section := Some True, sn_m_port := Some port, sn_pts := map cd_pt cs,
          sn_rtpmap := m, sn_fmtp := f, sn_maxptime := Some 20,
          sn_result := r\<lparr>ps_media_protocol := Some proto, ps_crypto := crypto,
            ps_crypto_present := (crypto \<noteq> None), ps_direction := Some ''sendrecv'', ps_rtcp_mux := True\<rparr>\<rparr>
      \<and> noted ((sdp_scan_new r)\<lparr>sn_rtpmap := m, sn_fmtp := f\<rparr>) cs"
proof -
  have d: "is_word proto" "length cs \<le> 32" "distinct (map cd_pt cs)" "list_all writable cs"
    "\<forall>c. crypto = Some c \<longrightarrow> plain_key c"
    using assms(1) by (auto simp: describable_def is_word_def is_whitespace_def Let_def)
  let ?s = "(sdp_scan_new r)\<lparr>sn_session_c_addr := Some ip\<rparr>"
  let ?n = "?s\<lparr>sn_current_section := Some 0, sn_media_section := Some True, sn_m_port := Some port,
      sn_result := r\<lparr>ps_media_protocol := Some proto\<rparr>, sn_pts := map cd_pt cs\<rparr>"
  let ?m = "''m=audio '' @ show_nat (unat port) @ '' '' @ proto @ '' ''
      @ join '' '' (map (\<lambda>c. show_nat (unat (cd_pt c))) cs)"
  from note_codecs_frame [of ?n cs] obtain m f where
    mf: "foldl note_codec ?n cs = ?n\<lparr>sn_rtpmap := m, sn_fmtp := f\<rparr>" by blast
  have "noted (foldl note_codec ?n cs) cs"
    using note_codecs [of ?n cs] d(3) by (simp add: sdp_scan_new_def hm_wf_def hm_get_def)
  then have noted: "noted ((sdp_scan_new r)\<lparr>sn_rtpmap := m, sn_fmtp := f\<rparr>) cs"
    unfolding mf by (simp add: noted_def)
  have codecs: "foldl scan_line ?n (concat (map rtpmap_lines cs)) = foldl note_codec ?n cs"
    using d(2,4) by (intro scan_codecs) (simp_all add: sdp_scan_new_def hm_wf_def hm_len_def)
  have media: "scan_line ?s ?m = ?n"
    using d(1,2) assms(2,3) by (subst scan_media_line) (simp_all add: sdp_scan_new_def)
  let ?c = "?n\<lparr>sn_rtpmap := m, sn_fmtp := f, sn_result := r\<lparr>ps_media_protocol := Some proto,
      ps_crypto := crypto, ps_crypto_present := (crypto \<noteq> None)\<rparr>\<rparr>"
  have crypto: "foldl scan_line (?n\<lparr>sn_rtpmap := m, sn_fmtp := f\<rparr>) (crypto_lines crypto) = ?c"
    using d(5) assms(4,5) by (subst scan_crypto_lines) simp_all
  have "foldl scan_line (sdp_scan_new r) (session_lines ip sid @ media_lines port proto cs crypto)
    = foldl scan_line (foldl scan_line (foldl scan_line (scan_line ?s ?m) (concat (map rtpmap_lines cs)))
        (crypto_lines crypto)) [''a=sendrecv'', ''a=rtcp-mux'', ''a=ptime:20'', ''a=maxptime:20'']"
    by (simp only: foldl_append scan_session_lines media_lines_def foldl.simps)
  also have "\<dots> = foldl scan_line ?c [''a=sendrecv'', ''a=rtcp-mux'', ''a=ptime:20'', ''a=maxptime:20'']"
    unfolding media codecs mf crypto ..
  also have "\<dots> = ?c\<lparr>sn_result := r\<lparr>ps_media_protocol := Some proto, ps_crypto := crypto,
      ps_crypto_present := (crypto \<noteq> None), ps_direction := Some ''sendrecv'', ps_rtcp_mux := True\<rparr>,
      sn_maxptime := Some 20\<rparr>"
    by (subst scan_tail_lines) simp_all
  finally show ?thesis
    using noted by (intro exI [of _ m] exI [of _ f] conjI) simp_all
qed

definition telephone_event_of :: "sdp_codec list \<Rightarrow> sdp_codec option" where
  "telephone_event_of cs =
     select_telephone_event_codec cs (case select_answer_codec cs of Some c \<Rightarrow> cd_clock_rate c | None \<Rightarrow> 8000)"

lemma set_telephone_event_eq:
  "ps_telephone_event_pt r = None \<Longrightarrow> ps_telephone_event_clock_rate r = None \<Longrightarrow>
   set_telephone_event r = r\<lparr>ps_telephone_event_pt := map_option cd_pt (telephone_event_of (ps_codecs r)),
     ps_telephone_event_clock_rate := map_option cd_clock_rate (telephone_event_of (ps_codecs r))\<rparr>"
  by (simp add: set_telephone_event_def telephone_event_of_def Let_def split: option.split)

definition parsed_media ::
  "crypto_lib \<Rightarrow> ip_addr \<Rightarrow> u16 \<Rightarrow> string \<Rightarrow> sdp_codec list \<Rightarrow> sdp_crypto option \<Rightarrow> opus_profile option \<Rightarrow> parsed_sdp" where
  "parsed_media lib ip port proto cs crypto prof =
     (let te = telephone_event_of (map read_back cs) in
      \<lparr>ps_remote_addr = Some \<lparr>sa_ip = ip, sa_port = port\<rparr>, ps_remote_rtcp_addr = None,
       ps_invalid_rtcp = False, ps_codecs = map read_back cs, ps_opus_profile = prof,
       ps_telephone_event_pt = map_option cd_pt te,
       ps_telephone_event_clock_rate = map_option cd_clock_rate te,
       ps_crypto = crypto, ps_crypto_present = (crypto \<noteq> None), ps_audio_sections = 1,
       ps_media_sections = [audio_section lib proto cs crypto], ps_selected_audio_section = Some 0,
       ps_is_webrtc = False, ps_direction = Some ''sendrecv'', ps_rtcp_mux = True,
       ps_media_protocol = Some proto, ps_is_osrtp = (crypto \<noteq> None \<and> proto = ''RTP/AVP'')\<rparr>)"

lemma noted_cong:
  "sn_rtpmap n = sn_rtpmap n' \<Longrightarrow> sn_fmtp n = sn_fmtp n' \<Longrightarrow> noted n cs = noted n' cs"
  by (simp add: noted_def)

lemma parse_generated_lines:
  assumes d: "describable proto cs crypto" and port: "port \<noteq> 0"
  shows "\<exists>prof. parse_sdp lib (concat (map (\<lambda>l. l @ CRLF) (session_lines ip sid @ media_lines port proto cs crypto)))
    = parsed_media lib ip port proto cs crypto prof"
proof -
  let ?ls = "session_lines ip sid @ media_lines port proto cs crypto"
  have w: "is_word proto" "\<forall>c. crypto = Some c \<longrightarrow> plain_key c"
    using d by (auto simp: describable_def is_word_def is_whitespace_def Let_def)
  have "list_all clean_text ?ls"
    using d w clean_session_lines clean_media_lines by (simp add: describable_def)
  then have lines: "map trim (text_lines (concat (map (\<lambda>l. l @ CRLF) ?ls))) = ?ls" by (rule lines_of_text)
  then have sections: "scan_sections lib (concat (map (\<lambda>l. l @ CRLF) ?ls)) = [audio_section lib proto cs crypto]"
    unfolding scan_sections_def using sections_of_lines [OF w(1) port w(2)] by simp
  obtain p where sel: "select_section [audio_section lib proto cs crypto] 0 (0, None) = (1, Some (0, p))"
    using d by (auto simp: describable_def audio_section_def audio_section_preference_def Let_def)
  let ?r = "parsed_sdp_new\<lparr>ps_media_sections := [audio_section lib proto cs crypto],
      ps_audio_sections := 1, ps_selected_audio_section := Some 0\<rparr>"
  let ?r' = "?r\<lparr>ps_media_protocol := Some proto, ps_crypto := crypto,
      ps_crypto_present := (crypto \<noteq> None), ps_direction := Some ''sendrecv'', ps_rtcp_mux := True\<rparr>"
  from scan_generated [OF d port, of ?r ip sid] obtain m f where
    scan: "foldl scan_line (sdp_scan_new ?r) ?ls
      = (sdp_scan_new ?r)\<lparr>sn_session_c_addr := Some ip, sn_current_section := Some 0,
          sn_media_section := Some True, sn_m_port := Some port, sn_pts := map cd_pt cs,
          sn_rtpmap := m, sn_fmtp := f, sn_maxptime := Some 20, sn_result := ?r'\<rparr>" (is "_ = ?n")
    and noted: "noted ((sdp_scan_new ?r)\<lparr>sn_rtpmap := m, sn_fmtp := f\<rparr>) cs"
    by (auto simp: parsed_sdp_new_def)
  have "noted ?n cs" using noted by (rule iffD1 [OF noted_cong, rotated 2]) simp_all
  with d map_pts_read_back [of cs ?n "set_addresses ?n ?r'"] obtain prof where
    pts: "foldl (map_pt ?n) (set_addresses ?n ?r') (map cd_pt cs) = (set_addresses ?n ?r')
      \<lparr>ps_codecs := ps_codecs (set_addresses ?n ?r') @ map read_back cs, ps_opus_profile := prof\<rparr>"
    by (auto simp: describable_def)
  have addr: "set_addresses ?n ?r' = ?r'\<lparr>ps_remote_addr := Some \<lparr>sa_ip = ip, sa_port = port\<rparr>\<rparr>"
    using port by (simp add: set_addresses_def sdp_scan_new_def Let_def)
  have fields: "sn_result ?n = ?r'" "sn_pts ?n = map cd_pt cs" by simp_all
  show ?thesis
    unfolding parse_sdp_def lines sections sel Let_def prod.case map_option_eq_Some option.map fst_conv scan fields pts
    unfolding addr
    by (rule exI [of _ prof])
      (simp add: parsed_sdp_new_def set_telephone_event_eq parsed_media_def Let_def)
qed

lemma sdp_lines_offer:
  "sdp_lines a port cs crypto sid avp None = session_lines (sa_ip a) sid
     @ media_lines port (if crypto \<noteq> None \<and> \<not> avp then ''RTP/SAVP'' else ''RTP/AVP'') (with_telephone_event cs) crypto"
  by (simp add: sdp_lines_def session_lines_def Let_def)

lemma sdp_lines_answer:
  "sdp_lines a port cs crypto sid avp (Some ([section], 0)) = session_lines (sa_ip a) sid
     @ media_lines port (ms_protocol section) (with_telephone_event cs) crypto"
  by (simp add: sdp_lines_def session_lines_def Let_def)

lemma describable_proto:
  "describable proto cs crypto \<Longrightarrow> proto' \<in> {''RTP/AVP'', ''RTP/SAVP''} \<Longrightarrow> describable proto' cs crypto"
  by (simp add: describable_def)

lemma parse_offer:
  assumes "describable proto (with_telephone_event cs) crypto" "port \<noteq> 0"
  shows "\<exists>prof. parse_sdp lib (generate_sdp a port cs crypto sid avp None)
    = parsed_media lib (sa_ip a) port (if crypto \<noteq> None \<and> \<not> avp then ''RTP/SAVP'' else ''RTP/AVP'')
        (with_telephone_event cs) crypto prof"
  unfolding generate_sdp_def sdp_lines_offer
  by (rule parse_generated_lines [OF describable_proto [OF assms(1)] assms(2)]) simp

lemma parsed_media_valid:
  assumes "proto \<in> {''RTP/AVP'', ''RTP/SAVP''}" "crypto = None \<longrightarrow> proto = ''RTP/AVP''" "cs \<noteq> []"
    and "\<forall>c. crypto = Some c \<longrightarrow> supported_sdes_key lib c"
  shows "validate_selected_plain_media lib (parsed_media lib ip port proto cs crypto prof) = Inr ()"
  using assms by (auto simp: validate_selected_plain_media_def parsed_media_def audio_section_def Let_def
      split: option.split)

lemma ordered_codecs_subset:
  "set ordered \<subseteq> set known \<Longrightarrow> distinct (map cd_pt ordered) \<Longrightarrow>
   set (ordered_codecs known ordered names) \<subseteq> set known \<and> distinct (map cd_pt (ordered_codecs known ordered names))"
proof (induction names arbitrary: ordered)
  case (Cons name names)
  show ?case
  proof (cases "find (\<lambda>c. eq_ignore_ascii_case name (cd_name c)) known")
    case (Some c)
    then have "c \<in> set known" by (auto simp: find_Some_iff)
    moreover have "set (ordered @ [c]) \<subseteq> set known" "distinct (map cd_pt (ordered @ [c]))"
      if "\<not> list_ex (\<lambda>e. cd_pt e = cd_pt c) ordered"
      using that Cons.prems \<open>c \<in> set known\<close> by (auto simp: list_ex_iff)
    ultimately show ?thesis
      using Cons.IH [of "ordered @ [c]"] Cons.IH [of ordered] Cons.prems Some by simp
  qed (use Cons in simp)
qed simp

lemma profile_item_word:
  assumes "is_word item" "split_once (CHR ''='') item = Some (key, val)" "is_word key" "is_word val"
  shows "profile_item p item =
     (let key = to_ascii_lowercase key; num = parse_uint 32 val in
      if key = ''maxaveragebitrate'' then
        (case num of Some v \<Rightarrow> p\<lparr>op_bitrate := of_nat (clamp 6000 510000 v)\<rparr> | None \<Rightarrow> p)
      else if key = ''maxplaybackrate'' then
        (case num of Some v \<Rightarrow> p\<lparr>op_playback_rate := of_nat (clamp 8000 48000 v)\<rparr> | None \<Rightarrow> p)
      else if key = ''minptime'' then
        (case num of Some v \<Rightarrow> p\<lparr>op_min_packet_ms := of_nat v\<rparr> | None \<Rightarrow> p)
      else if key = ''stereo'' then p\<lparr>op_stereo := (val = ''1'')\<rparr>
      else p)"
  using assms by (simp add: profile_item_def clean_trim clean_word Let_def)

lemmas word_eval = is_word_def is_whitespace_def split_once_def to_ascii_lowercase_def char_lower_def
  parse_uint_def is_digit_ranges from_digits_def to_digit_def Let_def

lemma default_profile_items:
  "profile_item p ''minptime=10'' = p\<lparr>op_min_packet_ms := 10\<rparr>"
  "profile_item p ''useinbandfec=1'' = p"
  "profile_item p ''stereo=0'' = p\<lparr>op_stereo := False\<rparr>"
  "profile_item p ''sprop-stereo=0'' = p"
  using profile_item_word [of "''minptime=10''" "''minptime''" "''10''" p]
    profile_item_word [of "''useinbandfec=1''" "''useinbandfec''" "''1''" p]
    profile_item_word [of "''stereo=0''" "''stereo''" "''0''" p]
    profile_item_word [of "''sprop-stereo=0''" "''sprop-stereo''" "''0''" p]
  by (simp_all add: word_eval)

lemma default_fmtp_items:
  "split_char (CHR '';'') ''minptime=10;useinbandfec=1;stereo=0;sprop-stereo=0''
     = [''minptime=10'', ''useinbandfec=1'', ''stereo=0'', ''sprop-stereo=0'']"
  by (simp add: split_char_def Let_def)

lemma opus_encodable: "OpusProfile_encodable (OpusProfile_from_codec CODEC_OPUS)"
  by (simp add: OpusProfile_encodable_def OpusProfile_from_codec_def OpusProfile_parse_def CODEC_OPUS_def
      default_fmtp_items default_profile_items OpusProfile_default_def)

lemma well_known_codecs:
  "bridge_codec CODEC_OPUS" "bridge_codec CODEC_G722" "bridge_codec CODEC_PCMU" "bridge_codec CODEC_TELEPHONE_EVENT"
  "writable CODEC_OPUS" "writable CODEC_G722" "writable CODEC_PCMU" "writable CODEC_TELEPHONE_EVENT"
  using opus_encodable
  by (simp_all add: bridge_codec_def codec_defs writable_def plain_name_def clean_text_def is_word_def
      is_whitespace_def Let_def)

lemma offer_codec_list_ok:
  "list_all bridge_codec (offer_codec_list pref) \<and> list_all writable (offer_codec_list pref)
   \<and> distinct (map cd_pt (offer_codec_list pref)) \<and> length (offer_codec_list pref) \<le> 4
   \<and> with_telephone_event (offer_codec_list pref) = offer_codec_list pref"
proof -
  let ?known = "[CODEC_OPUS, CODEC_G722, CODEC_PCMU]"
  obtain cs where cs: "offer_codec_list pref = cs @ [CODEC_TELEPHONE_EVENT]"
    and sub: "set cs \<subseteq> set ?known" and dist: "distinct (map cd_pt cs)"
  proof (cases pref)
    case None
    then show ?thesis
      by (intro that [of ?known]) (simp_all add: offer_codec_list_def codec_defs)
  next
    case (Some names)
    then show ?thesis
      using ordered_codecs_subset [of "[]" ?known names]
      by (intro that [of "ordered_codecs ?known [] names"]) (auto simp: offer_codec_list_def)
  qed
  have pts: "set (map cd_pt cs) \<subseteq> {111, 9, 0}" using sub by (auto simp: codec_defs)
  from distinct_card [OF dist] card_mono [OF _ pts] have "length cs \<le> 3" by (simp add: card_insert_if)
  moreover have "list_all bridge_codec cs" "list_all writable cs"
    using sub well_known_codecs by (auto simp: list_all_iff)
  moreover have "101 \<notin> cd_pt ` set cs" using pts by auto
  ultimately show ?thesis
    using dist by (simp add: cs well_known_codecs with_telephone_event_def)
      (simp add: codec_defs is_telephone_event_def)
qed

lemma describable_offer:
  "proto \<in> {''RTP/AVP'', ''RTP/SAVP''} \<Longrightarrow> (case crypto of Some c \<Rightarrow> plain_key c | None \<Rightarrow> True) \<Longrightarrow>
   describable proto (offer_codec_list pref) crypto"
  using offer_codec_list_ok [of pref] by (auto simp: describable_def offer_codec_list_def Let_def)

subsection \<open>What the parser yields on any text\<close>

text \<open>The preferred section: the first with the highest preference.\<close>

definition preferred :: "sdp_media_section list \<Rightarrow> (nat \<times> nat) option \<Rightarrow> bool" where
  "preferred ss best \<longleftrightarrow>
     (case best of
        None \<Rightarrow> (\<forall>s \<in> set ss. audio_section_preference s = None)
      | Some (i, b) \<Rightarrow> i < length ss \<and> audio_section_preference (ss ! i) = Some b
          \<and> (\<forall>j < length ss. \<forall>q. audio_section_preference (ss ! j) = Some q \<longrightarrow> q \<le> b \<and> (q = b \<longrightarrow> i \<le> j)))"

lemma preferred_snoc:
  assumes "preferred ss best"
  shows "preferred (ss @ [s])
    (case audio_section_preference s of
       None \<Rightarrow> best
     | Some q \<Rightarrow> (case best of
          Some (_, b) \<Rightarrow> if b < q then Some (length ss, q) else best
        | None \<Rightarrow> Some (length ss, q)))"
proof (cases best)
  case None
  with assms show ?thesis
    by (auto simp: preferred_def nth_append less_Suc_eq split: option.split)
next
  case (Some ib)
  obtain i b where "ib = (i, b)" by fastforce
  with Some assms show ?thesis
    by (fastforce simp: preferred_def nth_append less_Suc_eq split: option.split)
qed

lemma select_section_preferred:
  "preferred pre best \<Longrightarrow> n = length (filter (\<lambda>s. audio_section_preference s \<noteq> None) pre) \<Longrightarrow>
   (case select_section ss (length pre) (n, best) of
      (k, best') \<Rightarrow> preferred (pre @ ss) best'
        \<and> k = length (filter (\<lambda>s. audio_section_preference s \<noteq> None) (pre @ ss)))"
proof (induction ss arbitrary: pre best n)
  case (Cons s ss)
  let ?best = "case audio_section_preference s of
       None \<Rightarrow> best
     | Some q \<Rightarrow> (case best of
          Some (_, b) \<Rightarrow> if b < q then Some (length pre, q) else best
        | None \<Rightarrow> Some (length pre, q))"
  have "preferred (pre @ [s]) ?best" using Cons.prems(1) by (rule preferred_snoc)
  with Cons.IH [of "pre @ [s]" ?best] Cons.prems(2) show ?case
    by (cases "audio_section_preference s") auto
qed simp

text \<open>The second pass leaves the sections and their selection alone.\<close>

definition same_sections :: "parsed_sdp \<Rightarrow> parsed_sdp \<Rightarrow> bool" where
  "same_sections r r' \<longleftrightarrow> ps_media_sections r' = ps_media_sections r
     \<and> ps_audio_sections r' = ps_audio_sections r
     \<and> ps_selected_audio_section r' = ps_selected_audio_section r"

lemma same_sections_refl [simp]: "same_sections r r"
  by (simp add: same_sections_def)

lemma same_sections_trans: "same_sections r r' \<Longrightarrow> same_sections r' r'' \<Longrightarrow> same_sections r r''"
  by (simp add: same_sections_def)

definition scan_keeps :: "sdp_scan \<Rightarrow> sdp_scan \<Rightarrow> bool" where
  "scan_keeps n n' \<longleftrightarrow> same_sections (sn_result n) (sn_result n')
     \<and> ps_codecs (sn_result n') = ps_codecs (sn_result n)
     \<and> (length (sn_pts n) \<le> 32 \<longrightarrow> length (sn_pts n') \<le> 32)"

lemma scan_keeps_refl [simp]: "scan_keeps n n"
  by (simp add: scan_keeps_def)

lemma scan_keeps_trans: "scan_keeps n n' \<Longrightarrow> scan_keeps n' n'' \<Longrightarrow> scan_keeps n n''"
  by (auto simp: scan_keeps_def intro: same_sections_trans)

lemma collect_pts_bound: "length pts \<le> 32 \<Longrightarrow> length (collect_pts pts ss) \<le> 32"
  by (induction ss arbitrary: pts) (auto simp: MAX_SDP_CODECS_def split: option.split)

lemma scan_connection_keeps: "scan_keeps n (scan_connection rest n)"
  by (simp add: scan_connection_def scan_keeps_def Let_def split: option.split bool.split)

lemma scan_audio_keeps: "scan_keeps n (scan_audio rest n)"
  by (simp add: scan_audio_def scan_keeps_def same_sections_def collect_pts_bound Let_def)

lemma scan_fmtp_keeps: "scan_keeps n (scan_fmtp rest n)"
  by (simp add: scan_fmtp_def scan_keeps_def split: option.split prod.split)

lemma scan_rtpmap_keeps: "scan_keeps n (scan_rtpmap rest n)"
  unfolding scan_rtpmap_def Let_def
  by (cases "split_once (CHR '' '') rest") (simp_all add: scan_keeps_def split: prod.split option.split)

lemma scan_rtcp_keeps: "scan_keeps n (scan_rtcp rest n)"
  unfolding scan_rtcp_def Let_def by (simp add: scan_keeps_def same_sections_def)

lemma scan_attribute_keeps: "scan_keeps n (scan_attribute line n)"
proof -
  have upd: "scan_keeps n (n\<lparr>sn_maxptime := m\<rparr>)"
    "scan_keeps n (n\<lparr>sn_result := (sn_result n)\<lparr>ps_crypto_present := a, ps_crypto := c\<rparr>\<rparr>)"
    "scan_keeps n (n\<lparr>sn_result := (sn_result n)\<lparr>ps_is_webrtc := a\<rparr>\<rparr>)"
    "scan_keeps n (n\<lparr>sn_result := (sn_result n)\<lparr>ps_direction := d\<rparr>\<rparr>)"
    "scan_keeps n (n\<lparr>sn_result := (sn_result n)\<lparr>ps_rtcp_mux := a\<rparr>\<rparr>)" for m a c d
    by (simp_all add: scan_keeps_def same_sections_def)
  show ?thesis
    unfolding scan_attribute_def
    by (simp add: upd scan_fmtp_keeps scan_rtpmap_keeps scan_rtcp_keeps split: option.split)
qed

lemma scan_line_keeps: "scan_keeps n (scan_line n line)"
proof -
  have "scan_keeps m (scan_content line m)" for m
  proof -
    have "scan_keeps m (m\<lparr>sn_media_section := s\<rparr>)"
      "scan_keeps m (m\<lparr>sn_result := (sn_result m)\<lparr>ps_is_webrtc := a\<rparr>\<rparr>)" for s a
      by (simp_all add: scan_keeps_def same_sections_def)
    then show ?thesis
      unfolding scan_content_def
      by (simp add: scan_connection_keeps scan_audio_keeps scan_attribute_keeps split: option.split)
  qed
  moreover have "scan_keeps n (enter_section line n)" by (simp add: scan_keeps_def enter_section_def)
  ultimately show ?thesis unfolding scan_line_def by (rule scan_keeps_trans [rotated])
qed

lemma scan_lines_keeps: "scan_keeps n (foldl scan_line n ls)"
  by (induction ls arbitrary: n) (simp, metis foldl_Cons scan_keeps_trans scan_line_keeps)

lemma map_pt_keeps: "same_sections r (map_pt n r pt)"
  by (simp add: map_pt_def push_codec_def same_sections_def Let_def split: option.split prod.split)

lemma map_pt_codecs:
  "\<exists>cs. ps_codecs (map_pt n r pt) = ps_codecs r @ cs \<and> length cs \<le> 1 \<and> list_all bridge_codec cs"
proof -
  have known: "bridge_codec CODEC_PCMU" "bridge_codec CODEC_G722" by (rule well_known_codecs)+
  have dyn: "bridge_codec (CODEC_PCMU\<lparr>cd_pt := pt\<rparr>)" "bridge_codec (CODEC_G722\<lparr>cd_pt := pt\<rparr>)"
    "bridge_codec (CODEC_TELEPHONE_EVENT\<lparr>cd_pt := pt\<rparr>)"
    "0 < rate \<Longrightarrow> bridge_codec (CODEC_TELEPHONE_EVENT\<lparr>cd_pt := pt, cd_clock_rate := rate\<rparr>)"
    "OpusProfile_encodable (OpusProfile_from_codec (CODEC_OPUS\<lparr>cd_pt := pt, cd_maxptime := m, cd_fmtp := f\<rparr>))
       \<Longrightarrow> bridge_codec (CODEC_OPUS\<lparr>cd_pt := pt, cd_maxptime := m, cd_fmtp := f\<rparr>)"
    if "96 \<le> pt" for rate m f
    using that by (simp_all add: bridge_codec_def codec_defs)
  show ?thesis
    unfolding map_pt_def push_codec_def Let_def
    using known dyn
    by (auto split: option.split prod.split)
qed

lemma map_pts_keeps: "same_sections r (foldl (map_pt n) r pts)"
  by (induction pts arbitrary: r) (simp, metis foldl_Cons same_sections_trans map_pt_keeps)

lemma map_pts_codecs:
  "list_all bridge_codec (ps_codecs r) \<Longrightarrow> list_all bridge_codec (ps_codecs (foldl (map_pt n) r pts))
     \<and> length (ps_codecs (foldl (map_pt n) r pts)) \<le> length (ps_codecs r) + length pts"
proof (induction pts arbitrary: r)
  case (Cons pt pts)
  from map_pt_codecs [of n r pt] obtain cs where
    "ps_codecs (map_pt n r pt) = ps_codecs r @ cs" "length cs \<le> 1" "list_all bridge_codec cs" by blast
  with Cons.IH [of "map_pt n r pt"] Cons.prems show ?case by simp
qed simp

lemma set_addresses_keeps: "same_sections r (set_addresses n r)" "ps_codecs (set_addresses n r) = ps_codecs r"
  by (simp_all add: set_addresses_def same_sections_def Let_def split: option.split prod.split)

lemma set_telephone_event_keeps:
  "same_sections r (set_telephone_event r)" "ps_codecs (set_telephone_event r) = ps_codecs r"
  by (simp_all add: set_telephone_event_def same_sections_def Let_def split: option.split)

text \<open>\<open>parse_sdp\<close> up to the last flag, as one fold after the other.\<close>

lemma parse_sdp_frame:
  obtains n r audio_sections best where
    "select_section (scan_sections lib sdp) 0 (0, None) = (audio_sections, best)"
    "scan_keeps (sdp_scan_new (parsed_sdp_new\<lparr>ps_media_sections := scan_sections lib sdp,
       ps_audio_sections := audio_sections, ps_selected_audio_section := map_option fst best\<rparr>)) n"
    "r = foldl (map_pt n) (set_addresses n (sn_result n)) (sn_pts n)"
    "same_sections r (parse_sdp lib sdp)" "ps_codecs (parse_sdp lib sdp) = ps_codecs r"
proof -
  obtain audio_sections best where sel: "select_section (scan_sections lib sdp) 0 (0, None) = (audio_sections, best)"
    by fastforce
  let ?n = "foldl scan_line (sdp_scan_new (parsed_sdp_new\<lparr>ps_media_sections := scan_sections lib sdp,
       ps_audio_sections := audio_sections, ps_selected_audio_section := map_option fst best\<rparr>))
       (map trim (text_lines sdp))"
  let ?r = "foldl (map_pt ?n) (set_addresses ?n (sn_result ?n)) (sn_pts ?n)"
  let ?t = "set_telephone_event ?r"
  have "parse_sdp lib sdp = ?t \<or> parse_sdp lib sdp = ?t\<lparr>ps_is_osrtp := True\<rparr>"
    unfolding parse_sdp_def Let_def sel prod.case by simp
  then have "same_sections ?r (parse_sdp lib sdp) \<and> ps_codecs (parse_sdp lib sdp) = ps_codecs ?r"
    using set_telephone_event_keeps [of ?r] by (auto simp: same_sections_def)
  then show ?thesis using that [OF sel scan_lines_keeps refl] by blast
qed

lemma parse_sdp_sections:
  "\<exists>best. preferred (ps_media_sections (parse_sdp lib sdp)) best
     \<and> ps_selected_audio_section (parse_sdp lib sdp) = map_option fst best
     \<and> ps_audio_sections (parse_sdp lib sdp)
         = length (filter (\<lambda>s. audio_section_preference s \<noteq> None) (ps_media_sections (parse_sdp lib sdp)))"
proof -
  obtain n r audio_sections best where p:
    "select_section (scan_sections lib sdp) 0 (0, None) = (audio_sections, best)"
    "scan_keeps (sdp_scan_new (parsed_sdp_new\<lparr>ps_media_sections := scan_sections lib sdp,
       ps_audio_sections := audio_sections, ps_selected_audio_section := map_option fst best\<rparr>)) n"
    "r = foldl (map_pt n) (set_addresses n (sn_result n)) (sn_pts n)"
    "same_sections r (parse_sdp lib sdp)"
    by (rule parse_sdp_frame [of lib sdp]) blast
  have "same_sections (sn_result n) (parse_sdp lib sdp)"
    using p(3,4) set_addresses_keeps(1) map_pts_keeps same_sections_trans by metis
  with p(2) have "ps_media_sections (parse_sdp lib sdp) = scan_sections lib sdp"
    "ps_audio_sections (parse_sdp lib sdp) = audio_sections"
    "ps_selected_audio_section (parse_sdp lib sdp) = map_option fst best"
    by (simp_all add: same_sections_def scan_keeps_def sdp_scan_new_def)
  moreover have "preferred [] None" by (simp add: preferred_def)
  note select_section_preferred [OF this refl, of "scan_sections lib sdp"]
  ultimately show ?thesis using p(1) by (intro exI [of _ best]) auto
qed

lemma parse_sdp_codecs:
  "list_all bridge_codec (ps_codecs (parse_sdp lib sdp))" "length (ps_codecs (parse_sdp lib sdp)) \<le> 32"
proof -
  obtain n r audio_sections best where p:
    "select_section (scan_sections lib sdp) 0 (0, None) = (audio_sections, best)"
    "scan_keeps (sdp_scan_new (parsed_sdp_new\<lparr>ps_media_sections := scan_sections lib sdp,
       ps_audio_sections := audio_sections, ps_selected_audio_section := map_option fst best\<rparr>)) n"
    "r = foldl (map_pt n) (set_addresses n (sn_result n)) (sn_pts n)"
    "same_sections r (parse_sdp lib sdp)" "ps_codecs (parse_sdp lib sdp) = ps_codecs r"
    by (rule parse_sdp_frame [of lib sdp]) blast
  from p(2) have "ps_codecs (sn_result n) = []" "length (sn_pts n) \<le> 32"
    by (simp_all add: scan_keeps_def sdp_scan_new_def parsed_sdp_new_def)
  with map_pts_codecs [of "set_addresses n (sn_result n)" n "sn_pts n"] p(3,5)
  show "list_all bridge_codec (ps_codecs (parse_sdp lib sdp))" "length (ps_codecs (parse_sdp lib sdp)) \<le> 32"
    by (simp_all add: set_addresses_keeps)
qed

lemma codec_names:
  "AudioCodec_from_name ''PCMU'' = Some Pcmu" "AudioCodec_from_name ''G722'' = Some G722"
  "AudioCodec_from_name ''opus'' = Some Opus"
  by code_simp+

lemma bridge_codec_playable:
  "bridge_codec c \<Longrightarrow> \<not> is_telephone_event c \<Longrightarrow> AudioCodec_from_name (cd_name c) \<in> {Some Pcmu, Some G722, Some Opus}"
  by (erule bridge_codec_cases) (simp_all add: codec_defs is_telephone_event_def codec_names)

lemma foldl_best:
  "foldl (\<lambda>best c. if f best < f c then c else best) b cs \<in> insert b (set cs)" for f :: "'a \<Rightarrow> nat"
proof (induction cs arbitrary: b)
  case (Cons c cs)
  show ?case using Cons.IH [of "if f b < f c then c else b"] by (auto split: if_splits)
qed simp

lemma select_answer_codec_mem:
  assumes "select_answer_codec cs = Some c"
  shows "c \<in> set cs \<and> \<not> is_telephone_event c"
proof -
  let ?ds = "filter (\<lambda>c. \<not> is_telephone_event c) cs"
  have "c \<in> set ?ds"
  proof (cases ?ds)
    case Nil
    with assms show ?thesis by (simp add: select_answer_codec_def)
  next
    case (Cons d ds)
    with assms foldl_best [of codec_quality d ds] show ?thesis
      unfolding select_answer_codec_def Cons by simp
  qed
  then show ?thesis by simp
qed

section \<open>Properties\<close>

text \<open>C9. What the generator writes, the parser reads: the description of any list of codecs the
  bridge can describe, with or without a key, at any address, IPv4 or IPv6, is accepted by the
  checks and read back with the address, the codecs in their order (Opus with the announced
  packet length), the key, the transport profile and the direction it was made from.\<close>

theorem sdp_read_back:
  assumes "describable ''RTP/AVP'' (with_telephone_event cs) crypto" "port \<noteq> 0"
    and "\<forall>c. crypto = Some c \<longrightarrow> supported_sdes_key lib c"
  shows "let p = parse_sdp lib (generate_sdp a port cs crypto sid avp None) in
    validate_plain_transport lib p = Inr () \<and> validate_plain_offer lib p = Inr ()
    \<and> ps_remote_addr p = Some \<lparr>sa_ip = sa_ip a, sa_port = port\<rparr>
    \<and> ps_codecs p = map read_back (with_telephone_event cs)
    \<and> ps_crypto p = crypto \<and> ps_is_osrtp p = (crypto \<noteq> None \<and> avp)
    \<and> ps_direction p = Some ''sendrecv'' \<and> ps_rtcp_mux p"
proof -
  let ?proto = "if crypto \<noteq> None \<and> \<not> avp then ''RTP/SAVP'' else ''RTP/AVP''"
  from parse_offer [OF assms(1,2)] obtain prof where
    p: "parse_sdp lib (generate_sdp a port cs crypto sid avp None)
      = parsed_media lib (sa_ip a) port ?proto (with_telephone_event cs) crypto prof" by blast
  have "validate_selected_plain_media lib (parsed_media lib (sa_ip a) port ?proto (with_telephone_event cs) crypto prof)
      = Inr ()"
    using assms by (intro parsed_media_valid) (auto simp: describable_def)
  then show ?thesis
    unfolding p Let_def
    by (simp add: validate_plain_transport_def validate_plain_offer_def) (auto simp: parsed_media_def Let_def)
qed

text \<open>A key as the endpoints generate it, in the demonstration library.\<close>

definition demo_sdes :: sdp_crypto where
  "demo_sdes = \<lparr>cy_tag = 1, cy_suite = SDES_SUITE, cy_key_b64 = replicate 40 CHR ''a'',
     cy_key_lifetime_packets = None\<rparr>"

lemma demo_sdes_ok: "plain_key demo_sdes" "supported_sdes_key demo_crypto demo_sdes"
  by (simp_all add: demo_sdes_def plain_key_def is_word_def is_whitespace_def list_all_iff supported_sdes_key_def
      crypto_lifetime_def SrtpContext_from_sdes_key_with_lifetime_def demo_crypto_def srtp_consts Let_def)

theorem sdp_read_back_witness:
  "ps_remote_addr (parse_sdp demo_crypto
     (generate_sdp \<lparr>sa_ip = V6 0x20010DB8000000000000000000000001, sa_port = 4000\<rparr> 4000
        (offer_codec_list (Some [''g722'', ''OPUS''])) (Some demo_sdes) 7 True None))
   = Some \<lparr>sa_ip = V6 0x20010DB8000000000000000000000001, sa_port = 4000\<rparr>"
proof -
  have "describable ''RTP/AVP'' (with_telephone_event (offer_codec_list (Some [''g722'', ''OPUS'']))) (Some demo_sdes)"
    using offer_codec_list_ok [of "Some [''g722'', ''OPUS'']"] demo_sdes_ok(1)
      describable_offer [of "''RTP/AVP''" "Some demo_sdes"] by simp
  from sdp_read_back [OF this, of 4000 demo_crypto
      "\<lparr>sa_ip = V6 0x20010DB8000000000000000000000001, sa_port = 4000\<rparr>" 7 True] demo_sdes_ok(2)
  show ?thesis by (simp add: Let_def)
qed

text \<open>C36. Whatever the text, the parser yields at most 32 codecs, every one of them one of the
  bridge's own with consistent payload type, name, clock and parameters, and the codec chosen
  for an answer is one of the offered ones and one the bridge can encode and decode.\<close>

theorem parsed_codecs_typed:
  "list_all bridge_codec (ps_codecs (parse_sdp lib sdp)) \<and> length (ps_codecs (parse_sdp lib sdp)) \<le> 32
   \<and> (case select_answer_codec (ps_codecs (parse_sdp lib sdp)) of
        None \<Rightarrow> True
      | Some c \<Rightarrow> c \<in> set (ps_codecs (parse_sdp lib sdp))
          \<and> AudioCodec_from_name (cd_name c) \<in> {Some Pcmu, Some G722, Some Opus})"
proof (cases "select_answer_codec (ps_codecs (parse_sdp lib sdp))")
  case None
  then show ?thesis by (simp add: parse_sdp_codecs)
next
  case (Some c)
  then have c: "c \<in> set (ps_codecs (parse_sdp lib sdp))" "\<not> is_telephone_event c"
    using select_answer_codec_mem by blast+
  then have "bridge_codec c" using parse_sdp_codecs(1) [of lib sdp] by (simp add: list_all_iff)
  with bridge_codec_playable [OF this c(2)] c(1) Some show ?thesis by (simp add: parse_sdp_codecs)
qed



end
