(* ===== verification/Rtp_Endpoint.thy ===== *)
theory Rtp_Endpoint
  imports Sdp Srtcp Rtcp_Packets Stats Routing
begin

text \<open>
  The media plane of a plain RTP or SRTP endpoint: \<open>src/src/session/endpoint_rtp.rs\<close>.

  \<open>rtp_endpoint\<close> is the struct without its sockets, tasks and cancellation token. A clock read,
  a random value and the outcome of a socket call are arguments of the operation that makes it;
  one argument \<open>now\<close> stands for the clock reads of one call. A network of \<open>source_networks\<close> is the
  test \<open>IpNet::contains\<close> of it. What an operation puts on the wire is part of its result.
\<close>

unbundle bit_operations_syntax

section \<open>Definitions\<close>

datatype endpoint_state = New | Buffering | Connecting | Connected | Playing | Paused | Disconnected | Finished_State

datatype endpoint_direction_update =
  Auto | To_SendRecv | To_RecvOnly | To_SendOnly | To_Inactive

fun EndpointDirectionUpdate_as_direction :: "endpoint_direction_update \<Rightarrow> endpoint_direction option" where
  "EndpointDirectionUpdate_as_direction Auto = None"
| "EndpointDirectionUpdate_as_direction To_SendRecv = Some SendRecv"
| "EndpointDirectionUpdate_as_direction To_RecvOnly = Some RecvOnly"
| "EndpointDirectionUpdate_as_direction To_SendOnly = Some SendOnly"
| "EndpointDirectionUpdate_as_direction To_Inactive = Some Inactive"

datatype rtp_media_security = PlainRtp | OptionalSrtp | Srtp

datatype endpoint_error = NoRemoteAddress | SendFailed | SrtpError srtp_error | SdpError sdp_error
  | CodecNotOffered | SecurityMismatch | FamilyMismatch | NoAnswerAddress | UnofferedPayloadType
  | NoSupportedCodec | NoOfferedCodec | NoReceiveContext | LifetimeExpanded | SecurityRemoved
  | SrtpInactive

record rtp_endpoint =
  ep_id :: endpoint_id
  ep_direction :: endpoint_direction
  ep_state :: endpoint_state
  ep_stats :: endpoint_stats
  ep_raw_recv :: raw_recv_counters
  ep_local_rtp_addr :: socket_addr
  ep_remote_rtp_addr :: "socket_addr option"
  ep_remote_rtcp_addr :: "socket_addr option"
  ep_source_networks :: "(ip_addr \<Rightarrow> bool) list"
  ep_rtcp_addr_locked :: bool
  ep_our_ssrc :: u32
  ep_remote_ssrc :: "u32 option"
  ep_codecs :: "sdp_codec list"
  ep_send_codec :: "sdp_codec option"
  ep_recv_clock_rate :: u32
  ep_telephone_event_pt :: "u8 option"
  ep_telephone_event_clock_rate :: u32
  ep_rtcp_stats :: rtcp_stats
  ep_last_rtcp_sent :: instant
  ep_seq_no :: u16
  ep_last_rtp_timestamp :: u32
  ep_last_outbound_ts :: "u32 option"
  ep_last_source_id :: "endpoint_id option"
  ep_last_source_ts :: "u32 option"
  ep_learned_step :: "u32 option"
  ep_dtmf_wire_ts :: "u32 option"
  ep_srtp_tx :: "srtp_context option"
  ep_srtp_rx :: "srtp_context option"
  ep_srtp_rx_new :: "srtp_context option"
  ep_rekey_switchover :: "instant option"
  ep_srtp_rx_key_b64 :: "string option"
  ep_srtp_tx_key_b64 :: "string option"
  ep_srtp_optional :: bool
  ep_srtcp_tx :: "srtcp_context option"
  ep_srtcp_rx :: "srtcp_context option"
  ep_srtcp_rx_new :: "srtcp_context option"
  ep_rtcp_mux :: bool
  ep_addr_locked :: bool
  ep_rtp_latch_reset_at :: instant
  ep_rtcp_latch_reset_at :: instant
  ep_direction_auto :: bool
  ep_offer_codec_constrained :: bool
  ep_opus_receive_profile :: opus_profile
  ep_last_remote_direction :: "endpoint_direction option"

text \<open>\<open>default_rtp_source_networks\<close> of \<open>src/src/config.rs\<close>: every IPv4 and every IPv6 address.\<close>

definition default_rtp_source_networks :: "(ip_addr \<Rightarrow> bool) list" where
  "default_rtp_source_networks = [\<lambda>ip. \<not> is_ipv6 ip, is_ipv6]"

definition RtpEndpoint_new ::
  "instant \<Rightarrow> u32 \<Rightarrow> u16 \<Rightarrow> endpoint_id \<Rightarrow> endpoint_direction \<Rightarrow> socket_addr \<Rightarrow> rtp_endpoint" where
  "RtpEndpoint_new now random_ssrc random_seq eid direction rtp_addr =
     \<lparr>ep_id = eid, ep_direction = direction, ep_state = New, ep_stats = EndpointStats_new now,
      ep_raw_recv = RawRecvCounters_default, ep_local_rtp_addr = rtp_addr,
      ep_remote_rtp_addr = None, ep_remote_rtcp_addr = None,
      ep_source_networks = default_rtp_source_networks, ep_rtcp_addr_locked = False,
      ep_our_ssrc = random_ssrc, ep_remote_ssrc = None, ep_codecs = [], ep_send_codec = None,
      ep_recv_clock_rate = 8000, ep_telephone_event_pt = None, ep_telephone_event_clock_rate = 8000,
      ep_rtcp_stats = RtcpStats_new, ep_last_rtcp_sent = now, ep_seq_no = random_seq,
      ep_last_rtp_timestamp = 0, ep_last_outbound_ts = None, ep_last_source_id = None,
      ep_last_source_ts = None, ep_learned_step = None, ep_dtmf_wire_ts = None,
      ep_srtp_tx = None, ep_srtp_rx = None, ep_srtp_rx_new = None, ep_rekey_switchover = None,
      ep_srtp_rx_key_b64 = None, ep_srtp_tx_key_b64 = None, ep_srtp_optional = False,
      ep_srtcp_tx = None, ep_srtcp_rx = None, ep_srtcp_rx_new = None, ep_rtcp_mux = False,
      ep_addr_locked = False, ep_rtp_latch_reset_at = now, ep_rtcp_latch_reset_at = now,
      ep_direction_auto = (direction = SendRecv), ep_offer_codec_constrained = False,
      ep_opus_receive_profile = OpusProfile_advertised_default, ep_last_remote_direction = None\<rparr>"

definition RtpEndpoint_set_direction_override :: "rtp_endpoint \<Rightarrow> endpoint_direction_update \<Rightarrow> rtp_endpoint" where
  "RtpEndpoint_set_direction_override e update =
     (case EndpointDirectionUpdate_as_direction update of
        Some dir \<Rightarrow> e\<lparr>ep_direction := dir, ep_direction_auto := False\<rparr>
      | None \<Rightarrow> e\<lparr>ep_direction_auto := True,
                  ep_direction := (case ep_last_remote_direction e of Some dir \<Rightarrow> dir | None \<Rightarrow> SendRecv)\<rparr>)"

definition RtpEndpoint_bump_outbound_ssrc :: "u32 \<Rightarrow> u16 \<Rightarrow> u32 \<Rightarrow> rtp_endpoint \<Rightarrow> rtp_endpoint" where
  "RtpEndpoint_bump_outbound_ssrc random_ssrc random_seq random_ts e =
     e\<lparr>ep_our_ssrc := random_ssrc, ep_seq_no := random_seq, ep_last_outbound_ts := None,
       ep_last_source_id := None, ep_last_source_ts := None, ep_dtmf_wire_ts := None,
       ep_last_rtp_timestamp := random_ts,
       ep_rtcp_stats := RtcpStats_reset_remote_receiver_report (ep_rtcp_stats e)\<rparr>"

subsection \<open>Reception from the sockets\<close>

text \<open>One datagram in a receive task: what it hands to the session, when the channel has room.\<close>

record inbound_packet =
  ip_endpoint_id :: endpoint_id
  ip_source :: socket_addr
  ip_data :: bytes
  ip_recv_at :: instant
  ip_is_rtcp :: bool
  ip_local :: "socket_addr option"

datatype try_send = Sent | Full | Closed

definition recv_task_datagram ::
  "endpoint_id \<Rightarrow> bool \<Rightarrow> instant \<Rightarrow> nat \<Rightarrow> (inbound_packet \<Rightarrow> try_send) \<Rightarrow> bytes \<Rightarrow> socket_addr
     \<Rightarrow> instant option \<times> raw_recv_counters \<Rightarrow> inbound_packet option \<times> bool \<times> instant option \<times> raw_recv_counters" where
  "recv_task_datagram endpoint_id is_rtcp recv_at capacity try_send data source st =
     (let (last_recv_at, raw) = st;
          recv_gap = map_option (saturating_duration_since recv_at) last_recv_at;
          raw = RawRecvCounters_record raw (length data);
          raw = RawRecvCounters_record_recv_diagnostics raw recv_gap capacity;
          packet = \<lparr>ip_endpoint_id = endpoint_id, ip_source = source, ip_data = data,
            ip_recv_at = recv_at, ip_is_rtcp = is_rtcp, ip_local = None\<rparr>;
          raw = RawRecvCounters_record_enqueue_wait raw 0
      in case try_send packet of
           Sent \<Rightarrow> (Some packet, True, Some recv_at, raw)
         | Full \<Rightarrow> (None, True, Some recv_at, RawRecvCounters_record_channel_overflow raw)
         | Closed \<Rightarrow> (None, False, Some recv_at, raw))"

definition RtpEndpoint_is_rtcp_mux_packet :: "bytes \<Rightarrow> bool" where
  "RtpEndpoint_is_rtcp_mux_packet data \<longleftrightarrow> 2 \<le> length data \<and> 200 \<le> data ! 1 \<and> data ! 1 \<le> 204"

subsection \<open>The rekey transition\<close>

definition RtpEndpoint_has_srtp :: "rtp_endpoint \<Rightarrow> bool" where
  "RtpEndpoint_has_srtp e \<longleftrightarrow> ep_srtp_rx e \<noteq> None \<or> ep_srtp_rx_new e \<noteq> None"

definition RtpEndpoint_check_rekey_switchover :: "instant \<Rightarrow> rtp_endpoint \<Rightarrow> rtp_endpoint" where
  "RtpEndpoint_check_rekey_switchover now e =
     (case ep_rekey_switchover e of
        None \<Rightarrow> e
      | Some deadline \<Rightarrow>
          if deadline \<le> now then
            let e = (if ep_srtp_rx_new e \<noteq> None
                     then e\<lparr>ep_srtp_rx := ep_srtp_rx_new e, ep_srtp_rx_new := None\<rparr> else e);
                e = (if ep_srtcp_rx_new e \<noteq> None
                     then e\<lparr>ep_srtcp_rx := ep_srtcp_rx_new e, ep_srtcp_rx_new := None\<rparr> else e)
            in e\<lparr>ep_rekey_switchover := None\<rparr>
          else e)"

text \<open>Decryption with the pending context first, promoting it when it succeeds, and with the
  current one otherwise. The result carries the pending and the current context.\<close>

definition unprotect_dual ::
  "('c \<Rightarrow> bytes \<Rightarrow> (srtp_error + bytes) \<times> 'c) \<Rightarrow> 'c option \<Rightarrow> 'c option \<Rightarrow> bytes
     \<Rightarrow> bytes option \<times> 'c option \<times> 'c option" where
  "unprotect_dual unprotect rx_new rx data =
     (case rx_new of
        Some new_ctx \<Rightarrow>
          (case unprotect new_ctx data of
             (Inr d, new_ctx) \<Rightarrow> (Some d, None, Some new_ctx)
           | (Inl _, new_ctx) \<Rightarrow>
               (case rx of
                  Some old_ctx \<Rightarrow>
                    (case unprotect old_ctx data of
                       (Inr d, old_ctx) \<Rightarrow> (Some d, Some new_ctx, Some old_ctx)
                     | (Inl _, old_ctx) \<Rightarrow> (None, Some new_ctx, Some old_ctx))
                | None \<Rightarrow> (None, Some new_ctx, None)))
      | None \<Rightarrow>
          (case rx of
             Some ctx \<Rightarrow>
               (case unprotect ctx data of
                  (Inr d, ctx) \<Rightarrow> (Some d, None, Some ctx)
                | (Inl _, ctx) \<Rightarrow> (None, None, Some ctx))
           | None \<Rightarrow> (Some data, None, None)))"

definition unprotect_rtp :: "crypto_lib \<Rightarrow> bytes \<Rightarrow> rtp_endpoint \<Rightarrow> bytes option \<times> rtp_endpoint" where
  "unprotect_rtp lib data e =
     (let (d, rx_new, rx) = unprotect_dual (SrtpContext_unprotect lib) (ep_srtp_rx_new e) (ep_srtp_rx e) data
      in (d, e\<lparr>ep_srtp_rx_new := rx_new, ep_srtp_rx := rx\<rparr>))"

definition unprotect_rtcp :: "crypto_lib \<Rightarrow> bytes \<Rightarrow> rtp_endpoint \<Rightarrow> bytes option \<times> rtp_endpoint" where
  "unprotect_rtcp lib data e =
     (let (d, rx_new, rx) = unprotect_dual (SrtcpContext_unprotect_rtcp lib) (ep_srtcp_rx_new e) (ep_srtcp_rx e) data
      in (d, e\<lparr>ep_srtcp_rx_new := rx_new, ep_srtcp_rx := rx\<rparr>))"

subsection \<open>Inbound media\<close>

definition RtpEndpoint_reset_addr_lock :: "instant \<Rightarrow> rtp_endpoint \<Rightarrow> rtp_endpoint" where
  "RtpEndpoint_reset_addr_lock reset_at e =
     e\<lparr>ep_addr_locked := False, ep_rtcp_addr_locked := False,
       ep_rtp_latch_reset_at := reset_at, ep_rtcp_latch_reset_at := reset_at\<rparr>"

definition RtpEndpoint_latch_remote_addr :: "rtp_endpoint \<Rightarrow> socket_addr \<Rightarrow> rtp_endpoint" where
  "RtpEndpoint_latch_remote_addr e source =
     (let e = e\<lparr>ep_remote_rtp_addr := Some source\<rparr>
      in if ep_rtcp_mux e then e\<lparr>ep_remote_rtcp_addr := Some source\<rparr> else e)"

definition RtpEndpoint_source_allowed :: "rtp_endpoint \<Rightarrow> socket_addr \<Rightarrow> instant \<Rightarrow> bool \<Rightarrow> bool" where
  "RtpEndpoint_source_allowed e source received_at rtcp =
     (if is_ipv6 (sa_ip source) \<noteq> is_ipv6 (sa_ip (ep_local_rtp_addr e)) then False
      else case (if rtcp then ep_remote_rtcp_addr e else ep_remote_rtp_addr e) of
        None \<Rightarrow> False
      | Some expected \<Rightarrow>
          let locked = (if rtcp \<and> \<not> ep_rtcp_mux e then ep_rtcp_addr_locked e else ep_addr_locked e) in
          if locked then source = expected
          else
            let latch_reset_at =
              (if rtcp \<and> \<not> ep_rtcp_mux e then ep_rtcp_latch_reset_at e else ep_rtp_latch_reset_at e) in
            if received_at < latch_reset_at then False
            else
              let ip = to_canonical (sa_ip source) in
              ip = to_canonical (sa_ip expected) \<or> list_ex (\<lambda>network. network ip) (ep_source_networks e))"

definition known_payload_type :: "rtp_endpoint \<Rightarrow> u8 \<Rightarrow> bool" where
  "known_payload_type e pt \<longleftrightarrow>
     list_ex (\<lambda>codec. cd_pt codec = pt) (ep_codecs e)
     \<or> (case ep_send_codec e of Some codec \<Rightarrow> cd_pt codec = pt | None \<Rightarrow> False)
     \<or> ep_telephone_event_pt e = Some pt"

text \<open>The payload of a packet, unless its padding is wrong. The slice that would panic in
  \<open>RtpHeader_payload\<close> is within range for a parsed header (\<open>checked_payload_parsed\<close> below).\<close>

definition checked_payload :: "rtp_header \<Rightarrow> bytes \<Rightarrow> bytes option" where
  "checked_payload header data =
     (if rh_padding header \<and>
         (data = [] \<or> unat (List.last data) = 0 \<or> length data - rh_header_len header < unat (List.last data))
      then None
      else RtpHeader_payload header data)"

definition record_source_rejection :: "rtp_endpoint \<Rightarrow> rtp_endpoint" where
  "record_source_rejection e =
     e\<lparr>ep_raw_recv := RawRecvCounters_record_source_rejection (ep_raw_recv e)\<rparr>"

text \<open>What a validated packet changes: the learned SSRC, the latch and the counters.\<close>

definition accept_media :: "instant \<Rightarrow> rtp_header \<Rightarrow> bytes \<Rightarrow> socket_addr \<Rightarrow> rtp_endpoint \<Rightarrow> rtp_endpoint" where
  "accept_media now header payload source e =
     (let e = (if ep_remote_ssrc e = None then e\<lparr>ep_remote_ssrc := Some (rh_ssrc header)\<rparr>
               else if ep_remote_ssrc e \<noteq> Some (rh_ssrc header)
               then e\<lparr>ep_remote_ssrc := Some (rh_ssrc header)\<rparr>
               else e);
          e = (if \<not> ep_addr_locked e
               then (RtpEndpoint_latch_remote_addr e source)\<lparr>ep_addr_locked := True\<rparr> else e)
      in e\<lparr>ep_stats := EndpointStats_record_inbound (ep_stats e) (length payload) now,
           ep_rtcp_stats := RtcpStats_record_received now (ep_rtcp_stats e) (rh_ssrc header)
             (rh_sequence_number header) (rh_timestamp header) (length payload) (ep_recv_clock_rate e)\<rparr>)"

definition RtpEndpoint_handle_rtp_at ::
  "crypto_lib \<Rightarrow> instant \<Rightarrow> rtp_endpoint \<Rightarrow> bytes \<Rightarrow> socket_addr \<Rightarrow> instant \<Rightarrow> routed_rtp_packet option \<times> rtp_endpoint" where
  "RtpEndpoint_handle_rtp_at lib now e data source received_at =
     (let e = RtpEndpoint_check_rekey_switchover now e in
      if \<not> RtpEndpoint_source_allowed e source received_at False then (None, record_source_rejection e)
      else case RtpHeader_parse data of
        None \<Rightarrow> (None, e)
      | Some wire_header \<Rightarrow>
          if \<not> known_payload_type e (rh_payload_type wire_header) then (None, e)
          else case unprotect_rtp lib data e of
            (None, e) \<Rightarrow> (None, e)
          | (Some data, e) \<Rightarrow>
              (case RtpHeader_parse data of
                 None \<Rightarrow> (None, e)
               | Some header \<Rightarrow>
                   (case checked_payload header data of
                      None \<Rightarrow> (None, e)
                    | Some payload \<Rightarrow>
                        (Some \<lparr>pk_source_endpoint_id = ep_id e, pk_payload_type = rh_payload_type header,
                               pk_sequence_number = rh_sequence_number header,
                               pk_timestamp = rh_timestamp header, pk_ssrc = rh_ssrc header,
                               pk_marker = rh_marker header, pk_payload = payload\<rparr>,
                         accept_media now header payload source e))))"

definition process_rr_blocks ::
  "duration \<Rightarrow> instant \<Rightarrow> u32 \<Rightarrow> report_block list \<Rightarrow> rtcp_stats \<Rightarrow> rtcp_stats" where
  "process_rr_blocks unix now our_ssrc blocks stats =
     foldl (\<lambda>s block. RtcpStats_process_rr unix now now s block our_ssrc) stats blocks"

fun process_rtcp_packets ::
  "duration \<Rightarrow> instant \<Rightarrow> u32 \<Rightarrow> rtcp_packet list \<Rightarrow> bye_packet option \<times> rtcp_stats \<Rightarrow> bye_packet option \<times> rtcp_stats" where
  "process_rtcp_packets unix now our_ssrc [] st = st"
| "process_rtcp_packets unix now our_ssrc (SenderReport sr # pkts) (bye, stats) =
     process_rtcp_packets unix now our_ssrc pkts
       (bye, RtcpStats_process_sr now (process_rr_blocks unix now our_ssrc (sr_report_blocks sr) stats) sr)"
| "process_rtcp_packets unix now our_ssrc (ReceiverReport rr # pkts) (bye, stats) =
     process_rtcp_packets unix now our_ssrc pkts
       (bye, process_rr_blocks unix now our_ssrc (rr_report_blocks rr) stats)"
| "process_rtcp_packets unix now our_ssrc (Bye b # pkts) (bye, stats) =
     process_rtcp_packets unix now our_ssrc pkts (Some b, stats)"

definition latch_rtcp :: "socket_addr \<Rightarrow> rtp_endpoint \<Rightarrow> rtp_endpoint" where
  "latch_rtcp source e =
     (let e = e\<lparr>ep_remote_rtcp_addr := Some source, ep_rtcp_addr_locked := True\<rparr>
      in if ep_rtcp_mux e then e\<lparr>ep_remote_rtp_addr := Some source, ep_addr_locked := True\<rparr> else e)"

definition RtpEndpoint_handle_rtcp_at ::
  "crypto_lib \<Rightarrow> duration \<Rightarrow> instant \<Rightarrow> rtp_endpoint \<Rightarrow> bytes \<Rightarrow> socket_addr \<Rightarrow> instant
     \<Rightarrow> (bye_packet option \<times> bytes option) \<times> rtp_endpoint" where
  "RtpEndpoint_handle_rtcp_at lib unix now e data source received_at =
     (let e = RtpEndpoint_check_rekey_switchover now e in
      if \<not> RtpEndpoint_source_allowed e source received_at True
      then ((None, None), record_source_rejection e)
      else case unprotect_rtcp lib data e of
        (None, e) \<Rightarrow> ((None, None), e)
      | (Some plain, e) \<Rightarrow>
          if \<not> valid_compound plain then ((None, None), e)
          else
            let e = latch_rtcp source e;
                (bye, stats) = process_rtcp_packets unix now (ep_our_ssrc e) (parse_rtcp plain)
                  (None, ep_rtcp_stats e)
            in ((bye, Some plain), e\<lparr>ep_rtcp_stats := stats\<rparr>))"

subsection \<open>Outbound media\<close>

definition saturating_mul :: "u32 \<Rightarrow> u32 \<Rightarrow> u32" where
  "saturating_mul a b = (if unat a * unat b < 2 ^ 32 then a * b else - 1)"

definition RtpEndpoint_advance_outbound_timeline ::
  "rtp_endpoint \<Rightarrow> endpoint_id \<Rightarrow> u32 \<Rightarrow> bool \<Rightarrow> (u32 \<times> bool) \<times> rtp_endpoint" where
  "RtpEndpoint_advance_outbound_timeline e source_id source_ts source_marker =
     (let nominal_step = (case ep_send_codec e of Some c \<Rightarrow> cd_clock_rate c div 50 | None \<Rightarrow> 160);
          bump = (case ep_learned_step e of Some step \<Rightarrow> step | None \<Rightarrow> nominal_step);
          ((outbound_ts, marker_override), e) =
            (case (ep_last_outbound_ts e, ep_last_source_id e, ep_last_source_ts e) of
               (Some last_out, last_src, last_ts) \<Rightarrow>
                 (case (last_src, last_ts) of
                    (Some last_src, Some last_src_ts) \<Rightarrow>
                      if last_src = source_id then
                        let delta = source_ts - last_src_ts; max_safe = saturating_mul bump 10 in
                        if delta = 0 then ((last_out, False), e)
                        else if max_safe < delta then ((last_out + bump, True), e)
                        else ((last_out + delta, False),
                              if delta \<le> saturating_mul bump 2 then e\<lparr>ep_learned_step := Some delta\<rparr> else e)
                      else ((last_out + bump, True), e)
                  | _ \<Rightarrow> ((last_out + bump, True), e))
             | (None, _, _) \<Rightarrow> ((source_ts, source_marker), e))
      in ((outbound_ts, source_marker \<or> marker_override),
          e\<lparr>ep_last_outbound_ts := Some outbound_ts, ep_last_source_id := Some source_id,
            ep_last_source_ts := Some source_ts\<rparr>))"

definition RtpEndpoint_dtmf_outbound_ts :: "rtp_endpoint \<Rightarrow> bool \<Rightarrow> u32 \<Rightarrow> u32 \<times> rtp_endpoint" where
  "RtpEndpoint_dtmf_outbound_ts e marker fallback_ts =
     (case (marker, ep_dtmf_wire_ts e) of
        (False, Some ts) \<Rightarrow> (ts, e)
      | _ \<Rightarrow>
          let bump = ep_telephone_event_clock_rate e div 50;
              anchor = (case ep_last_outbound_ts e of Some t \<Rightarrow> t + bump | None \<Rightarrow> fallback_ts)
          in (anchor, e\<lparr>ep_dtmf_wire_ts := Some anchor, ep_last_outbound_ts := Some anchor\<rparr>))"

definition outbound_timestamp :: "rtp_endpoint \<Rightarrow> routed_rtp_packet \<Rightarrow> (u32 \<times> bool) \<times> rtp_endpoint" where
  "outbound_timestamp e packet =
     (if Some (pk_payload_type packet) = ep_telephone_event_pt e then
        let (ts, e) = RtpEndpoint_dtmf_outbound_ts e (pk_marker packet) (pk_timestamp packet)
        in ((ts, pk_marker packet), e)
      else RtpEndpoint_advance_outbound_timeline e (pk_source_endpoint_id packet)
             (pk_timestamp packet) (pk_marker packet))"

definition protect_rtp :: "crypto_lib \<Rightarrow> bytes \<Rightarrow> rtp_endpoint \<Rightarrow> (srtp_error + bytes) \<times> rtp_endpoint" where
  "protect_rtp lib packet e =
     (case ep_srtp_tx e of
        None \<Rightarrow> (Inr packet, e)
      | Some ctx \<Rightarrow>
          let (r, ctx) = SrtpContext_protect lib ctx packet in (r, e\<lparr>ep_srtp_tx := Some ctx\<rparr>))"

definition RtpEndpoint_write_rtp ::
  "crypto_lib \<Rightarrow> bool \<Rightarrow> rtp_endpoint \<Rightarrow> routed_rtp_packet
     \<Rightarrow> ((endpoint_error + bytes option) \<times> (socket_addr \<times> bytes) option) \<times> rtp_endpoint" where
  "RtpEndpoint_write_rtp lib send_ok e packet =
     (case ep_remote_rtp_addr e of
        None \<Rightarrow> ((Inl NoRemoteAddress, None), e)
      | Some remote \<Rightarrow>
          if ep_remote_ssrc e = None then ((Inr None, None), e)
          else
            let ((outbound_ts, marker), e) = outbound_timestamp e packet;
                unencrypted = RtpHeader_build (pk_payload_type packet) (ep_seq_no e) outbound_ts
                  (ep_our_ssrc e) marker (pk_payload packet);
                e = e\<lparr>ep_seq_no := ep_seq_no e + 1, ep_last_rtp_timestamp := outbound_ts,
                  ep_stats := EndpointStats_record_outbound (ep_stats e) (length (pk_payload packet)),
                  ep_rtcp_stats := RtcpStats_record_sent (ep_rtcp_stats e) (length (pk_payload packet))\<rparr>
            in case protect_rtp lib unencrypted e of
                 (Inl err, e) \<Rightarrow> ((Inl (SrtpError err), None), e)
               | (Inr datagram, e) \<Rightarrow>
                   if send_ok then ((Inr (Some unencrypted), Some (remote, datagram)), e)
                   else ((Inl SendFailed, None), e))"

definition protect_rtcp :: "crypto_lib \<Rightarrow> bytes \<Rightarrow> rtp_endpoint \<Rightarrow> (srtp_error + bytes) \<times> rtp_endpoint" where
  "protect_rtcp lib packet e =
     (case ep_srtcp_tx e of
        None \<Rightarrow> (Inr packet, e)
      | Some ctx \<Rightarrow>
          let (r, ctx) = SrtcpContext_protect_rtcp lib ctx packet in (r, e\<lparr>ep_srtcp_tx := Some ctx\<rparr>))"

definition RtpEndpoint_maybe_send_rtcp ::
  "crypto_lib \<Rightarrow> duration \<Rightarrow> instant \<Rightarrow> bool \<Rightarrow> rtp_endpoint
     \<Rightarrow> ((endpoint_error + bytes option) \<times> (socket_addr \<times> bytes) option) \<times> rtp_endpoint" where
  "RtpEndpoint_maybe_send_rtcp lib unix now send_ok e =
     (if saturating_duration_since now (ep_last_rtcp_sent e) < 5000000000 then ((Inr None, None), e)
      else case ep_remote_rtcp_addr e of
        None \<Rightarrow> ((Inr None, None), e)
      | Some remote_rtcp \<Rightarrow>
          (case ep_remote_ssrc e of
             None \<Rightarrow> ((Inr None, None), e)
           | Some remote_ssrc \<Rightarrow>
               let clock_rate = (case ep_send_codec e of Some c \<Rightarrow> cd_clock_rate c | None \<Rightarrow> 8000);
                   (rtcp_data, stats) = build_sr_rr unix now (ep_our_ssrc e) remote_ssrc (ep_rtcp_stats e)
                     (ep_last_rtp_timestamp e) clock_rate
               in case protect_rtcp lib rtcp_data (e\<lparr>ep_rtcp_stats := stats\<rparr>) of
                    (Inl err, e) \<Rightarrow> ((Inl (SrtpError err), None), e)
                  | (Inr send_data, e) \<Rightarrow>
                      if send_ok
                      then ((Inr (Some rtcp_data), Some (remote_rtcp, send_data)), e\<lparr>ep_last_rtcp_sent := now\<rparr>)
                      else ((Inl SendFailed, None), e)))"

end
