(* ===== verification/Rtp_Media.thy ===== *)
theory Rtp_Media
  imports Rtp_Endpoint
begin

text \<open>
  The media plane of an RTP endpoint (\<open>Rtp_Endpoint\<close>): who may send to it, what it puts on the
  wire, and that what one endpoint writes another one hears.
\<close>

section \<open>What an inbound datagram can change\<close>

text \<open>Everything the decision about a source reads.\<close>

definition latch_of :: "rtp_endpoint \<Rightarrow> _" where
  "latch_of e = (ep_local_rtp_addr e, ep_source_networks e, ep_rtcp_mux e, ep_remote_rtp_addr e, ep_remote_rtcp_addr e,
     ep_addr_locked e, ep_rtcp_addr_locked e, ep_rtp_latch_reset_at e, ep_rtcp_latch_reset_at e)"

lemma latch_ofD:
  assumes "latch_of e = latch_of e'"
  shows "ep_local_rtp_addr e = ep_local_rtp_addr e'" "ep_source_networks e = ep_source_networks e'"
    "ep_rtcp_mux e = ep_rtcp_mux e'" "ep_remote_rtp_addr e = ep_remote_rtp_addr e'"
    "ep_remote_rtcp_addr e = ep_remote_rtcp_addr e'" "ep_addr_locked e = ep_addr_locked e'"
    "ep_rtcp_addr_locked e = ep_rtcp_addr_locked e'" "ep_rtp_latch_reset_at e = ep_rtp_latch_reset_at e'"
    "ep_rtcp_latch_reset_at e = ep_rtcp_latch_reset_at e'"
  using assms by (simp_all add: latch_of_def)

lemma source_allowed_cong:
  "latch_of e = latch_of e' \<Longrightarrow> RtpEndpoint_source_allowed e = RtpEndpoint_source_allowed e'"
  unfolding RtpEndpoint_source_allowed_def [abs_def] by (simp only: latch_ofD [of e e'])

lemma switchover_frame [simp]:
  "latch_of (RtpEndpoint_check_rekey_switchover now e) = latch_of e"
  "ep_id (RtpEndpoint_check_rekey_switchover now e) = ep_id e"
  "ep_remote_ssrc (RtpEndpoint_check_rekey_switchover now e) = ep_remote_ssrc e"
  "known_payload_type (RtpEndpoint_check_rekey_switchover now e) = known_payload_type e"
  by (auto simp: RtpEndpoint_check_rekey_switchover_def latch_of_def known_payload_type_def Let_def split: option.split)

lemma unprotect_frame [simp]:
  "latch_of (snd (unprotect_rtp lib data e)) = latch_of e"
  "ep_id (snd (unprotect_rtp lib data e)) = ep_id e"
  "ep_remote_ssrc (snd (unprotect_rtp lib data e)) = ep_remote_ssrc e"
  "known_payload_type (snd (unprotect_rtp lib data e)) = known_payload_type e"
  "latch_of (snd (unprotect_rtcp lib data e)) = latch_of e"
  by (simp_all add: unprotect_rtp_def unprotect_rtcp_def latch_of_def known_payload_type_def fun_eq_iff split_beta)

lemma source_rejection_frame [simp]:
  "latch_of (record_source_rejection e) = latch_of e"
  "ep_remote_ssrc (record_source_rejection e) = ep_remote_ssrc e"
  by (simp_all add: record_source_rejection_def latch_of_def)

lemma checked_payload_parsed:
  "RtpHeader_parse data = Some h \<Longrightarrow> RtpHeader_payload h data \<noteq> None"
  by (drule RtpHeader_parse_SomeD) (simp add: RtpHeader_payload_def Let_def)

text \<open>The two outcomes of an inbound RTP datagram.\<close>

lemma handle_rtp_cases:
  obtains (dropped) e' where "RtpEndpoint_handle_rtp_at lib now e data source received_at = (None, e')"
      "latch_of e' = latch_of e" "ep_remote_ssrc e' = ep_remote_ssrc e"
  | (routed) d e1 h payload where
      "RtpEndpoint_source_allowed e source received_at False"
      "unprotect_rtp lib data (RtpEndpoint_check_rekey_switchover now e) = (Some d, e1)"
      "RtpHeader_parse d = Some h" "checked_payload h d = Some payload"
      "RtpEndpoint_handle_rtp_at lib now e data source received_at =
        (Some \<lparr>pk_source_endpoint_id = ep_id e, pk_payload_type = rh_payload_type h,
               pk_sequence_number = rh_sequence_number h, pk_timestamp = rh_timestamp h,
               pk_ssrc = rh_ssrc h, pk_marker = rh_marker h, pk_payload = payload\<rparr>,
         accept_media now h payload source e1)"
      "latch_of e1 = latch_of e"
proof -
  let ?e0 = "RtpEndpoint_check_rekey_switchover now e"
  obtain r e1 where u: "unprotect_rtp lib data ?e0 = (r, e1)" by fastforce
  then have frame: "latch_of e1 = latch_of e" "ep_id e1 = ep_id e" "ep_remote_ssrc e1 = ep_remote_ssrc e"
    using unprotect_frame [of lib data ?e0] by simp_all
  have allowed: "RtpEndpoint_source_allowed ?e0 = RtpEndpoint_source_allowed e"
    by (rule source_allowed_cong) simp
  show thesis
  proof (cases "RtpEndpoint_source_allowed e source received_at False")
    case False
    then show thesis
      by (intro dropped [of "record_source_rejection ?e0"])
        (simp_all add: RtpEndpoint_handle_rtp_at_def allowed Let_def)
  next
    case True
    let ?out = "RtpEndpoint_handle_rtp_at lib now e data source received_at"
    show thesis
    proof (cases "(\<exists>w. RtpHeader_parse data = Some w \<and> known_payload_type e (rh_payload_type w))
        \<and> (\<exists>d h payload. r = Some d \<and> RtpHeader_parse d = Some h \<and> checked_payload h d = Some payload)")
      case accepted: True
      then obtain d h payload where "r = Some d" "RtpHeader_parse d = Some h" "checked_payload h d = Some payload"
        by blast
      with accepted True show thesis
        by (intro routed [of d e1 h payload]) (auto simp: u frame RtpEndpoint_handle_rtp_at_def allowed Let_def)
    next
      case False
      then have "?out = (None, ?e0) \<or> ?out = (None, e1)"
        by (auto simp: RtpEndpoint_handle_rtp_at_def allowed True u Let_def split: option.split)
      then show thesis using dropped frame by (elim disjE) simp_all
    qed
  qed
qed

text \<open>The two outcomes of an inbound control datagram.\<close>

lemma handle_rtcp_cases:
  obtains (dropped) e' where "RtpEndpoint_handle_rtcp_at lib unix now e data source received_at = ((None, None), e')"
      "latch_of e' = latch_of e"
  | (heard) plain e1 bye stats where
      "RtpEndpoint_source_allowed e source received_at True"
      "unprotect_rtcp lib data (RtpEndpoint_check_rekey_switchover now e) = (Some plain, e1)"
      "valid_compound plain" "latch_of e1 = latch_of e"
      "RtpEndpoint_handle_rtcp_at lib unix now e data source received_at
        = ((bye, Some plain), (latch_rtcp source e1)\<lparr>ep_rtcp_stats := stats\<rparr>)"
proof -
  let ?e0 = "RtpEndpoint_check_rekey_switchover now e"
  obtain r e1 where u: "unprotect_rtcp lib data ?e0 = (r, e1)" by fastforce
  then have frame: "latch_of e1 = latch_of e" using unprotect_frame(5) [of lib data ?e0] by simp
  have allowed: "RtpEndpoint_source_allowed ?e0 = RtpEndpoint_source_allowed e"
    by (rule source_allowed_cong) simp
  show thesis
  proof (cases "RtpEndpoint_source_allowed e source received_at True \<and> (\<exists>plain. r = Some plain \<and> valid_compound plain)")
    case True
    then obtain plain where "r = Some plain" "valid_compound plain" by blast
    with True show thesis
      by (intro heard [of plain e1]) (auto simp: u frame RtpEndpoint_handle_rtcp_at_def allowed Let_def split_beta)
  next
    case False
    then have "RtpEndpoint_handle_rtcp_at lib unix now e data source received_at \<in>
        {((None, None), record_source_rejection ?e0), ((None, None), e1)}"
      by (auto simp: RtpEndpoint_handle_rtcp_at_def allowed u Let_def split: option.split)
    then show thesis using dropped frame by auto
  qed
qed

section \<open>Symmetric RTP\<close>

text \<open>An endpoint whose peer is known to be at an address.\<close>

definition latched :: "socket_addr \<Rightarrow> rtp_endpoint \<Rightarrow> bool" where
  "latched a e \<longleftrightarrow> ep_addr_locked e \<and> ep_remote_rtp_addr e = Some a
     \<and> (ep_rtcp_mux e \<longrightarrow> ep_remote_rtcp_addr e = Some a)"

lemma latched_cong: "latch_of e = latch_of e' \<Longrightarrow> latched a e = latched a e'"
  by (simp add: latched_def latch_ofD [of e e'])

lemma latched_source:
  assumes "latched a e" "RtpEndpoint_source_allowed e source t rtcp" "rtcp \<longrightarrow> ep_rtcp_mux e"
  shows "source = a"
  using assms by (auto simp: latched_def RtpEndpoint_source_allowed_def Let_def split: if_splits)

lemma accept_media_frame:
  "latched source e \<Longrightarrow> latch_of (accept_media now h payload source e) = latch_of e"
  "\<not> ep_addr_locked e \<Longrightarrow> latched source (accept_media now h payload source e)"
  by (simp_all add: latched_def accept_media_def latch_of_def RtpEndpoint_latch_remote_addr_def Let_def)

lemma handle_rtp_latched:
  assumes "latched a e"
  shows "latched a (snd (RtpEndpoint_handle_rtp_at lib now e data source received_at))"
    "source \<noteq> a \<Longrightarrow> fst (RtpEndpoint_handle_rtp_at lib now e data source received_at) = None"
proof -
  have "latched a (snd (RtpEndpoint_handle_rtp_at lib now e data source received_at))
    \<and> (source \<noteq> a \<longrightarrow> fst (RtpEndpoint_handle_rtp_at lib now e data source received_at) = None)"
  proof (cases rule: handle_rtp_cases [of lib now e data source received_at])
    case (dropped e')
    then show ?thesis using assms latched_cong [of e' e] by simp
  next
    case (routed d e1 h payload)
    then have "source = a" "latched a e1" using latched_source [OF assms] assms latched_cong [of e1 e] by simp_all
    then show ?thesis
      using routed(5) latched_cong [OF accept_media_frame(1) [OF \<open>latched a e1\<close>, of now h payload], of a] by simp
  qed
  then show "latched a (snd (RtpEndpoint_handle_rtp_at lib now e data source received_at))"
    "source \<noteq> a \<Longrightarrow> fst (RtpEndpoint_handle_rtp_at lib now e data source received_at) = None" by blast+
qed

lemma handle_rtcp_latched:
  assumes "latched a e"
  shows "latched a (snd (RtpEndpoint_handle_rtcp_at lib unix now e data source received_at))
    \<and> (ep_rtcp_mux e \<and> source \<noteq> a \<longrightarrow>
        fst (RtpEndpoint_handle_rtcp_at lib unix now e data source received_at) = (None, None))
    \<and> ep_rtcp_mux (snd (RtpEndpoint_handle_rtcp_at lib unix now e data source received_at)) = ep_rtcp_mux e"
proof (cases rule: handle_rtcp_cases [of lib unix now e data source received_at])
  case (dropped e')
  then show ?thesis using assms latched_cong [of e' e] latch_ofD(3) [of e' e] by simp
next
  case (heard plain e1 bye stats)
  then have "latched a e1" "ep_rtcp_mux e1 = ep_rtcp_mux e" "ep_rtcp_mux e \<Longrightarrow> source = a"
    using latched_source [OF assms] assms latched_cong [of e1 e] latch_ofD(3) [of e1 e] by simp_all
  then show ?thesis using heard(5) by (auto simp: latched_def latch_rtcp_def Let_def)
qed

text \<open>What happens to an endpoint between two negotiations, and what it answers.\<close>

datatype media_event =
    Rtp_Datagram instant bytes socket_addr instant
  | Rtcp_Datagram duration instant bytes socket_addr instant
  | Write_Rtp bool routed_rtp_packet
  | Send_Rtcp duration instant bool

datatype media_output =
    Routed "routed_rtp_packet option"
  | Heard "bye_packet option \<times> bytes option"
  | Wrote "(endpoint_error + bytes option) \<times> (socket_addr \<times> bytes) option"
  | Reported "(endpoint_error + bytes option) \<times> (socket_addr \<times> bytes) option"

fun media_step :: "crypto_lib \<Rightarrow> rtp_endpoint \<Rightarrow> media_event \<Rightarrow> media_output \<times> rtp_endpoint" where
  "media_step lib e (Rtp_Datagram now data source received_at) =
     (let (r, e) = RtpEndpoint_handle_rtp_at lib now e data source received_at in (Routed r, e))"
| "media_step lib e (Rtcp_Datagram unix now data source received_at) =
     (let (r, e) = RtpEndpoint_handle_rtcp_at lib unix now e data source received_at in (Heard r, e))"
| "media_step lib e (Write_Rtp send_ok packet) =
     (let (r, e) = RtpEndpoint_write_rtp lib send_ok e packet in (Wrote r, e))"
| "media_step lib e (Send_Rtcp unix now send_ok) =
     (let (r, e) = RtpEndpoint_maybe_send_rtcp lib unix now send_ok e in (Reported r, e))"

text \<open>Media is heard from one address only, and written to it only.\<close>

fun talks_to :: "socket_addr \<Rightarrow> bool \<Rightarrow> media_event \<Rightarrow> media_output \<Rightarrow> bool" where
  "talks_to a mux (Rtp_Datagram _ _ source _) (Routed r) = (source \<noteq> a \<longrightarrow> r = None)"
| "talks_to a mux (Rtcp_Datagram _ _ _ source _) (Heard r) = (mux \<and> source \<noteq> a \<longrightarrow> r = (None, None))"
| "talks_to a mux (Write_Rtp _ _) (Wrote (_, wire)) = (case wire of None \<Rightarrow> True | Some (to, _) \<Rightarrow> to = a)"
| "talks_to a mux (Send_Rtcp _ _ _) (Reported (_, wire)) = (case wire of None \<Rightarrow> True | Some (to, _) \<Rightarrow> mux \<longrightarrow> to = a)"
| "talks_to a mux _ _ = False"

lemma advance_state:
  obtains e0 ts where "snd (RtpEndpoint_advance_outbound_timeline e source_id source_ts m)
      = e0\<lparr>ep_last_outbound_ts := Some ts, ep_last_source_id := Some source_id, ep_last_source_ts := Some source_ts\<rparr>"
    "e0 = e \<or> (\<exists>d. e0 = e\<lparr>ep_learned_step := Some d\<rparr>)"
proof -
  define nominal where "nominal = (case ep_send_codec e of Some c \<Rightarrow> cd_clock_rate c div 50 | None \<Rightarrow> 160)"
  define bump where "bump = (case ep_learned_step e of Some step \<Rightarrow> step | None \<Rightarrow> nominal)"
  define r where "r =
    (case (ep_last_outbound_ts e, ep_last_source_id e, ep_last_source_ts e) of
       (Some last_out, last_src, last_ts) \<Rightarrow>
         (case (last_src, last_ts) of
            (Some last_src, Some last_src_ts) \<Rightarrow>
              if last_src = source_id then
                let delta = source_ts - last_src_ts; max_safe = saturating_mul bump 10 in
                if delta = 0 then ((last_out, False), e)
                else if max_safe < delta then ((last_out + bump, True), e)
                else ((last_out + delta, False),
                      if delta \<le> saturating_mul bump 2 then e\<lparr>ep_learned_step := Some delta\<rparr> else e)
              else ((last_out + bump, True), e)
          | _ \<Rightarrow> ((last_out + bump, True), e))
     | (None, _, _) \<Rightarrow> ((source_ts, m), e))"
  have "snd r = e \<or> (\<exists>d. snd r = e\<lparr>ep_learned_step := Some d\<rparr>)"
    unfolding r_def
    by (cases "ep_last_outbound_ts e"; cases "ep_last_source_id e"; cases "ep_last_source_ts e") (simp_all add: Let_def, blast)
  moreover have "snd (RtpEndpoint_advance_outbound_timeline e source_id source_ts m)
      = (snd r)\<lparr>ep_last_outbound_ts := Some (fst (fst r)), ep_last_source_id := Some source_id,
          ep_last_source_ts := Some source_ts\<rparr>"
    unfolding RtpEndpoint_advance_outbound_timeline_def r_def bump_def nominal_def Let_def by (simp only: split_beta fst_conv snd_conv)
  ultimately show thesis by (intro that) auto
qed

lemma outbound_state:
  obtains l t i s d where "snd (outbound_timestamp e p) = e\<lparr>ep_learned_step := l, ep_last_outbound_ts := t,
    ep_last_source_id := i, ep_last_source_ts := s, ep_dtmf_wire_ts := d\<rparr>"
proof (cases "Some (pk_payload_type p) = ep_telephone_event_pt e")
  case True
  have "snd (RtpEndpoint_dtmf_outbound_ts e m f) = e \<or>
      (\<exists>a. snd (RtpEndpoint_dtmf_outbound_ts e m f) = e\<lparr>ep_dtmf_wire_ts := Some a, ep_last_outbound_ts := Some a\<rparr>)" for m f
    by (auto simp: RtpEndpoint_dtmf_outbound_ts_def Let_def split: option.split bool.split)
  from this [of "pk_marker p" "pk_timestamp p"] show thesis
  proof
    assume "snd (RtpEndpoint_dtmf_outbound_ts e (pk_marker p) (pk_timestamp p)) = e"
    with True show thesis
      by (intro that [where l = "ep_learned_step e" and t = "ep_last_outbound_ts e" and i = "ep_last_source_id e"
          and s = "ep_last_source_ts e" and d = "ep_dtmf_wire_ts e"]) (simp add: outbound_timestamp_def split_beta)
  next
    assume "\<exists>a. snd (RtpEndpoint_dtmf_outbound_ts e (pk_marker p) (pk_timestamp p))
      = e\<lparr>ep_dtmf_wire_ts := Some a, ep_last_outbound_ts := Some a\<rparr>"
    then obtain a where "snd (RtpEndpoint_dtmf_outbound_ts e (pk_marker p) (pk_timestamp p))
      = e\<lparr>ep_dtmf_wire_ts := Some a, ep_last_outbound_ts := Some a\<rparr>" ..
    with True show thesis
      by (intro that [where l = "ep_learned_step e" and t = "Some a" and i = "ep_last_source_id e"
          and s = "ep_last_source_ts e" and d = "Some a"])
        (simp add: outbound_timestamp_def split_beta)
  qed
next
  case False
  then have "outbound_timestamp e p = RtpEndpoint_advance_outbound_timeline e (pk_source_endpoint_id p)
      (pk_timestamp p) (pk_marker p)"
    by (simp add: outbound_timestamp_def)
  moreover obtain e0 ts where "snd (RtpEndpoint_advance_outbound_timeline e (pk_source_endpoint_id p)
      (pk_timestamp p) (pk_marker p)) = e0\<lparr>ep_last_outbound_ts := Some ts,
      ep_last_source_id := Some (pk_source_endpoint_id p), ep_last_source_ts := Some (pk_timestamp p)\<rparr>"
    "e0 = e \<or> (\<exists>d. e0 = e\<lparr>ep_learned_step := Some d\<rparr>)"
    by (rule advance_state)
  ultimately show thesis
    by (intro that [where l = "ep_learned_step e0" and t = "Some ts" and i = "Some (pk_source_endpoint_id p)"
          and s = "Some (pk_timestamp p)" and d = "ep_dtmf_wire_ts e"]) auto
qed

lemma timeline_frame [simp]:
  "latch_of (snd (outbound_timestamp e p)) = latch_of e"
  "ep_remote_rtp_addr (snd (outbound_timestamp e p)) = ep_remote_rtp_addr e"
  "ep_remote_ssrc (snd (outbound_timestamp e p)) = ep_remote_ssrc e"
  "ep_srtp_tx (snd (outbound_timestamp e p)) = ep_srtp_tx e"
  "ep_our_ssrc (snd (outbound_timestamp e p)) = ep_our_ssrc e"
  "ep_seq_no (snd (outbound_timestamp e p)) = ep_seq_no e"
  "ep_telephone_event_pt (snd (outbound_timestamp e p)) = ep_telephone_event_pt e"
  "ep_telephone_event_clock_rate (snd (outbound_timestamp e p)) = ep_telephone_event_clock_rate e"
  "ep_send_codec (snd (outbound_timestamp e p)) = ep_send_codec e"
  by (rule outbound_state [of e p], simp add: latch_of_def)+

lemma latch_of_updates [simp]:
  "latch_of (e\<lparr>ep_seq_no := a\<rparr>) = latch_of e"
  "latch_of (e\<lparr>ep_last_rtp_timestamp := b\<rparr>) = latch_of e"
  "latch_of (e\<lparr>ep_stats := c\<rparr>) = latch_of e"
  "latch_of (e\<lparr>ep_rtcp_stats := d\<rparr>) = latch_of e"
  "latch_of (e\<lparr>ep_last_rtcp_sent := f\<rparr>) = latch_of e"
  "latch_of (e\<lparr>ep_srtp_tx := g\<rparr>) = latch_of e"
  "latch_of (e\<lparr>ep_srtcp_tx := h\<rparr>) = latch_of e"
  "latch_of (e\<lparr>ep_srtp_rx := i\<rparr>) = latch_of e"
  "latch_of (e\<lparr>ep_srtp_rx_new := j\<rparr>) = latch_of e"
  by (simp_all add: latch_of_def)

text \<open>The packet a write puts together, and the endpoint when it does.\<close>

definition plain_packet :: "rtp_endpoint \<Rightarrow> routed_rtp_packet \<Rightarrow> bytes" where
  "plain_packet e p =
     RtpHeader_build (pk_payload_type p) (ep_seq_no e) (fst (fst (outbound_timestamp e p))) (ep_our_ssrc e)
       (snd (fst (outbound_timestamp e p))) (pk_payload p)"

definition counted :: "rtp_endpoint \<Rightarrow> routed_rtp_packet \<Rightarrow> rtp_endpoint" where
  "counted e p =
     (let e' = snd (outbound_timestamp e p) in
      e'\<lparr>ep_seq_no := ep_seq_no e + 1, ep_last_rtp_timestamp := fst (fst (outbound_timestamp e p)),
         ep_stats := EndpointStats_record_outbound (ep_stats e') (length (pk_payload p)),
         ep_rtcp_stats := RtcpStats_record_sent (ep_rtcp_stats e') (length (pk_payload p))\<rparr>)"

lemma write_rtp_eq:
  "RtpEndpoint_write_rtp lib send_ok e p =
     (case ep_remote_rtp_addr e of
        None \<Rightarrow> ((Inl NoRemoteAddress, None), e)
      | Some remote \<Rightarrow>
          if ep_remote_ssrc e = None then ((Inr None, None), e)
          else (case protect_rtp lib (plain_packet e p) (counted e p) of
            (Inl err, e') \<Rightarrow> ((Inl (SrtpError err), None), e')
          | (Inr d, e') \<Rightarrow>
              if send_ok then ((Inr (Some (plain_packet e p)), Some (remote, d)), e') else ((Inl SendFailed, None), e')))"
proof -
  obtain ts m e1 where o: "outbound_timestamp e p = ((ts, m), e1)" by (metis prod.exhaust)
  then have same: "ep_seq_no e1 = ep_seq_no e" "ep_our_ssrc e1 = ep_our_ssrc e"
    using timeline_frame [of e p] by simp_all
  show ?thesis
    unfolding RtpEndpoint_write_rtp_def plain_packet_def counted_def o Let_def prod.case fst_conv snd_conv same ..
qed

lemma counted_frame [simp]:
  "latch_of (counted e p) = latch_of e" "ep_remote_rtp_addr (counted e p) = ep_remote_rtp_addr e"
  "ep_remote_ssrc (counted e p) = ep_remote_ssrc e" "ep_srtp_tx (counted e p) = ep_srtp_tx e"
  "ep_our_ssrc (counted e p) = ep_our_ssrc e" "ep_seq_no (counted e p) = ep_seq_no e + 1"
  "ep_telephone_event_pt (counted e p) = ep_telephone_event_pt e"
  "ep_telephone_event_clock_rate (counted e p) = ep_telephone_event_clock_rate e"
  "ep_send_codec (counted e p) = ep_send_codec e"
  by (simp_all add: counted_def Let_def)

lemma protect_frame [simp]:
  "latch_of (snd (protect_rtp lib d e)) = latch_of e" "latch_of (snd (protect_rtcp lib d e)) = latch_of e"
  by (simp_all add: protect_rtp_def protect_rtcp_def split_beta split: option.split)

lemma protect_latch:
  "protect_rtp lib d e = (r, e') \<Longrightarrow> latch_of e' = latch_of e"
  "protect_rtcp lib d e = (r, e') \<Longrightarrow> latch_of e' = latch_of e"
  using protect_frame [of lib d e] by simp_all

lemma write_rtp_latch [simp]: "latch_of (snd (RtpEndpoint_write_rtp lib send_ok e p)) = latch_of e"
  by (auto simp: write_rtp_eq dest!: protect_latch split: option.split prod.split sum.split)

lemma send_rtcp_cases:
  obtains (silent) r where "RtpEndpoint_maybe_send_rtcp lib unix now send_ok e = ((r, None), e)"
  | (failed) r e' where "RtpEndpoint_maybe_send_rtcp lib unix now send_ok e = ((r, None), e')" "latch_of e' = latch_of e"
  | (sent) r remote d e' where "RtpEndpoint_maybe_send_rtcp lib unix now send_ok e = ((r, Some (remote, d)), e')"
      "latch_of e' = latch_of e" "ep_remote_rtcp_addr e = Some remote"
proof (cases "saturating_duration_since now (ep_last_rtcp_sent e) < 5000000000 \<or> ep_remote_rtcp_addr e = None
    \<or> ep_remote_ssrc e = None")
  case True
  then show thesis by (intro silent [of "Inr None"]) (auto simp: RtpEndpoint_maybe_send_rtcp_def split: option.split)
next
  case False
  then obtain remote ssrc where known: "ep_remote_rtcp_addr e = Some remote" "ep_remote_ssrc e = Some ssrc" by auto
  let ?rate = "case ep_send_codec e of Some c \<Rightarrow> cd_clock_rate c | None \<Rightarrow> 8000"
  obtain data stats where build: "build_sr_rr unix now (ep_our_ssrc e) ssrc (ep_rtcp_stats e)
      (ep_last_rtp_timestamp e) ?rate = (data, stats)" by fastforce
  obtain r e' where p: "protect_rtcp lib data (e\<lparr>ep_rtcp_stats := stats\<rparr>) = (r, e')" by fastforce
  then have latch: "latch_of e' = latch_of e" using protect_latch(2) [OF p] by simp
  have out: "RtpEndpoint_maybe_send_rtcp lib unix now send_ok e =
    (case r of Inl err \<Rightarrow> ((Inl (SrtpError err), None), e')
     | Inr d \<Rightarrow> if send_ok then ((Inr (Some data), Some (remote, d)), e'\<lparr>ep_last_rtcp_sent := now\<rparr>)
               else ((Inl SendFailed, None), e'))"
    using False unfolding RtpEndpoint_maybe_send_rtcp_def known option.case Let_def build prod.case p by simp
  show thesis
  proof (cases "send_ok \<and> \<not> isl r")
    case True
    then show thesis using out latch known(1)
      by (intro sent [of "Inr (Some data)" remote "projr r" "e'\<lparr>ep_last_rtcp_sent := now\<rparr>"]) (auto split: sum.splits)
  next
    case False
    then have "\<exists>q. RtpEndpoint_maybe_send_rtcp lib unix now send_ok e = ((q, None), e')"
      unfolding out by (auto split: sum.split)
    then show thesis using failed latch by blast
  qed
qed

lemma handle_rtp_mux:
  "ep_rtcp_mux (snd (RtpEndpoint_handle_rtp_at lib now e data source received_at)) = ep_rtcp_mux e"
proof (cases rule: handle_rtp_cases [of lib now e data source received_at])
  case (dropped e')
  then show ?thesis using latch_ofD(3) [OF dropped(2)] by simp
next
  case (routed d e1 h payload)
  then show ?thesis using latch_ofD(3) [OF routed(6)]
    by (simp add: accept_media_def RtpEndpoint_latch_remote_addr_def Let_def)
qed

lemma media_step_latched:
  assumes "latched a e" "media_step lib e ev = (out, e')"
  shows "latched a e' \<and> ep_rtcp_mux e' = ep_rtcp_mux e \<and> talks_to a (ep_rtcp_mux e) ev out"
proof (cases ev)
  case (Rtp_Datagram now data source received_at)
  then show ?thesis
    using assms handle_rtp_latched [OF assms(1), where lib = lib and now = now and data = data and source = source
        and received_at = received_at]
      handle_rtp_mux [of lib now e data source received_at]
    by (auto split: prod.splits)
next
  case (Rtcp_Datagram unix now data source received_at)
  then show ?thesis
    using assms handle_rtcp_latched [OF assms(1), of lib unix now data source received_at]
    by (auto split: prod.splits)
next
  case (Write_Rtp send_ok packet)
  note latch = write_rtp_latch [of lib send_ok e packet]
  show ?thesis
    using assms latched_cong [OF latch, of a] latch_ofD(3) [OF latch]
    by (auto simp: Write_Rtp write_rtp_eq latched_def split: prod.splits sum.splits if_splits)
next
  case (Send_Rtcp unix now send_ok)
  show ?thesis
  proof (cases rule: send_rtcp_cases [of lib unix now send_ok e])
    case (silent r)
    then show ?thesis using assms Send_Rtcp by auto
  next
    case (failed r e'')
    then show ?thesis using assms Send_Rtcp latched_cong [OF failed(2)] latch_ofD(3) [OF failed(2)] by auto
  next
    case (sent r remote d e'')
    then show ?thesis using assms Send_Rtcp latched_cong [OF sent(2)] latch_ofD(3) [OF sent(2)]
      by (auto simp: latched_def)
  qed
qed

lemma media_steps_latched:
  "latched a e \<Longrightarrow> list_all2 (talks_to a (ep_rtcp_mux e)) evs (results_with (media_step lib) e evs)
     \<and> latched a (state_with (media_step lib) e evs)"
proof (induction evs arbitrary: e)
  case (Cons ev evs)
  then show ?case
    using media_step_latched [OF Cons.prems, of lib ev "fst (media_step lib e ev)" "snd (media_step lib e ev)"]
      Cons.IH [of "snd (media_step lib e ev)"] by simp
qed simp

section \<open>The outbound timeline\<close>

text \<open>Writing packet after packet: the bytes that leave the endpoint, before encryption.\<close>

fun plain_packets :: "rtp_endpoint \<Rightarrow> routed_rtp_packet list \<Rightarrow> bytes list" where
  "plain_packets e [] = []"
| "plain_packets e (p # ps) = plain_packet e p # plain_packets (counted e p) ps"

fun stamps :: "rtp_endpoint \<Rightarrow> routed_rtp_packet list \<Rightarrow> (u32 \<times> bool) list" where
  "stamps e [] = []"
| "stamps e (p # ps) = fst (outbound_timestamp e p) # stamps (counted e p) ps"

lemma length_plain_packets [simp]: "length (plain_packets e ps) = length ps"
  by (induction ps arbitrary: e) simp_all

lemma plain_packets_nth:
  "i < length ps \<Longrightarrow> plain_packets e ps ! i =
     RtpHeader_build (pk_payload_type (ps ! i)) (ep_seq_no e + of_nat i) (fst (stamps e ps ! i)) (ep_our_ssrc e)
       (snd (stamps e ps ! i)) (pk_payload (ps ! i))"
proof (induction ps arbitrary: e i)
  case (Cons p ps)
  then show ?case by (cases i) (simp_all add: plain_packet_def add.assoc)
qed simp

definition is_event :: "rtp_endpoint \<Rightarrow> routed_rtp_packet \<Rightarrow> bool" where
  "is_event e p \<longleftrightarrow> ep_telephone_event_pt e = Some (pk_payload_type p)"

text \<open>The step of one frame, once it is known that every source sends frames of that length.\<close>

definition frame_step :: "rtp_endpoint \<Rightarrow> u32" where
  "frame_step e = (case ep_send_codec e of Some c \<Rightarrow> cd_clock_rate c div 50 | None \<Rightarrow> 160)"

definition steady :: "rtp_endpoint \<Rightarrow> bool" where
  "steady e \<longleftrightarrow> 0 < frame_step e \<and> (ep_learned_step e = None \<or> ep_learned_step e = Some (frame_step e))"

text \<open>Audio frames of any sources: a source's frames follow each other at the frame step.\<close>

fun frames_of_sources :: "u32 \<Rightarrow> endpoint_id option \<Rightarrow> u32 option \<Rightarrow> routed_rtp_packet list \<Rightarrow> bool" where
  "frames_of_sources step src ts [] = True"
| "frames_of_sources step src ts (p # ps) =
     ((src = Some (pk_source_endpoint_id p) \<longrightarrow> ts = Some (pk_timestamp p - step))
      \<and> frames_of_sources step (Some (pk_source_endpoint_id p)) (Some (pk_timestamp p)) ps)"

lemma saturating_mul_ge: "0 < n \<Longrightarrow> a \<le> saturating_mul a n"
proof -
  assume "0 < n"
  then have "1 \<le> unat n" by (simp add: Suc_le_eq unat_gt_0 word_neq_0_conv)
  then have "unat a \<le> unat a * unat n" by simp
  then have "unat a * unat n < 2 ^ 32 \<Longrightarrow> a \<le> a * n"
    by (simp add: word_le_nat_alt unat_mult_lem [THEN iffD1])
  then show ?thesis by (simp add: saturating_mul_def)
qed

lemma frame_step_updates [simp]:
  "frame_step (e\<lparr>ep_last_outbound_ts := a\<rparr>) = frame_step e" "frame_step (e\<lparr>ep_last_source_id := b\<rparr>) = frame_step e"
  "frame_step (e\<lparr>ep_last_source_ts := c\<rparr>) = frame_step e" "frame_step (e\<lparr>ep_learned_step := d\<rparr>) = frame_step e"
  "frame_step (e\<lparr>ep_dtmf_wire_ts := f\<rparr>) = frame_step e"
  by (simp_all add: frame_step_def)

definition stamped_by :: "routed_rtp_packet \<Rightarrow> u32 \<Rightarrow> rtp_endpoint \<Rightarrow> rtp_endpoint" where
  "stamped_by p ts e = e\<lparr>ep_last_outbound_ts := Some ts, ep_last_source_id := Some (pk_source_endpoint_id p),
     ep_last_source_ts := Some (pk_timestamp p)\<rparr>"

lemma stamped_by_simps [simp]:
  "frame_step (stamped_by p ts e) = frame_step e" "ep_learned_step (stamped_by p ts e) = ep_learned_step e"
  "ep_telephone_event_pt (stamped_by p ts e) = ep_telephone_event_pt e"
  "ep_last_outbound_ts (stamped_by p ts e) = Some ts" "ep_last_source_ts (stamped_by p ts e) = Some (pk_timestamp p)"
  "ep_last_source_id (stamped_by p ts e) = Some (pk_source_endpoint_id p)"
  by (simp_all add: stamped_by_def)

lemma first_stamp:
  assumes "\<not> is_event e p" "ep_last_outbound_ts e = None"
  shows "outbound_timestamp e p = ((pk_timestamp p, pk_marker p), stamped_by p (pk_timestamp p) e)"
  using assms by (auto simp: outbound_timestamp_def is_event_def RtpEndpoint_advance_outbound_timeline_def stamped_by_def Let_def)

lemma steady_stamp:
  assumes "steady e" "\<not> is_event e p" "ep_last_outbound_ts e = Some t"
    and same: "ep_last_source_id e = Some (pk_source_endpoint_id p) \<longrightarrow> ep_last_source_ts e = Some (pk_timestamp p - frame_step e)"
  shows "outbound_timestamp e p =
    ((t + frame_step e, pk_marker p \<or> ep_last_source_id e \<noteq> Some (pk_source_endpoint_id p)),
     stamped_by p (t + frame_step e)
       (if ep_last_source_id e = Some (pk_source_endpoint_id p) then e\<lparr>ep_learned_step := Some (frame_step e)\<rparr> else e))"
proof -
  have bump: "(case ep_learned_step e of Some step \<Rightarrow> step | None \<Rightarrow> frame_step e) = frame_step e"
    and pos: "frame_step e \<noteq> 0"
    using assms(1) by (auto simp: steady_def)
  have le: "frame_step e \<le> saturating_mul (frame_step e) 2" "\<not> saturating_mul (frame_step e) 10 < frame_step e"
    using saturating_mul_ge [of 2 "frame_step e"] saturating_mul_ge [of 10 "frame_step e"] by (simp_all add: not_less)
  have audio: "outbound_timestamp e p = RtpEndpoint_advance_outbound_timeline e (pk_source_endpoint_id p)
      (pk_timestamp p) (pk_marker p)"
    using assms(2) by (auto simp: outbound_timestamp_def is_event_def)
  show ?thesis
  proof (cases "ep_last_source_id e = Some (pk_source_endpoint_id p)")
    case True
    with same have ts: "ep_last_source_ts e = Some (pk_timestamp p - frame_step e)" by simp
    show ?thesis
      unfolding audio RtpEndpoint_advance_outbound_timeline_def frame_step_def [symmetric] bump Let_def assms(3) True ts
      using pos le by (simp add: stamped_by_def)
  next
    case False
    have "(case (ep_last_source_id e, ep_last_source_ts e) of
        (Some last_src, Some last_src_ts) \<Rightarrow> if last_src = pk_source_endpoint_id p then f last_src_ts else g
      | _ \<Rightarrow> g) = g" for f and g :: "(u32 \<times> bool) \<times> rtp_endpoint"
      using False by (simp split: option.split)
    then show ?thesis
      using False
      unfolding audio RtpEndpoint_advance_outbound_timeline_def frame_step_def [symmetric] bump Let_def assms(3)
      by (simp add: stamped_by_def)
  qed
qed

lemma steady_stamped: "steady e \<Longrightarrow> steady (stamped_by p ts e)"
  "steady e \<Longrightarrow> steady (stamped_by p ts (e\<lparr>ep_learned_step := Some (frame_step e)\<rparr>))"
  by (simp_all add: steady_def)

lemma counted_timeline [simp]:
  "ep_last_outbound_ts (counted e p) = ep_last_outbound_ts (snd (outbound_timestamp e p))"
  "ep_last_source_id (counted e p) = ep_last_source_id (snd (outbound_timestamp e p))"
  "ep_last_source_ts (counted e p) = ep_last_source_ts (snd (outbound_timestamp e p))"
  "ep_learned_step (counted e p) = ep_learned_step (snd (outbound_timestamp e p))"
  "ep_dtmf_wire_ts (counted e p) = ep_dtmf_wire_ts (snd (outbound_timestamp e p))"
  "frame_step (counted e p) = frame_step e" "is_event (counted e p) = is_event e"
  by (simp_all add: counted_def frame_step_def is_event_def fun_eq_iff Let_def)

lemma steady_counted: "steady (counted e p) = steady (snd (outbound_timestamp e p))"
  by (simp add: steady_def) (simp add: frame_step_def)

text \<open>The markers the receiver sees: those of the sources, and one at every change of source.\<close>

fun marks :: "endpoint_id option \<Rightarrow> routed_rtp_packet list \<Rightarrow> bool list" where
  "marks src [] = []"
| "marks src (p # ps) = (pk_marker p \<or> src \<noteq> Some (pk_source_endpoint_id p))
     # marks (Some (pk_source_endpoint_id p)) ps"

text \<open>One contiguous stream: from a sequence number and a timestamp on, one frame after the other.\<close>

fun contiguous :: "u16 \<Rightarrow> u32 \<Rightarrow> u32 \<Rightarrow> u32 \<Rightarrow> routed_rtp_packet list \<Rightarrow> bool list \<Rightarrow> bytes list" where
  "contiguous seq ts step ssrc (p # ps) (m # ms) =
     RtpHeader_build (pk_payload_type p) seq ts ssrc m (pk_payload p) # contiguous (seq + 1) (ts + step) step ssrc ps ms"
| "contiguous seq ts step ssrc _ _ = []"

lemma plain_packets_steady:
  assumes "steady e" "list_all (\<lambda>p. \<not> is_event e p) ps" "ep_last_outbound_ts e = Some t"
    and "frames_of_sources (frame_step e) (ep_last_source_id e) (ep_last_source_ts e) ps"
  shows "plain_packets e ps
    = contiguous (ep_seq_no e) (t + frame_step e) (frame_step e) (ep_our_ssrc e) ps (marks (ep_last_source_id e) ps)"
  using assms
proof (induction ps arbitrary: e t)
  case (Cons p ps)
  have out: "outbound_timestamp e p =
    ((t + frame_step e, pk_marker p \<or> ep_last_source_id e \<noteq> Some (pk_source_endpoint_id p)),
     stamped_by p (t + frame_step e)
       (if ep_last_source_id e = Some (pk_source_endpoint_id p) then e\<lparr>ep_learned_step := Some (frame_step e)\<rparr> else e))"
    using Cons.prems by (intro steady_stamp) simp_all
  have "steady (counted e p)"
    unfolding steady_counted out snd_conv using steady_stamped Cons.prems(1) by (simp split: if_split)
  from Cons.IH [OF this] Cons.prems show ?case
    by (simp add: plain_packet_def out split: if_split)
qed simp

text \<open>Fresh after negotiation or after its outbound stream was restarted.\<close>

definition unstarted :: "rtp_endpoint \<Rightarrow> bool" where
  "unstarted e \<longleftrightarrow> ep_last_outbound_ts e = None \<and> ep_last_source_id e = None"

lemma plain_packets_relay:
  assumes "unstarted e" "steady e" "list_all (\<lambda>p. \<not> is_event e p) (p # ps)"
    and "frames_of_sources (frame_step e) (Some (pk_source_endpoint_id p)) (Some (pk_timestamp p)) ps"
  shows "plain_packets e (p # ps)
    = contiguous (ep_seq_no e) (pk_timestamp p) (frame_step e) (ep_our_ssrc e) (p # ps)
        (pk_marker p # marks (Some (pk_source_endpoint_id p)) ps)"
proof -
  have out: "outbound_timestamp e p = ((pk_timestamp p, pk_marker p), stamped_by p (pk_timestamp p) e)"
    using assms(1,3) by (intro first_stamp) (simp_all add: unstarted_def)
  have "steady (counted e p)"
    unfolding steady_counted out snd_conv using steady_stamped(1) [OF assms(2)] by simp
  from plain_packets_steady [OF this, of ps "pk_timestamp p"] assms(3,4) show ?thesis
    by (simp add: plain_packet_def out)
qed

section \<open>Telephone events\<close>

lemma event_first:
  assumes "is_event e p" "pk_marker p"
  shows "fst (outbound_timestamp e p) = (case ep_last_outbound_ts e of
      Some t \<Rightarrow> t + ep_telephone_event_clock_rate e div 50 | None \<Rightarrow> pk_timestamp p, True)"
    "ep_dtmf_wire_ts (counted e p) = Some (fst (fst (outbound_timestamp e p)))"
    "ep_last_outbound_ts (counted e p) = Some (fst (fst (outbound_timestamp e p)))"
  using assms by (simp_all add: outbound_timestamp_def is_event_def RtpEndpoint_dtmf_outbound_ts_def Let_def split_beta)

lemma event_next:
  assumes "is_event e p" "\<not> pk_marker p" "ep_dtmf_wire_ts e = Some t"
  shows "outbound_timestamp e p = ((t, False), e)"
  using assms by (simp add: outbound_timestamp_def is_event_def RtpEndpoint_dtmf_outbound_ts_def)

lemma audio_keeps_event:
  assumes "\<not> is_event e p"
  shows "ep_dtmf_wire_ts (snd (outbound_timestamp e p)) = ep_dtmf_wire_ts e"
proof -
  obtain e0 ts where "snd (RtpEndpoint_advance_outbound_timeline e (pk_source_endpoint_id p)
      (pk_timestamp p) (pk_marker p)) = e0\<lparr>ep_last_outbound_ts := Some ts,
      ep_last_source_id := Some (pk_source_endpoint_id p), ep_last_source_ts := Some (pk_timestamp p)\<rparr>"
    "e0 = e \<or> (\<exists>d. e0 = e\<lparr>ep_learned_step := Some d\<rparr>)"
    by (rule advance_state)
  then show ?thesis using assms by (auto simp: outbound_timestamp_def is_event_def)
qed

section \<open>Writing a stream\<close>

text \<open>Encryption does not touch the timeline.\<close>

lemma outbound_timestamp_srtp_tx:
  "outbound_timestamp (e\<lparr>ep_srtp_tx := x\<rparr>) p
     = (fst (outbound_timestamp e p), (snd (outbound_timestamp e p))\<lparr>ep_srtp_tx := x\<rparr>)"
proof -
  have "RtpEndpoint_dtmf_outbound_ts (e\<lparr>ep_srtp_tx := x\<rparr>) m f
      = (fst (RtpEndpoint_dtmf_outbound_ts e m f), (snd (RtpEndpoint_dtmf_outbound_ts e m f))\<lparr>ep_srtp_tx := x\<rparr>)" for m f
    by (cases m; cases "ep_dtmf_wire_ts e") (simp_all add: RtpEndpoint_dtmf_outbound_ts_def Let_def)
  moreover have "RtpEndpoint_advance_outbound_timeline (e\<lparr>ep_srtp_tx := x\<rparr>) i t m
      = (fst (RtpEndpoint_advance_outbound_timeline e i t m),
         (snd (RtpEndpoint_advance_outbound_timeline e i t m))\<lparr>ep_srtp_tx := x\<rparr>)" for i t m
    by (cases "ep_last_outbound_ts e"; cases "ep_last_source_id e"; cases "ep_last_source_ts e")
      (simp_all add: RtpEndpoint_advance_outbound_timeline_def Let_def)
  ultimately show ?thesis by (simp add: outbound_timestamp_def split_beta)
qed

lemma plain_packets_srtp_tx [simp]: "plain_packets (e\<lparr>ep_srtp_tx := x\<rparr>) ps = plain_packets e ps"
proof (induction ps arbitrary: e)
  case (Cons p ps)
  have "counted (e\<lparr>ep_srtp_tx := x\<rparr>) p = (counted e p)\<lparr>ep_srtp_tx := x\<rparr>"
    by (simp add: counted_def outbound_timestamp_srtp_tx Let_def)
  with Cons show ?case by (simp add: plain_packet_def outbound_timestamp_srtp_tx)
qed simp

lemma write_plain:
  assumes "ep_srtp_tx e = None" "ep_remote_rtp_addr e = Some b" "ep_remote_ssrc e \<noteq> None"
  shows "results_with (RtpEndpoint_write_rtp lib True) e ps = map (\<lambda>d. (Inr (Some d), Some (b, d))) (plain_packets e ps)"
  using assms by (induction ps arbitrary: e) (simp_all add: write_rtp_eq protect_rtp_def)

lemma write_srtp:
  assumes "ep_srtp_tx e = Some tx" "ep_remote_rtp_addr e = Some b" "ep_remote_ssrc e \<noteq> None"
    and "\<forall>r \<in> set (results_with (SrtpContext_protect lib) tx (plain_packets e ps)). \<not> isl r"
  shows "results_with (RtpEndpoint_write_rtp lib True) e ps
    = map2 (\<lambda>d r. (Inr (Some d), Some (b, projr r))) (plain_packets e ps)
        (results_with (SrtpContext_protect lib) tx (plain_packets e ps))"
  using assms
proof (induction ps arbitrary: e tx)
  case (Cons p ps)
  obtain r tx' where r: "SrtpContext_protect lib tx (plain_packet e p) = (r, tx')" by fastforce
  with Cons.prems(4) obtain d where d: "r = Inr d" by (cases r) simp_all
  have step: "RtpEndpoint_write_rtp lib True e p
      = ((Inr (Some (plain_packet e p)), Some (b, d)), (counted e p)\<lparr>ep_srtp_tx := Some tx'\<rparr>)"
    using Cons.prems(1-3) by (auto simp: write_rtp_eq protect_rtp_def r d)
  show ?case using Cons.IH [of "(counted e p)\<lparr>ep_srtp_tx := Some tx'\<rparr>" tx'] Cons.prems
    by (simp add: step r d)
qed simp

section \<open>Hearing a stream\<close>

lemma packet_fields_build [simp]:
  "rtp_header_len (RtpHeader_build pt seq ts ssrc m pl) = Some 12"
  "packet_ssrc (RtpHeader_build pt seq ts ssrc m pl) = ssrc"
  "packet_seq (RtpHeader_build pt seq ts ssrc m pl) = seq"
  by (simp_all add: rtp_header_len_def packet_ssrc_def packet_seq_def RtpHeader_build_nth be_simps)

lemma numbered_plain_packets:
  "numbered (ep_our_ssrc e) i (plain_packets e ps) \<longleftrightarrow> ps = [] \<or> ep_seq_no e = of_nat i"
proof (induction ps arbitrary: e i)
  case (Cons p ps)
  have "of_nat (Suc i) = (of_nat i + 1 :: u16)" by simp
  with Cons.IH [of "counted e p" "Suc i"] show ?case
    by (simp add: plain_packet_def) (metis add_right_cancel)
qed simp

lemma parse_prefix:
  assumes "take 12 q = take 12 (RtpHeader_build pt seq ts ssrc m pl)" "12 \<le> length q"
  shows "RtpHeader_parse q = RtpHeader_parse (RtpHeader_build pt seq ts ssrc m pl)"
proof -
  have nth: "q ! i = RtpHeader_build pt seq ts ssrc m pl ! i" if "i < 12" for i
    using assms that by (metis nth_take)
  have "q ! 0 AND 15 = 0" "drop_bit 4 (q ! 0) AND 1 = 0"
    using nth [of 0] by (simp_all add: RtpHeader_build_nth)
  with assms(2) nth show ?thesis
    by (simp add: RtpHeader_parse_def RtpHeader_build_nth(1))
qed

text \<open>An endpoint that takes packets from an address.\<close>

definition expects :: "socket_addr \<Rightarrow> instant \<Rightarrow> rtp_endpoint \<Rightarrow> bool" where
  "expects a t0 e \<longleftrightarrow> is_ipv6 (sa_ip a) = is_ipv6 (sa_ip (ep_local_rtp_addr e)) \<and> ep_rtp_latch_reset_at e \<le> t0
     \<and> (case ep_remote_rtp_addr e of
          None \<Rightarrow> False
        | Some x \<Rightarrow> if ep_addr_locked e then x = a
            else to_canonical (sa_ip a) = to_canonical (sa_ip x)
              \<or> list_ex (\<lambda>network. network (to_canonical (sa_ip a))) (ep_source_networks e))"

lemma expects_cong: "latch_of e = latch_of e' \<Longrightarrow> expects a t0 e = expects a t0 e'"
  unfolding expects_def by (simp only: latch_ofD [of e e'])

lemma expects_allowed: "expects a t0 e \<Longrightarrow> t0 \<le> t \<Longrightarrow> RtpEndpoint_source_allowed e a t False"
  by (auto simp: expects_def RtpEndpoint_source_allowed_def Let_def split: option.splits if_splits)

lemma expects_accept: "expects a t0 e \<Longrightarrow> expects a t0 (accept_media now h payload a e)"
  by (auto simp: expects_def accept_media_def RtpEndpoint_latch_remote_addr_def Let_def split: option.splits if_splits)

text \<open>The packet an endpoint routes for decrypted bytes.\<close>

definition routed_packet :: "endpoint_id \<Rightarrow> bytes \<Rightarrow> routed_rtp_packet option" where
  "routed_packet i d =
     (case RtpHeader_parse d of
        None \<Rightarrow> None
      | Some h \<Rightarrow> map_option (\<lambda>payload.
          \<lparr>pk_source_endpoint_id = i, pk_payload_type = rh_payload_type h, pk_sequence_number = rh_sequence_number h,
           pk_timestamp = rh_timestamp h, pk_ssrc = rh_ssrc h, pk_marker = rh_marker h, pk_payload = payload\<rparr>)
          (checked_payload h d))"

lemma routed_packet_build:
  "pt < 128 \<Longrightarrow> routed_packet i (RtpHeader_build pt seq ts ssrc m pl)
     = Some \<lparr>pk_source_endpoint_id = i, pk_payload_type = pt, pk_sequence_number = seq, pk_timestamp = ts,
             pk_ssrc = ssrc, pk_marker = m, pk_payload = pl\<rparr>"
proof -
  assume "pt < 128"
  then have "pt AND 0x7F = pt" using less_mask_eq [of pt 7] by (simp add: mask_eq_exp_minus_1)
  then show ?thesis
    by (simp add: routed_packet_def RtpHeader_parse_build checked_payload_def RtpHeader_payload_def drop_RtpHeader_build
        Let_def)
qed

text \<open>An endpoint with one receive context and no rekeying under way.\<close>

definition settled :: "srtp_context option \<Rightarrow> rtp_endpoint \<Rightarrow> bool" where
  "settled rx e \<longleftrightarrow> ep_srtp_rx e = rx \<and> ep_srtp_rx_new e = None \<and> ep_rekey_switchover e = None"

lemma settled_switchover: "settled rx e \<Longrightarrow> RtpEndpoint_check_rekey_switchover now e = e"
  by (simp add: settled_def RtpEndpoint_check_rekey_switchover_def)

lemma accept_media_simps [simp]:
  "ep_id (accept_media now h payload source e) = ep_id e"
  "known_payload_type (accept_media now h payload source e) = known_payload_type e"
  "settled rx (accept_media now h payload source e) = settled rx e"
  by (simp_all add: accept_media_def RtpEndpoint_latch_remote_addr_def known_payload_type_def settled_def fun_eq_iff Let_def)

lemma handle_settled:
  assumes "settled rx e" "expects a t0 e" "t0 \<le> t" "RtpHeader_parse d = Some w"
    "known_payload_type e (rh_payload_type w)"
    and u: "unprotect_dual (SrtpContext_unprotect lib) None rx d = (r, None, rx')"
  obtains e' where "RtpEndpoint_handle_rtp_at lib now e d a t = (Option.bind r (routed_packet (ep_id e)), e')"
    "settled rx' e'" "expects a t0 e'" "known_payload_type e' = known_payload_type e" "ep_id e' = ep_id e"
proof -
  let ?e1 = "e\<lparr>ep_srtp_rx_new := None, ep_srtp_rx := rx'\<rparr>"
  have un: "unprotect_rtp lib d e = (r, ?e1)"
    using assms(1) u by (simp add: unprotect_rtp_def settled_def)
  have frame: "settled rx' ?e1" "expects a t0 ?e1" "known_payload_type ?e1 = known_payload_type e" "ep_id ?e1 = ep_id e"
    using assms(1,2) expects_cong [of ?e1 e a t0]
    by (simp_all add: settled_def known_payload_type_def fun_eq_iff)
  have out: "RtpEndpoint_handle_rtp_at lib now e d a t =
    (case r of None \<Rightarrow> (None, ?e1) | Some d \<Rightarrow> (case RtpHeader_parse d of None \<Rightarrow> (None, ?e1) | Some h \<Rightarrow>
      (case checked_payload h d of None \<Rightarrow> (None, ?e1) | Some payload \<Rightarrow>
        (routed_packet (ep_id e) d, accept_media now h payload a ?e1))))"
    using assms(4,5) expects_allowed [OF assms(2,3)] frame(4)
    by (simp add: RtpEndpoint_handle_rtp_at_def settled_switchover [OF assms(1)] un routed_packet_def
        split: option.split)
  show thesis
    using that [OF _ frame] that [of "accept_media now h payload a ?e1" for h payload] frame
      expects_accept [OF frame(2)]
    by (cases r; cases "RtpHeader_parse (the r)"; cases "checked_payload (the (RtpHeader_parse (the r))) (the r)")
      (auto simp: out routed_packet_def)
qed

end
