(* ===== verification/Rtp_Negotiation.thy ===== *)
theory Rtp_Negotiation
  imports Rtp_Media
begin

text \<open>
  Offer and answer of a plain RTP or SRTP endpoint: the constructors and the negotiation handlers of
  \<open>src/src/session/endpoint_rtp.rs\<close>. A handler that fails returns its error together with the
  endpoint as it left it, so that a partial update is visible.
\<close>

section \<open>Definitions\<close>

definition rtcp_addr_from_rtp :: "socket_addr \<Rightarrow> socket_addr option" where
  "rtcp_addr_from_rtp addr =
     (if sa_port addr = 65535 then None else Some (addr\<lparr>sa_port := sa_port addr + 1\<rparr>))"

definition remote_srtp_contexts ::
  "crypto_lib \<Rightarrow> sdp_crypto \<Rightarrow> endpoint_error + (srtp_context \<times> srtcp_context)" where
  "remote_srtp_contexts lib crypto =
     (case SrtpContext_from_sdes_key_with_lifetime lib (cy_key_b64 crypto) (crypto_lifetime crypto) of
        Inl err \<Rightarrow> Inl (SrtpError err)
      | Inr srtp \<Rightarrow>
          (case SrtcpContext_from_sdes_key_with_lifetime lib (cy_key_b64 crypto) (crypto_lifetime crypto) of
             Inl err \<Rightarrow> Inl (SrtpError err)
           | Inr srtcp \<Rightarrow> Inr (srtp, srtcp)))"

definition endpoint_direction_from_sdp :: "string \<Rightarrow> endpoint_direction option" where
  "endpoint_direction_from_sdp remote_dir =
     (if remote_dir = ''sendrecv'' then Some SendRecv
      else if remote_dir = ''recvonly'' then Some RecvOnly
      else if remote_dir = ''sendonly'' then Some SendOnly
      else if remote_dir = ''inactive'' then Some Inactive
      else None)"

text \<open>The direction, the addresses and the codecs of an answer, as the handlers share them.\<close>

definition apply_direction :: "parsed_sdp \<Rightarrow> rtp_endpoint \<Rightarrow> rtp_endpoint" where
  "apply_direction parsed e =
     (case Option.bind (ps_direction parsed) endpoint_direction_from_sdp of
        None \<Rightarrow> e
      | Some dir \<Rightarrow>
          let e = e\<lparr>ep_last_remote_direction := Some dir\<rparr>
          in if ep_direction_auto e then e\<lparr>ep_direction := dir\<rparr> else e)"

definition apply_rtcp_addr :: "parsed_sdp \<Rightarrow> rtp_endpoint \<Rightarrow> rtp_endpoint" where
  "apply_rtcp_addr parsed e =
     (case ps_remote_addr parsed of
        None \<Rightarrow> e
      | Some addr \<Rightarrow>
          if ep_rtcp_mux e then e\<lparr>ep_remote_rtcp_addr := Some addr\<rparr>
          else e\<lparr>ep_remote_rtcp_addr :=
                   (case ps_remote_rtcp_addr parsed of Some a \<Rightarrow> Some a | None \<Rightarrow> rtcp_addr_from_rtp addr)\<rparr>)"

definition apply_remote_addr :: "parsed_sdp \<Rightarrow> rtp_endpoint \<Rightarrow> rtp_endpoint" where
  "apply_remote_addr parsed e =
     (let e = e\<lparr>ep_remote_rtp_addr := ps_remote_addr parsed\<rparr>;
          e = (if ps_rtcp_mux parsed then e\<lparr>ep_rtcp_mux := True\<rparr> else e)
      in apply_rtcp_addr parsed e)"

definition answer_codecs :: "rtp_endpoint \<Rightarrow> sdp_codec list" where
  "answer_codecs e =
     (case ep_send_codec e of
        None \<Rightarrow> ep_codecs e
      | Some send \<Rightarrow> send # filter (\<lambda>c. cd_pt send \<noteq> cd_pt c) (ep_codecs e))"

text \<open>A fresh key for our own packets, from 30 random bytes.\<close>

definition install_tx_key :: "crypto_lib \<Rightarrow> bytes \<Rightarrow> rtp_endpoint \<Rightarrow> (endpoint_error + string) \<times> rtp_endpoint" where
  "install_tx_key lib key_bytes e =
     (let key_b64 = cl_base64_encode lib key_bytes in
      case SrtpContext_from_sdes_key lib key_b64 of
        Inl err \<Rightarrow> (Inl (SrtpError err), e)
      | Inr srtp_tx \<Rightarrow>
          let e = e\<lparr>ep_srtp_tx := Some srtp_tx\<rparr> in
          case SrtcpContext_from_sdes_key lib key_b64 of
            Inl err \<Rightarrow> (Inl (SrtpError err), e)
          | Inr srtcp_tx \<Rightarrow>
              (Inr key_b64, e\<lparr>ep_srtcp_tx := Some srtcp_tx, ep_srtp_tx_key_b64 := Some key_b64\<rparr>))"

definition crypto_of_key :: "string \<Rightarrow> sdp_crypto" where
  "crypto_of_key key_b64 =
     \<lparr>cy_tag = 1, cy_suite = SDES_SUITE, cy_key_b64 = key_b64, cy_key_lifetime_packets = None\<rparr>"

definition local_addr :: "ip_addr \<Rightarrow> rtp_endpoint \<Rightarrow> socket_addr" where
  "local_addr bind_ip e = \<lparr>sa_ip = bind_ip, sa_port = sa_port (ep_local_rtp_addr e)\<rparr>"

subsection \<open>Answering an offer\<close>

definition choose_codecs :: "parsed_sdp \<Rightarrow> string option \<Rightarrow> rtp_endpoint \<Rightarrow> endpoint_error + rtp_endpoint" where
  "choose_codecs parsed codec e =
     (let send_codec =
            (case codec of
               Some name \<Rightarrow>
                 (case find (\<lambda>c. eq_ignore_ascii_case (cd_name c) name \<and> \<not> is_telephone_event c) (ps_codecs parsed) of
                    None \<Rightarrow> Inl CodecNotOffered
                  | Some c \<Rightarrow> Inr (Some c))
             | None \<Rightarrow> Inr (select_answer_codec (ps_codecs parsed)))
      in case send_codec of
           Inl err \<Rightarrow> Inl err
         | Inr send_codec \<Rightarrow>
             let recv_clock_rate = (case send_codec of Some c \<Rightarrow> cd_clock_rate c | None \<Rightarrow> 8000);
                 telephone = select_telephone_event_codec (ps_codecs parsed) recv_clock_rate;
                 telephone_event_pt = map_option cd_pt telephone
             in Inr (e\<lparr>ep_send_codec := send_codec, ep_recv_clock_rate := recv_clock_rate,
                       ep_telephone_event_pt := telephone_event_pt,
                       ep_telephone_event_clock_rate :=
                         (case telephone of Some c \<Rightarrow> cd_clock_rate c | None \<Rightarrow> 8000),
                       ep_codecs := (case send_codec of Some c \<Rightarrow> [c] | None \<Rightarrow> [])
                         @ take 1 (filter (\<lambda>c. Some (cd_pt c) = telephone_event_pt) (ps_codecs parsed))\<rparr>))"

text \<open>The keys of an answer: the offered key decrypts what we receive, a fresh one encrypts.\<close>

definition answer_keys ::
  "crypto_lib \<Rightarrow> bytes \<Rightarrow> parsed_sdp \<Rightarrow> rtp_endpoint \<Rightarrow> endpoint_error + (sdp_crypto option \<times> rtp_endpoint)" where
  "answer_keys lib key_bytes parsed e =
     (case ps_crypto parsed of
        None \<Rightarrow> Inr (None, e)
      | Some crypto \<Rightarrow>
          (case remote_srtp_contexts lib crypto of
             Inl err \<Rightarrow> Inl err
           | Inr (srtp_rx, srtcp_rx) \<Rightarrow>
               let e = e\<lparr>ep_srtp_rx := Some srtp_rx, ep_srtcp_rx := Some srtcp_rx,
                         ep_srtp_rx_key_b64 := Some (cy_key_b64 crypto)\<rparr>
               in case install_tx_key lib key_bytes e of
                    (Inl err, _) \<Rightarrow> Inl err
                  | (Inr key_b64, e) \<Rightarrow>
                      Inr (Some \<lparr>cy_tag = cy_tag crypto, cy_suite = cy_suite crypto, cy_key_b64 = key_b64,
                                 cy_key_lifetime_packets = None\<rparr>, e)))"

definition local_codec :: "sdp_codec \<Rightarrow> sdp_codec" where
  "local_codec codec = (if cd_name codec = ''opus'' then codec\<lparr>cd_fmtp := cd_fmtp CODEC_OPUS\<rparr> else codec)"

definition RtpEndpoint_from_offer_with_codec ::
  "crypto_lib \<Rightarrow> instant \<Rightarrow> u32 \<Rightarrow> u16 \<Rightarrow> bytes \<Rightarrow> endpoint_id \<Rightarrow> endpoint_direction \<Rightarrow> string \<Rightarrow> socket_addr
     \<Rightarrow> ip_addr \<Rightarrow> string option \<Rightarrow> endpoint_error + (rtp_endpoint \<times> string)" where
  "RtpEndpoint_from_offer_with_codec lib now random_ssrc random_seq key_bytes eid direction offer_sdp rtp_addr
       bind_ip codec =
     (let parsed = parse_sdp lib offer_sdp in
      case validate_plain_offer lib parsed of
        Inl err \<Rightarrow> Inl (SdpError err)
      | Inr _ \<Rightarrow>
          let e = RtpEndpoint_new now random_ssrc random_seq eid direction rtp_addr;
              e = apply_direction parsed e;
              e = e\<lparr>ep_remote_rtp_addr := ps_remote_addr parsed, ep_rtcp_mux := ps_rtcp_mux parsed\<rparr>;
              e = apply_rtcp_addr parsed e
          in case choose_codecs parsed codec e of
               Inl err \<Rightarrow> Inl err
             | Inr e \<Rightarrow>
                 (case answer_keys lib key_bytes parsed e of
                    Inl err \<Rightarrow> Inl err
                  | Inr (answer_crypto, e) \<Rightarrow>
                      (case generate_sdp_answer_for_offer (local_addr bind_ip e) (sa_port (ep_local_rtp_addr e))
                              (map local_codec (answer_codecs e)) answer_crypto (ucast eid) parsed of
                         Inl err \<Rightarrow> Inl (SdpError err)
                       | Inr answer \<Rightarrow> Inr (e\<lparr>ep_state := Connected\<rparr>, answer))))"

subsection \<open>Making an offer\<close>

definition RtpEndpoint_create_offer ::
  "crypto_lib \<Rightarrow> instant \<Rightarrow> u32 \<Rightarrow> u16 \<Rightarrow> bytes \<Rightarrow> endpoint_id \<Rightarrow> endpoint_direction \<Rightarrow> socket_addr
     \<Rightarrow> ip_addr \<Rightarrow> sdp_codec list \<Rightarrow> rtp_media_security \<Rightarrow> endpoint_error + (rtp_endpoint \<times> string)" where
  "RtpEndpoint_create_offer lib now random_ssrc random_seq key_bytes eid direction rtp_addr bind_ip codecs
       media_security =
     (let te_codec = find is_telephone_event codecs;
          profile = (case find (\<lambda>c. cd_name c = ''opus'') codecs of
                       Some c \<Rightarrow> OpusProfile_from_codec c | None \<Rightarrow> OpusProfile_default);
          e = (RtpEndpoint_new now random_ssrc random_seq eid direction rtp_addr)
            \<lparr>ep_codecs := codecs, ep_opus_receive_profile := profile\<lparr>op_max_packet_ms := 20\<rparr>,
             ep_offer_codec_constrained := (length (filter (\<lambda>c. \<not> is_telephone_event c) codecs) = 1),
             ep_send_codec := find (\<lambda>c. \<not> is_telephone_event c) codecs,
             ep_telephone_event_pt := map_option cd_pt te_codec,
             ep_telephone_event_clock_rate := (case te_codec of Some c \<Rightarrow> cd_clock_rate c | None \<Rightarrow> 8000)\<rparr>;
          keyed = (if media_security = PlainRtp then Inr (None, e)
                   else case install_tx_key lib key_bytes e of
                     (Inl err, _) \<Rightarrow> Inl err
                   | (Inr key_b64, e) \<Rightarrow> Inr (Some (crypto_of_key key_b64), e))
      in case keyed of
           Inl err \<Rightarrow> Inl err
         | Inr (crypto, e) \<Rightarrow>
             let e = e\<lparr>ep_srtp_optional := (media_security = OptionalSrtp)\<rparr>;
                 offer = (case (ep_srtp_optional e, crypto) of
                    (True, Some c) \<Rightarrow>
                      generate_osrtp_sdp_offer (local_addr bind_ip e) (sa_port rtp_addr) (ep_codecs e) c (ucast eid)
                  | _ \<Rightarrow> generate_sdp_offer (local_addr bind_ip e) (sa_port rtp_addr) (ep_codecs e) crypto (ucast eid))
             in Inr (e\<lparr>ep_state := Connecting\<rparr>, offer))"

subsection \<open>Accepting an answer, and renegotiation\<close>

definition RtpEndpoint_reject_family_change :: "rtp_endpoint \<Rightarrow> socket_addr option \<Rightarrow> endpoint_error + unit" where
  "RtpEndpoint_reject_family_change e remote =
     (case remote of
        Some remote \<Rightarrow>
          if is_ipv6 (sa_ip remote) \<noteq> is_ipv6 (sa_ip (ep_local_rtp_addr e)) then Inl FamilyMismatch else Inr ()
      | None \<Rightarrow> Inr ())"

definition RtpEndpoint_validate_remote_srtp_lifetime_update ::
  "rtp_endpoint \<Rightarrow> sdp_crypto \<Rightarrow> endpoint_error + unit" where
  "RtpEndpoint_validate_remote_srtp_lifetime_update e crypto =
     (if ep_srtp_rx_key_b64 e \<noteq> Some (cy_key_b64 crypto) then Inr ()
      else case (case ep_srtp_rx_new e of Some cx \<Rightarrow> Some cx | None \<Rightarrow> ep_srtp_rx e) of
        None \<Rightarrow> Inl NoReceiveContext
      | Some cx \<Rightarrow> if sx_packet_lifetime cx < crypto_lifetime crypto then Inl LifetimeExpanded else Inr ())"

definition RtpEndpoint_tighten_remote_srtp_lifetime :: "sdp_crypto \<Rightarrow> rtp_endpoint \<Rightarrow> rtp_endpoint" where
  "RtpEndpoint_tighten_remote_srtp_lifetime crypto e =
     (let n = crypto_lifetime crypto;
          e = (case ep_srtp_rx_new e of
                 Some cx \<Rightarrow> e\<lparr>ep_srtp_rx_new := Some (SrtpContext_tighten_packet_lifetime cx n)\<rparr>
               | None \<Rightarrow> e\<lparr>ep_srtp_rx := map_option (\<lambda>cx. SrtpContext_tighten_packet_lifetime cx n) (ep_srtp_rx e)\<rparr>)
      in case ep_srtcp_rx_new e of
           Some cx \<Rightarrow> e\<lparr>ep_srtcp_rx_new := Some (SrtcpContext_tighten_packet_lifetime cx n)\<rparr>
         | None \<Rightarrow> e\<lparr>ep_srtcp_rx := map_option (\<lambda>cx. SrtcpContext_tighten_packet_lifetime cx n) (ep_srtcp_rx e)\<rparr>)"

definition apply_rx_key ::
  "crypto_lib \<Rightarrow> instant \<Rightarrow> sdp_crypto \<Rightarrow> rtp_endpoint \<Rightarrow> (endpoint_error + unit) \<times> rtp_endpoint" where
  "apply_rx_key lib now crypto e =
     (if ep_srtp_rx e = None then
        (case remote_srtp_contexts lib crypto of
           Inl err \<Rightarrow> (Inl err, e)
         | Inr (srtp_rx, srtcp_rx) \<Rightarrow>
             (Inr (), e\<lparr>ep_srtp_rx := Some srtp_rx, ep_srtcp_rx := Some srtcp_rx,
                        ep_srtp_rx_key_b64 := Some (cy_key_b64 crypto)\<rparr>))
      else if ep_srtp_rx_key_b64 e \<noteq> Some (cy_key_b64 crypto) then
        (case remote_srtp_contexts lib crypto of
           Inl err \<Rightarrow> (Inl err, e)
         | Inr (srtp_rx, srtcp_rx) \<Rightarrow>
             (Inr (), e\<lparr>ep_srtp_rx_new := Some srtp_rx, ep_srtcp_rx_new := Some srtcp_rx,
                        ep_rekey_switchover := Some (now + 5000000000),
                        ep_srtp_rx_key_b64 := Some (cy_key_b64 crypto)\<rparr>))
      else (Inr (), RtpEndpoint_tighten_remote_srtp_lifetime crypto e))"

definition apply_crypto ::
  "crypto_lib \<Rightarrow> instant \<Rightarrow> bytes \<Rightarrow> parsed_sdp \<Rightarrow> rtp_endpoint \<Rightarrow> (endpoint_error + unit) \<times> rtp_endpoint" where
  "apply_crypto lib now key_bytes parsed e =
     (case ps_crypto parsed of
        None \<Rightarrow> (Inr (), e)
      | Some crypto \<Rightarrow>
          (case apply_rx_key lib now crypto e of
             (Inl err, e) \<Rightarrow> (Inl err, e)
           | (Inr _, e) \<Rightarrow>
               if ep_srtp_tx e = None then
                 (case install_tx_key lib key_bytes e of
                    (Inl err, e) \<Rightarrow> (Inl err, e)
                  | (Inr _, e) \<Rightarrow> (Inr (), e))
               else (Inr (), e)))"

definition selects_plain_rtp :: "parsed_sdp \<Rightarrow> rtp_endpoint \<Rightarrow> bool" where
  "selects_plain_rtp parsed e \<longleftrightarrow>
     ep_srtp_tx_key_b64 e \<noteq> None \<and> ps_crypto parsed = None \<and> ep_srtp_optional e
     \<and> ep_srtp_rx e = None \<and> ep_srtp_rx_new e = None"

definition has_unoffered_format :: "parsed_sdp \<Rightarrow> rtp_endpoint \<Rightarrow> bool" where
  "has_unoffered_format parsed e =
     (case Option.bind (ps_selected_audio_section parsed) (nth_opt (ps_media_sections parsed)) of
        None \<Rightarrow> False
      | Some section \<Rightarrow>
          list_ex (\<lambda>format. case parse_u8 format of
                     None \<Rightarrow> True
                   | Some pt \<Rightarrow> \<not> list_ex (\<lambda>c. cd_pt c = pt) (ep_codecs e)) (ms_formats section))"

definition negotiated_codecs :: "parsed_sdp \<Rightarrow> rtp_endpoint \<Rightarrow> sdp_codec list" where
  "negotiated_codecs parsed e =
     filter (\<lambda>c. ep_codecs e = []
       \<or> (if ep_offer_codec_constrained e
           then (cd_pt c, to_ascii_uppercase (cd_name c), cd_clock_rate c)
             \<in> set (map (\<lambda>c. (cd_pt c, to_ascii_uppercase (cd_name c), cd_clock_rate c)) (ep_codecs e))
           else list_ex (\<lambda>original. eq_ignore_ascii_case (cd_name original) (cd_name c)) (ep_codecs e)))
       (ps_codecs parsed)"

text \<open>Everything \<open>accept_answer\<close> checks before it changes the endpoint, in its order; the result is
  the negotiated list of codecs.\<close>

definition check_answer :: "crypto_lib \<Rightarrow> parsed_sdp \<Rightarrow> rtp_endpoint \<Rightarrow> endpoint_error + sdp_codec list" where
  "check_answer lib parsed e =
     (case validate_plain_transport lib parsed of
        Inl err \<Rightarrow> Inl (SdpError err)
      | Inr _ \<Rightarrow>
          if (ep_srtp_tx_key_b64 e \<noteq> None) \<noteq> (ps_crypto parsed \<noteq> None) \<and> \<not> selects_plain_rtp parsed e
          then Inl SecurityMismatch
          else case RtpEndpoint_reject_family_change e (ps_remote_addr parsed) of
            Inl err \<Rightarrow> Inl err
          | Inr _ \<Rightarrow>
              if ps_remote_addr parsed = None then Inl NoAnswerAddress
              else if ep_offer_codec_constrained e \<and> has_unoffered_format parsed e
              then Inl UnofferedPayloadType
              else if ps_codecs parsed = [] then Inl NoSupportedCodec
              else
                let valid = negotiated_codecs parsed e in
                if \<not> list_ex (\<lambda>c. \<not> is_telephone_event c) valid then Inl NoOfferedCodec
                else case ps_crypto parsed of
                  None \<Rightarrow> Inr valid
                | Some crypto \<Rightarrow>
                    (case RtpEndpoint_validate_remote_srtp_lifetime_update e crypto of
                       Inl err \<Rightarrow> Inl err
                     | Inr _ \<Rightarrow> Inr valid))"

definition select_plain_rtp :: "parsed_sdp \<Rightarrow> rtp_endpoint \<Rightarrow> rtp_endpoint" where
  "select_plain_rtp parsed e =
     (if selects_plain_rtp parsed e
      then e\<lparr>ep_srtp_tx := None, ep_srtcp_tx := None, ep_srtp_tx_key_b64 := None, ep_srtp_optional := False\<rparr>
      else e)"

definition apply_codecs :: "parsed_sdp \<Rightarrow> sdp_codec list \<Rightarrow> rtp_endpoint \<Rightarrow> rtp_endpoint" where
  "apply_codecs parsed valid e =
     (let previous_clock_rate = map_option cd_clock_rate (ep_send_codec e);
          e = e\<lparr>ep_codecs := valid, ep_send_codec := find (\<lambda>c. \<not> is_telephone_event c) valid\<rparr>;
          e = (if previous_clock_rate \<noteq> map_option cd_clock_rate (ep_send_codec e)
                  \<and> rs_remote_receiver_report (ep_rtcp_stats e) \<noteq> None
               then e\<lparr>ep_rtcp_stats := RtcpStats_reset_remote_receiver_report (ep_rtcp_stats e)\<rparr> else e);
          e = e\<lparr>ep_telephone_event_pt := ps_telephone_event_pt parsed,
                ep_telephone_event_clock_rate :=
                  (case ps_telephone_event_clock_rate parsed of Some r \<Rightarrow> r | None \<Rightarrow> 8000)\<rparr>
      in case ep_send_codec e of
           Some c \<Rightarrow> e\<lparr>ep_recv_clock_rate := cd_clock_rate c\<rparr>
         | None \<Rightarrow> e)"

definition RtpEndpoint_accept_answer ::
  "crypto_lib \<Rightarrow> instant \<Rightarrow> bytes \<Rightarrow> rtp_endpoint \<Rightarrow> string \<Rightarrow> (endpoint_error + unit) \<times> rtp_endpoint" where
  "RtpEndpoint_accept_answer lib now key_bytes e answer_sdp =
     (let parsed = parse_sdp lib answer_sdp in
      case check_answer lib parsed e of
        Inl err \<Rightarrow> (Inl err, e)
      | Inr valid \<Rightarrow>
          let e = select_plain_rtp parsed e;
              e = apply_direction parsed e;
              e = apply_remote_addr parsed e;
              e = apply_codecs parsed valid e
          in case apply_crypto lib now key_bytes parsed e of
               (Inl err, e) \<Rightarrow> (Inl err, e)
             | (Inr _, e) \<Rightarrow>
                 (Inr (), (RtpEndpoint_reset_addr_lock now (e\<lparr>ep_state := Connected\<rparr>))\<lparr>ep_remote_ssrc := None\<rparr>))"

definition check_update :: "crypto_lib \<Rightarrow> parsed_sdp \<Rightarrow> rtp_endpoint \<Rightarrow> endpoint_error + unit" where
  "check_update lib parsed e =
     (case validate_plain_offer lib parsed of
        Inl err \<Rightarrow> Inl (SdpError err)
      | Inr _ \<Rightarrow>
          if RtpEndpoint_has_srtp e \<and> ps_crypto parsed = None then Inl SecurityRemoved
          else case RtpEndpoint_reject_family_change e (ps_remote_addr parsed) of
            Inl err \<Rightarrow> Inl err
          | Inr _ \<Rightarrow>
              (case ps_crypto parsed of
                 None \<Rightarrow> Inr ()
               | Some crypto \<Rightarrow> RtpEndpoint_validate_remote_srtp_lifetime_update e crypto))"

definition update_answer_crypto :: "parsed_sdp \<Rightarrow> rtp_endpoint \<Rightarrow> sdp_crypto option" where
  "update_answer_crypto parsed e =
     map_option (\<lambda>key. case ps_crypto parsed of
         Some c \<Rightarrow> \<lparr>cy_tag = cy_tag c, cy_suite = cy_suite c, cy_key_b64 = key, cy_key_lifetime_packets = None\<rparr>
       | None \<Rightarrow> crypto_of_key key) (ep_srtp_tx_key_b64 e)"

definition RtpEndpoint_update_remote_sdp ::
  "crypto_lib \<Rightarrow> instant \<Rightarrow> bytes \<Rightarrow> rtp_endpoint \<Rightarrow> string \<Rightarrow> (endpoint_error + string) \<times> rtp_endpoint" where
  "RtpEndpoint_update_remote_sdp lib now key_bytes e sdp =
     (let parsed = parse_sdp lib sdp in
      case check_update lib parsed e of
        Inl err \<Rightarrow> (Inl err, e)
      | Inr _ \<Rightarrow>
          let e = apply_remote_addr parsed (apply_direction parsed e) in
          case apply_crypto lib now key_bytes parsed e of
            (Inl err, e) \<Rightarrow> (Inl err, e)
          | (Inr _, e) \<Rightarrow>
              let e = (RtpEndpoint_reset_addr_lock now e)\<lparr>ep_remote_ssrc := None\<rparr> in
              case generate_sdp_answer_for_offer (local_addr (sa_ip (ep_local_rtp_addr e)) e)
                     (sa_port (ep_local_rtp_addr e)) (answer_codecs e) (update_answer_crypto parsed e)
                     (ucast (ep_id e)) parsed of
                Inl err \<Rightarrow> (Inl (SdpError err), e)
              | Inr answer \<Rightarrow> (Inr answer, e))"

definition RtpEndpoint_srtp_rekey :: "crypto_lib \<Rightarrow> bytes \<Rightarrow> rtp_endpoint \<Rightarrow> (endpoint_error + string) \<times> rtp_endpoint" where
  "RtpEndpoint_srtp_rekey lib key_bytes e =
     (if ep_srtp_tx e = None then (Inl SrtpInactive, e)
      else case install_tx_key lib key_bytes e of
        (Inl err, e) \<Rightarrow> (Inl err, e)
      | (Inr key_b64, e) \<Rightarrow>
          let crypto = crypto_of_key key_b64;
              addr = local_addr (sa_ip (ep_local_rtp_addr e)) e;
              port = sa_port (ep_local_rtp_addr e)
          in (Inr (if ep_srtp_optional e
                   then generate_osrtp_sdp_offer addr port (ep_codecs e) crypto (ucast (ep_id e))
                   else generate_sdp_offer addr port (ep_codecs e) (Some crypto) (ucast (ep_id e))), e))"

section \<open>Keys\<close>

text \<open>What the code relies on of the \<open>base64\<close> crate: decoding undoes encoding.\<close>

definition base64_ok :: "crypto_lib \<Rightarrow> bool" where
  "base64_ok lib \<longleftrightarrow> (\<forall>bs. length bs = 30 \<longrightarrow> cl_base64_decode lib (cl_base64_encode lib bs) = Some bs)"

lemma install_tx_key_ok:
  assumes "base64_ok lib" "length key_bytes = 30"
  obtains tx ctx where
    "SrtpContext_from_sdes_key lib (cl_base64_encode lib key_bytes) = Inr tx"
    "SrtcpContext_from_sdes_key lib (cl_base64_encode lib key_bytes) = Inr ctx"
    "\<And>e. install_tx_key lib key_bytes e = (Inr (cl_base64_encode lib key_bytes),
       e\<lparr>ep_srtp_tx := Some tx, ep_srtcp_tx := Some ctx,
         ep_srtp_tx_key_b64 := Some (cl_base64_encode lib key_bytes)\<rparr>)"
  using assms
  by (auto simp: base64_ok_def install_tx_key_def SrtpContext_from_sdes_key_def SrtcpContext_from_sdes_key_def
      SrtpContext_from_sdes_key_with_lifetime_def SrtcpContext_from_sdes_key_with_lifetime_def srtp_consts Let_def)

text \<open>A key the parser supports gives both contexts.\<close>

lemma supported_contexts:
  assumes "supported_sdes_key lib crypto"
  obtains rx rxc where "remote_srtp_contexts lib crypto = Inr (rx, rxc)"
    "SrtpContext_from_sdes_key_with_lifetime lib (cy_key_b64 crypto) (crypto_lifetime crypto) = Inr rx"
    "SrtcpContext_from_sdes_key_with_lifetime lib (cy_key_b64 crypto) (crypto_lifetime crypto) = Inr rxc"
  using assms
  by (auto simp: supported_sdes_key_def remote_srtp_contexts_def SrtpContext_from_sdes_key_with_lifetime_def
      SrtcpContext_from_sdes_key_with_lifetime_def Let_def split: option.splits if_splits)

lemma apply_rx_key_ok:
  assumes "supported_sdes_key lib crypto"
  shows "fst (apply_rx_key lib now crypto e) = Inr ()" "ep_srtp_tx (snd (apply_rx_key lib now crypto e)) = ep_srtp_tx e"
  using assms
  by (auto elim!: supported_contexts simp: apply_rx_key_def RtpEndpoint_tighten_remote_srtp_lifetime_def Let_def
      split: option.splits)

lemma apply_crypto_ok:
  assumes "base64_ok lib" "length key_bytes = 30"
    and "\<And>c. ps_crypto parsed = Some c \<Longrightarrow> supported_sdes_key lib c"
  shows "fst (apply_crypto lib now key_bytes parsed e) = Inr ()"
proof (cases "ps_crypto parsed")
  case (Some c)
  obtain e' where "apply_rx_key lib now c e = (Inr (), e')"
    using apply_rx_key_ok(1) [OF assms(3) [OF Some]] by (metis prod.collapse)
  moreover obtain e'' k where "install_tx_key lib key_bytes e' = (Inr k, e'')"
    using install_tx_key_ok [OF assms(1,2)] by metis
  ultimately show ?thesis by (simp add: apply_crypto_def Some)
qed (simp add: apply_crypto_def)

section \<open>Failed negotiations\<close>

lemma validated_key:
  assumes "validate_selected_plain_media lib p = Inr u" "ps_crypto p = Some c"
  shows "supported_sdes_key lib c"
  using assms by (auto simp: validate_selected_plain_media_def Let_def split: if_splits option.splits)

lemma validated_section:
  "validate_selected_plain_media lib p = Inr u \<Longrightarrow> ps_selected_audio_section p \<noteq> None"
  by (auto simp: validate_selected_plain_media_def split: if_splits)

lemma validated:
  "validate_plain_transport lib p = Inr u \<Longrightarrow> validate_selected_plain_media lib p = Inr u"
  "validate_plain_offer lib p = Inr u \<Longrightarrow> validate_selected_plain_media lib p = Inr u"
  by (auto simp: validate_plain_transport_def validate_plain_offer_def split: if_splits)

lemma check_answer_validated:
  "check_answer lib parsed e = Inr valid \<Longrightarrow> validate_selected_plain_media lib parsed = Inr ()"
  by (auto simp: check_answer_def intro: validated split: sum.splits)

lemma check_update_validated:
  "check_update lib parsed e = Inr u \<Longrightarrow> validate_selected_plain_media lib parsed = Inr ()"
  by (auto simp: check_update_def intro: validated split: sum.splits)

text \<open>The parser selects an audio section only, so that answering it cannot fail.\<close>

lemma generate_answer_ok:
  assumes "validate_selected_plain_media lib (parse_sdp lib sdp) = Inr u"
  shows "\<exists>answer. generate_sdp_answer_for_offer addr port codecs crypto sid (parse_sdp lib sdp) = Inr answer"
proof -
  let ?p = "parse_sdp lib sdp"
  obtain best where best: "preferred (ps_media_sections ?p) best" "ps_selected_audio_section ?p = map_option fst best"
    using parse_sdp_sections by blast
  with validated_section [OF assms] obtain i b where ib: "best = Some (i, b)" by auto
  with best(1) have "i < length (ps_media_sections ?p)" "audio_section_preference (ps_media_sections ?p ! i) = Some b"
    by (simp_all add: preferred_def)
  moreover from this have "ms_media (ps_media_sections ?p ! i) = ''audio''"
    by (auto simp: audio_section_preference_def Let_def split: if_splits)
  ultimately show ?thesis using best(2) ib by (simp add: generate_sdp_answer_for_offer_def nth_opt_def)
qed

lemma accept_answer_cases:
  assumes "base64_ok lib" "length key_bytes = 30"
  obtains (refused) err where "RtpEndpoint_accept_answer lib now key_bytes e answer = (Inl err, e)"
  | (accepted) valid e' where "check_answer lib (parse_sdp lib answer) e = Inr valid"
      "apply_crypto lib now key_bytes (parse_sdp lib answer) (apply_codecs (parse_sdp lib answer) valid
         (apply_remote_addr (parse_sdp lib answer) (apply_direction (parse_sdp lib answer)
           (select_plain_rtp (parse_sdp lib answer) e)))) = (Inr (), e')"
      "RtpEndpoint_accept_answer lib now key_bytes e answer
        = (Inr (), (RtpEndpoint_reset_addr_lock now (e'\<lparr>ep_state := Connected\<rparr>))\<lparr>ep_remote_ssrc := None\<rparr>)"
proof (cases "check_answer lib (parse_sdp lib answer) e")
  case (Inl err)
  then show thesis by (intro refused) (simp add: RtpEndpoint_accept_answer_def)
next
  case (Inr valid)
  let ?p = "parse_sdp lib answer"
  let ?e = "apply_codecs ?p valid (apply_remote_addr ?p (apply_direction ?p (select_plain_rtp ?p e)))"
  have "fst (apply_crypto lib now key_bytes ?p ?e) = Inr ()"
    using validated_key [OF check_answer_validated [OF Inr]] by (rule apply_crypto_ok [OF assms])
  then obtain e' where "apply_crypto lib now key_bytes ?p ?e = (Inr (), e')" by (metis prod.collapse)
  then show thesis using Inr by (intro accepted) (simp_all add: RtpEndpoint_accept_answer_def)
qed

lemma update_remote_sdp_cases:
  assumes "base64_ok lib" "length key_bytes = 30"
  obtains (refused) err where "RtpEndpoint_update_remote_sdp lib now key_bytes e sdp = (Inl err, e)"
  | (updated) e' answer where "check_update lib (parse_sdp lib sdp) e = Inr ()"
      "apply_crypto lib now key_bytes (parse_sdp lib sdp)
         (apply_remote_addr (parse_sdp lib sdp) (apply_direction (parse_sdp lib sdp) e)) = (Inr (), e')"
      "RtpEndpoint_update_remote_sdp lib now key_bytes e sdp
        = (Inr answer, (RtpEndpoint_reset_addr_lock now e')\<lparr>ep_remote_ssrc := None\<rparr>)"
proof (cases "check_update lib (parse_sdp lib sdp) e")
  case (Inl err)
  then show thesis by (intro refused) (simp add: RtpEndpoint_update_remote_sdp_def)
next
  case (Inr u)
  let ?p = "parse_sdp lib sdp"
  let ?e = "apply_remote_addr ?p (apply_direction ?p e)"
  note ok = check_update_validated [OF Inr]
  have "fst (apply_crypto lib now key_bytes ?p ?e) = Inr ()"
    using validated_key [OF ok] by (rule apply_crypto_ok [OF assms])
  then obtain e' where e': "apply_crypto lib now key_bytes ?p ?e = (Inr (), e')" by (metis prod.collapse)
  let ?e2 = "(RtpEndpoint_reset_addr_lock now e')\<lparr>ep_remote_ssrc := None\<rparr>"
  obtain answer where "generate_sdp_answer_for_offer (local_addr (sa_ip (ep_local_rtp_addr ?e2)) ?e2)
      (sa_port (ep_local_rtp_addr ?e2)) (answer_codecs ?e2) (update_answer_crypto ?p ?e2) (ucast (ep_id ?e2)) ?p = Inr answer"
    using generate_answer_ok [OF ok] by blast
  then show thesis using Inr e'
    by (intro updated [of e' answer]) (simp_all add: RtpEndpoint_update_remote_sdp_def Let_def)
qed

section \<open>Established security\<close>

text \<open>Every event of an endpoint's life after its creation.\<close>

datatype endpoint_event =
    Media media_event
  | Answer instant bytes string
  | Reinvite instant bytes string
  | Rekey bytes
  | Bump_Ssrc u32 u16 u32
  | Set_Direction endpoint_direction_update
  | Reset_Lock instant

fun endpoint_step :: "crypto_lib \<Rightarrow> rtp_endpoint \<Rightarrow> endpoint_event \<Rightarrow> media_output option \<times> rtp_endpoint" where
  "endpoint_step lib e (Media ev) = (let (out, e) = media_step lib e ev in (Some out, e))"
| "endpoint_step lib e (Answer now key_bytes sdp) = (None, snd (RtpEndpoint_accept_answer lib now key_bytes e sdp))"
| "endpoint_step lib e (Reinvite now key_bytes sdp) = (None, snd (RtpEndpoint_update_remote_sdp lib now key_bytes e sdp))"
| "endpoint_step lib e (Rekey key_bytes) = (None, snd (RtpEndpoint_srtp_rekey lib key_bytes e))"
| "endpoint_step lib e (Bump_Ssrc ssrc seq ts) = (None, RtpEndpoint_bump_outbound_ssrc ssrc seq ts e)"
| "endpoint_step lib e (Set_Direction update) = (None, RtpEndpoint_set_direction_override e update)"
| "endpoint_step lib e (Reset_Lock now) = (None, RtpEndpoint_reset_addr_lock now e)"

definition secure :: "rtp_endpoint \<Rightarrow> bool" where
  "secure e \<longleftrightarrow> ep_srtp_rx e \<noteq> None \<and> ep_srtcp_rx e \<noteq> None \<and> ep_srtp_tx e \<noteq> None \<and> ep_srtcp_tx e \<noteq> None
     \<and> ep_srtp_tx_key_b64 e \<noteq> None"

text \<open>Nothing is taken in that did not authenticate, and nothing put out that is not protected.\<close>

fun protected_io :: "crypto_lib \<Rightarrow> rtp_endpoint \<Rightarrow> media_event \<Rightarrow> media_output \<Rightarrow> bool" where
  "protected_io lib e (Rtp_Datagram _ data _ _) (Routed r) =
     (\<forall>p. r = Some p \<longrightarrow> (\<exists>cx d. (ep_srtp_rx e = Some cx \<or> ep_srtp_rx_new e = Some cx)
        \<and> fst (SrtpContext_unprotect lib cx data) = Inr d \<and> routed_packet (ep_id e) d = Some p))"
| "protected_io lib e (Rtcp_Datagram _ _ data _ _) (Heard (bye, r)) =
     ((r = None \<longrightarrow> bye = None) \<and>
      (\<forall>plain. r = Some plain \<longrightarrow> (\<exists>cx. (ep_srtcp_rx e = Some cx \<or> ep_srtcp_rx_new e = Some cx)
        \<and> fst (SrtcpContext_unprotect_rtcp lib cx data) = Inr plain)))"
| "protected_io lib e (Write_Rtp _ _) (Wrote (r, to)) =
     (\<forall>b d. to = Some (b, d) \<longrightarrow> (\<exists>cx plain. ep_srtp_tx e = Some cx \<and> r = Inr (Some plain)
        \<and> fst (SrtpContext_protect lib cx plain) = Inr d))"
| "protected_io lib e (Send_Rtcp _ _ _) (Reported (r, to)) =
     (\<forall>b d. to = Some (b, d) \<longrightarrow> (\<exists>cx plain. ep_srtcp_tx e = Some cx \<and> r = Inr (Some plain)
        \<and> fst (SrtcpContext_protect_rtcp lib cx plain) = Inr d))"
| "protected_io lib e _ _ = False"

lemma unprotect_dual_cases:
  assumes "unprotect_dual f rx_new (Some rx) data = (r, rx_new', rx')"
  shows "rx' \<noteq> None"
    and "r = Some d \<Longrightarrow> \<exists>cx. (cx = rx \<or> rx_new = Some cx) \<and> fst (f cx data) = Inr d"
  using assms
  by (auto simp: unprotect_dual_def split: option.splits prod.splits sum.splits)

lemma switchover_contexts:
  fixes e now
  defines "e' \<equiv> RtpEndpoint_check_rekey_switchover now e"
  shows "ep_srtp_rx e \<noteq> None \<Longrightarrow> ep_srtp_rx e' \<noteq> None"
    and "ep_srtp_rx e' = Some cx \<Longrightarrow> ep_srtp_rx e = Some cx \<or> ep_srtp_rx_new e = Some cx"
    and "ep_srtp_rx_new e' = Some cx \<Longrightarrow> ep_srtp_rx_new e = Some cx"
    and "ep_srtcp_rx e \<noteq> None \<Longrightarrow> ep_srtcp_rx e' \<noteq> None"
    and "ep_srtcp_rx e' = Some cy \<Longrightarrow> ep_srtcp_rx e = Some cy \<or> ep_srtcp_rx_new e = Some cy"
    and "ep_srtcp_rx_new e' = Some cy \<Longrightarrow> ep_srtcp_rx_new e = Some cy"
    and "ep_srtp_tx e' = ep_srtp_tx e" "ep_srtcp_tx e' = ep_srtcp_tx e" "ep_srtp_tx_key_b64 e' = ep_srtp_tx_key_b64 e"
  unfolding e'_def
  by (auto simp: RtpEndpoint_check_rekey_switchover_def Let_def split: option.splits if_splits)

lemma secure_switchover: "secure e \<Longrightarrow> secure (RtpEndpoint_check_rekey_switchover now e)"
  using switchover_contexts [where e = e and now = now] by (simp add: secure_def)

lemma secure_frame [simp]:
  "secure (record_source_rejection e) = secure e"
  "secure (accept_media now h payload source e) = secure e"
  "secure (latch_rtcp source e) = secure e"
  "secure (e\<lparr>ep_rtcp_stats := stats\<rparr>) = secure e"
  "secure (RtpEndpoint_reset_addr_lock now e) = secure e"
  "secure (e\<lparr>ep_remote_ssrc := ssrc\<rparr>) = secure e"
  "secure (e\<lparr>ep_state := st\<rparr>) = secure e"
  "secure (RtpEndpoint_bump_outbound_ssrc a b c e) = secure e"
  "secure (RtpEndpoint_set_direction_override e update) = secure e"
  "secure (apply_direction parsed e) = secure e"
  "secure (apply_remote_addr parsed e) = secure e"
  "secure (apply_codecs parsed valid e) = secure e"
  "secure (e\<lparr>ep_last_rtcp_sent := t\<rparr>) = secure e"
  by (simp_all add: secure_def record_source_rejection_def accept_media_def RtpEndpoint_latch_remote_addr_def
      latch_rtcp_def RtpEndpoint_reset_addr_lock_def RtpEndpoint_bump_outbound_ssrc_def
      RtpEndpoint_set_direction_override_def apply_direction_def apply_remote_addr_def apply_rtcp_addr_def
      apply_codecs_def Let_def split: option.split)

lemma secure_counted [simp]: "secure (counted e p) = secure e"
  by (rule outbound_state [of e p]) (simp add: secure_def counted_def Let_def)

lemma unprotect_dual_rx: "rx \<noteq> None \<Longrightarrow> snd (snd (unprotect_dual f rx_new rx data)) \<noteq> None"
  by (auto simp: unprotect_dual_def split: option.splits prod.splits sum.splits)

lemma secure_unprotect:
  assumes "secure e"
  shows "secure (snd (unprotect_rtp lib data e))" "secure (snd (unprotect_rtcp lib data e))"
  using assms unprotect_dual_rx [of "ep_srtp_rx e" "SrtpContext_unprotect lib" "ep_srtp_rx_new e" data]
    unprotect_dual_rx [of "ep_srtcp_rx e" "SrtcpContext_unprotect_rtcp lib" "ep_srtcp_rx_new e" data]
  by (simp_all add: unprotect_rtp_def unprotect_rtcp_def secure_def split_beta)

text \<open>A datagram of either kind leaves the contexts in place, and what is taken in came out of one.\<close>

lemma secure_rtp:
  assumes "secure e"
  shows "secure (snd (RtpEndpoint_handle_rtp_at lib now e data source t))"
    "protected_io lib e (Rtp_Datagram now data source t) (Routed (fst (RtpEndpoint_handle_rtp_at lib now e data source t)))"
proof -
  let ?e0 = "RtpEndpoint_check_rekey_switchover now e"
  let ?out = "RtpEndpoint_handle_rtp_at lib now e data source t"
  obtain r e1 where u: "unprotect_rtp lib data ?e0 = (r, e1)" by fastforce
  have e0: "secure ?e0" by (rule secure_switchover [OF assms])
  have e1: "secure ?e0" "secure e1" using e0 secure_unprotect(1) [OF e0, of lib data] by (simp_all add: u)
  have "snd ?out \<in> {record_source_rejection ?e0, ?e0, e1} \<or> (\<exists>h payload. snd ?out = accept_media now h payload source e1)"
    by (auto simp: RtpEndpoint_handle_rtp_at_def u Let_def split: option.splits)
  then show "secure (snd ?out)" using e1 by auto
  show "protected_io lib e (Rtp_Datagram now data source t) (Routed (fst ?out))"
  proof (cases rule: handle_rtp_cases [of lib now e data source t])
    case (routed d e1' h payload)
    obtain rx where rx: "ep_srtp_rx ?e0 = Some rx" using e1(1) by (auto simp: secure_def)
    obtain n x where "unprotect_dual (SrtpContext_unprotect lib) (ep_srtp_rx_new ?e0) (Some rx) data = (Some d, n, x)"
      using routed(2) by (auto simp: unprotect_rtp_def rx split: prod.splits)
    from unprotect_dual_cases(2) [OF this refl] obtain cx where
      "cx = rx \<or> ep_srtp_rx_new ?e0 = Some cx" "fst (SrtpContext_unprotect lib cx data) = Inr d" by blast
    moreover have "ep_srtp_rx e = Some cx \<or> ep_srtp_rx_new e = Some cx"
      using calculation(1) rx switchover_contexts(2,3) [where e = e and now = now] by blast
    moreover have "routed_packet (ep_id e) d = fst ?out"
      using routed by (simp add: routed_packet_def)
    ultimately show ?thesis by auto
  qed simp
qed

lemma secure_rtcp:
  assumes "secure e"
  shows "secure (snd (RtpEndpoint_handle_rtcp_at lib unix now e data source t))"
    "protected_io lib e (Rtcp_Datagram unix now data source t)
       (Heard (fst (RtpEndpoint_handle_rtcp_at lib unix now e data source t)))"
proof -
  let ?e0 = "RtpEndpoint_check_rekey_switchover now e"
  let ?out = "RtpEndpoint_handle_rtcp_at lib unix now e data source t"
  obtain r e1 where u: "unprotect_rtcp lib data ?e0 = (r, e1)" by fastforce
  have e0: "secure ?e0" by (rule secure_switchover [OF assms])
  have e1: "secure ?e0" "secure e1" using e0 secure_unprotect(2) [OF e0, of lib data] by (simp_all add: u)
  have "snd ?out \<in> {record_source_rejection ?e0, e1} \<or> (\<exists>stats. snd ?out = (latch_rtcp source e1)\<lparr>ep_rtcp_stats := stats\<rparr>)"
    by (auto simp: RtpEndpoint_handle_rtcp_at_def u Let_def split: option.splits prod.splits)
  then show "secure (snd ?out)" using e1 by auto
  show "protected_io lib e (Rtcp_Datagram unix now data source t) (Heard (fst ?out))"
  proof (cases rule: handle_rtcp_cases [of lib unix now e data source t])
    case (heard plain e1' bye stats)
    obtain rx where rx: "ep_srtcp_rx ?e0 = Some rx" using e1(1) by (auto simp: secure_def)
    obtain n x where "unprotect_dual (SrtcpContext_unprotect_rtcp lib) (ep_srtcp_rx_new ?e0) (Some rx) data
        = (Some plain, n, x)"
      using heard(2) by (auto simp: unprotect_rtcp_def rx split: prod.splits)
    from unprotect_dual_cases(2) [OF this refl] obtain cx where
      "cx = rx \<or> ep_srtcp_rx_new ?e0 = Some cx" "fst (SrtcpContext_unprotect_rtcp lib cx data) = Inr plain" by blast
    moreover have "ep_srtcp_rx e = Some cx \<or> ep_srtcp_rx_new e = Some cx"
      using calculation(1) rx switchover_contexts(5,6) [where e = e and now = now] by blast
    ultimately show ?thesis using heard(5) by auto
  qed simp
qed

lemma secure_write:
  assumes "secure e"
  shows "secure (snd (RtpEndpoint_write_rtp lib send_ok e p))"
    "protected_io lib e (Write_Rtp send_ok p) (Wrote (fst (RtpEndpoint_write_rtp lib send_ok e p)))"
proof -
  obtain tx where tx: "ep_srtp_tx e = Some tx" using assms by (auto simp: secure_def)
  obtain r tx' where r: "SrtpContext_protect lib tx (plain_packet e p) = (r, tx')" by fastforce
  have "secure ((counted e p)\<lparr>ep_srtp_tx := Some tx'\<rparr>)"
    using assms secure_counted [of e p] by (simp add: secure_def)
  then show "secure (snd (RtpEndpoint_write_rtp lib send_ok e p))"
    using assms by (cases r) (auto simp: write_rtp_eq protect_rtp_def tx r split: option.split)
  show "protected_io lib e (Write_Rtp send_ok p) (Wrote (fst (RtpEndpoint_write_rtp lib send_ok e p)))"
    by (cases r) (auto simp: write_rtp_eq protect_rtp_def tx r split: option.split)
qed

lemma secure_send_rtcp:
  assumes "secure e"
  shows "secure (snd (RtpEndpoint_maybe_send_rtcp lib unix now send_ok e))
    \<and> protected_io lib e (Send_Rtcp unix now send_ok) (Reported (fst (RtpEndpoint_maybe_send_rtcp lib unix now send_ok e)))"
proof (cases "saturating_duration_since now (ep_last_rtcp_sent e) < 5000000000 \<or> ep_remote_rtcp_addr e = None
    \<or> ep_remote_ssrc e = None")
  case True
  then have "RtpEndpoint_maybe_send_rtcp lib unix now send_ok e = ((Inr None, None), e)"
    by (auto simp: RtpEndpoint_maybe_send_rtcp_def split: option.split)
  with assms show ?thesis by simp
next
  case False
  then obtain remote ssrc where known: "ep_remote_rtcp_addr e = Some remote" "ep_remote_ssrc e = Some ssrc" by auto
  let ?rate = "case ep_send_codec e of Some c \<Rightarrow> cd_clock_rate c | None \<Rightarrow> 8000"
  obtain data stats where build: "build_sr_rr unix now (ep_our_ssrc e) ssrc (ep_rtcp_stats e)
      (ep_last_rtp_timestamp e) ?rate = (data, stats)" by fastforce
  obtain tx where tx: "ep_srtcp_tx e = Some tx" using assms by (auto simp: secure_def)
  obtain r tx' where r: "SrtcpContext_protect_rtcp lib tx data = (r, tx')" by fastforce
  let ?e = "e\<lparr>ep_rtcp_stats := stats, ep_srtcp_tx := Some tx'\<rparr>"
  have e: "secure ?e" "secure (?e\<lparr>ep_last_rtcp_sent := now\<rparr>)" using assms by (simp_all add: secure_def)
  have p: "protect_rtcp lib data (e\<lparr>ep_rtcp_stats := stats\<rparr>) = (r, ?e)" by (simp add: protect_rtcp_def tx r)
  have "RtpEndpoint_maybe_send_rtcp lib unix now send_ok e =
    (case r of Inl err \<Rightarrow> ((Inl (SrtpError err), None), ?e)
     | Inr d \<Rightarrow> if send_ok then ((Inr (Some data), Some (remote, d)), ?e\<lparr>ep_last_rtcp_sent := now\<rparr>)
               else ((Inl SendFailed, None), ?e))"
    using False unfolding RtpEndpoint_maybe_send_rtcp_def known option.case Let_def build prod.case p by simp
  then show ?thesis using e r tx by (cases r) auto
qed

lemma secure_apply_crypto:
  assumes "secure e"
  shows "secure (snd (apply_crypto lib now key_bytes parsed e))"
proof -
  have "secure (snd (apply_rx_key lib now crypto e)) \<and> ep_srtp_tx (snd (apply_rx_key lib now crypto e)) = ep_srtp_tx e" for crypto
    using assms
    by (auto simp: apply_rx_key_def RtpEndpoint_tighten_remote_srtp_lifetime_def secure_def Let_def
        split: sum.split option.split)
  note rx = this
  show ?thesis
  proof (cases "ps_crypto parsed")
    case (Some crypto)
    obtain r e' where r: "apply_rx_key lib now crypto e = (r, e')" by fastforce
    then have "secure e'" using rx [of crypto] by simp
    then have "ep_srtp_tx e' \<noteq> None" by (simp add: secure_def)
    with \<open>secure e'\<close> show ?thesis by (cases r) (auto simp: apply_crypto_def Some r)
  qed (use assms in \<open>simp add: apply_crypto_def\<close>)
qed

lemma secure_check_answer:
  assumes "secure e" "check_answer lib parsed e = Inr valid"
  shows "select_plain_rtp parsed e = e"
  using assms(1) by (auto simp: select_plain_rtp_def selects_plain_rtp_def secure_def)

lemma secure_answer: "secure e \<Longrightarrow> secure (snd (RtpEndpoint_accept_answer lib now key_bytes e sdp))"
proof -
  assume e: "secure e"
  let ?p = "parse_sdp lib sdp"
  show ?thesis
  proof (cases "check_answer lib ?p e")
    case (Inr valid)
    let ?e = "apply_codecs ?p valid (apply_remote_addr ?p (apply_direction ?p e))"
    have "secure (snd (apply_crypto lib now key_bytes ?p ?e))" using e by (intro secure_apply_crypto) simp
    then show ?thesis
      using secure_check_answer [OF e Inr]
      by (auto simp: RtpEndpoint_accept_answer_def Inr Let_def split: prod.split sum.split)
  qed (use e in \<open>simp add: RtpEndpoint_accept_answer_def\<close>)
qed

lemma secure_reinvite: "secure e \<Longrightarrow> secure (snd (RtpEndpoint_update_remote_sdp lib now key_bytes e sdp))"
proof -
  assume e: "secure e"
  let ?p = "parse_sdp lib sdp"
  have "secure (snd (apply_crypto lib now key_bytes ?p (apply_remote_addr ?p (apply_direction ?p e))))"
    using e by (intro secure_apply_crypto) simp
  with e show ?thesis
    by (auto simp: RtpEndpoint_update_remote_sdp_def Let_def split: prod.split sum.split)
qed

lemma secure_rekey: "secure e \<Longrightarrow> secure (snd (RtpEndpoint_srtp_rekey lib key_bytes e))"
  by (auto simp: RtpEndpoint_srtp_rekey_def install_tx_key_def secure_def Let_def split: sum.split prod.split)

fun runs_protected :: "crypto_lib \<Rightarrow> rtp_endpoint \<Rightarrow> endpoint_event list \<Rightarrow> bool" where
  "runs_protected lib e [] = True"
| "runs_protected lib e (ev # evs) =
     ((case ev of Media m \<Rightarrow> protected_io lib e m (the (fst (endpoint_step lib e ev))) | _ \<Rightarrow> True)
      \<and> runs_protected lib (snd (endpoint_step lib e ev)) evs)"

lemma secure_media_step:
  assumes "secure e"
  shows "secure (snd (media_step lib e m)) \<and> protected_io lib e m (fst (media_step lib e m))"
proof (cases m)
  case (Rtp_Datagram now data source t)
  show ?thesis using secure_rtp [OF assms, where lib = lib and now = now and data = data and source = source and t = t]
    unfolding Rtp_Datagram media_step.simps split_beta Let_def by (simp only: fst_conv snd_conv)
next
  case (Rtcp_Datagram unix now data source t)
  show ?thesis using secure_rtcp [OF assms, where lib = lib and unix = unix and now = now and data = data
      and source = source and t = t]
    unfolding Rtcp_Datagram media_step.simps split_beta Let_def by (simp only: fst_conv snd_conv)
next
  case (Write_Rtp send_ok p)
  show ?thesis using secure_write [OF assms, where lib = lib and send_ok = send_ok and p = p]
    unfolding Write_Rtp media_step.simps split_beta Let_def by (simp only: fst_conv snd_conv)
next
  case (Send_Rtcp unix now send_ok)
  show ?thesis using secure_send_rtcp [OF assms, where lib = lib and unix = unix and now = now and send_ok = send_ok]
    unfolding Send_Rtcp media_step.simps split_beta Let_def by (simp only: fst_conv snd_conv)
qed

lemma secure_step: "secure e \<Longrightarrow> secure (snd (endpoint_step lib e ev))"
  by (cases ev) (simp_all add: secure_media_step secure_answer secure_reinvite secure_rekey split_beta)

lemma secure_run: "secure e \<Longrightarrow> runs_protected lib e evs \<and> secure (state_with (endpoint_step lib) e evs)"
proof (induction evs arbitrary: e)
  case (Cons ev evs)
  then show ?case using secure_step [OF Cons.prems, of lib ev] secure_media_step [OF Cons.prems, of lib]
    by (simp split: endpoint_event.split) (simp add: split_beta)
qed simp

section \<open>Waiting for the peer\<close>

definition awaits_peer :: "crypto_lib \<Rightarrow> instant \<Rightarrow> string \<Rightarrow> rtp_endpoint \<Rightarrow> bool" where
  "awaits_peer lib now sdp e \<longleftrightarrow> \<not> ep_addr_locked e \<and> \<not> ep_rtcp_addr_locked e
     \<and> ep_rtp_latch_reset_at e = now \<and> ep_rtcp_latch_reset_at e = now \<and> ep_remote_ssrc e = None
     \<and> ep_remote_rtp_addr e = ps_remote_addr (parse_sdp lib sdp) \<and> ep_remote_rtp_addr e \<noteq> None"

lemma validated_addr: "validate_selected_plain_media lib p = Inr u \<Longrightarrow> ps_remote_addr p \<noteq> None"
  by (auto simp: validate_selected_plain_media_def Let_def split: if_splits option.splits)

definition same_media :: "rtp_endpoint \<Rightarrow> rtp_endpoint \<Rightarrow> bool" where
  "same_media e e' \<longleftrightarrow> ep_remote_rtp_addr e' = ep_remote_rtp_addr e \<and> ep_state e' = ep_state e
     \<and> ep_codecs e' = ep_codecs e \<and> ep_send_codec e' = ep_send_codec e"

lemma apply_rx_key_frame: "apply_rx_key lib now crypto e = (r, e') \<Longrightarrow> same_media e e'"
  by (auto simp: apply_rx_key_def RtpEndpoint_tighten_remote_srtp_lifetime_def same_media_def Let_def
      split: sum.splits option.splits if_splits)

lemma install_tx_key_frame: "install_tx_key lib key_bytes e = (r, e') \<Longrightarrow> same_media e e'"
  by (auto simp: install_tx_key_def same_media_def Let_def split: sum.splits)

lemma apply_crypto_frame: "apply_crypto lib now key_bytes parsed e = (r, e') \<Longrightarrow> same_media e e'"
  by (auto simp: apply_crypto_def same_media_def dest!: apply_rx_key_frame install_tx_key_frame
      split: option.splits sum.splits prod.splits if_splits)

lemma apply_frame [simp]:
  "ep_remote_rtp_addr (apply_codecs parsed valid e) = ep_remote_rtp_addr e"
  "ep_remote_rtp_addr (apply_remote_addr parsed e) = ps_remote_addr parsed"
  "ep_state (apply_remote_addr parsed e) = ep_state e" "ep_state (apply_direction parsed e) = ep_state e"
  "ep_codecs (apply_remote_addr parsed e) = ep_codecs e" "ep_codecs (apply_direction parsed e) = ep_codecs e"
  "ep_send_codec (apply_remote_addr parsed e) = ep_send_codec e"
  "ep_send_codec (apply_direction parsed e) = ep_send_codec e"
  by (simp_all add: apply_codecs_def apply_remote_addr_def apply_rtcp_addr_def apply_direction_def Let_def
      split: option.split)

section \<open>Properties\<close>

text \<open>C4. Security is never lost: on an endpoint with SRTP established in both directions, no sequence
  of datagrams, writes, answers, re-invitations, rekeyings, direction changes and resets, whatever
  they contain, makes it route a packet that did not authenticate under one of its keys or put out a
  packet that is not protected, and SRTP stays established.\<close>

theorem srtp_never_lost:
  assumes "secure e"
  shows "runs_protected lib e evs \<and> secure (state_with (endpoint_step lib) e evs)
    \<and> RtpEndpoint_has_srtp (state_with (endpoint_step lib) e evs)"
  using secure_run [OF assms, of lib evs] by (auto simp: secure_def RtpEndpoint_has_srtp_def)

text \<open>C5. Negotiation is atomic: an answer or a re-invitation that is refused leaves the endpoint
  exactly as it was; one that is accepted leaves it waiting for the first packet of the new peer,
  at the negotiated address, with nothing older than the negotiation able to fix the address.\<close>

theorem negotiation_atomic:
  assumes "base64_ok lib" "length key_bytes = 30"
  shows "(case RtpEndpoint_accept_answer lib now key_bytes e sdp of
      (Inl _, e') \<Rightarrow> e' = e
    | (Inr _, e') \<Rightarrow> ep_state e' = Connected \<and> awaits_peer lib now sdp e')
   \<and> (case RtpEndpoint_update_remote_sdp lib now key_bytes e sdp of
      (Inl _, e') \<Rightarrow> e' = e
    | (Inr _, e') \<Rightarrow> ep_state e' = ep_state e \<and> ep_codecs e' = ep_codecs e \<and> ep_send_codec e' = ep_send_codec e
        \<and> awaits_peer lib now sdp e')"
proof -
  let ?p = "parse_sdp lib sdp"
  have "case RtpEndpoint_accept_answer lib now key_bytes e sdp of
      (Inl _, e') \<Rightarrow> e' = e
    | (Inr _, e') \<Rightarrow> ep_state e' = Connected \<and> awaits_peer lib now sdp e'"
  proof (cases rule: accept_answer_cases [OF assms, where now = now and e = e and answer = sdp, case_names refused accepted])
    case (accepted valid e')
    have "ep_remote_rtp_addr e' = ps_remote_addr ?p"
      using apply_crypto_frame [OF accepted(2)] by (simp add: same_media_def)
    with validated_addr [OF check_answer_validated [OF accepted(1)]] accepted(3) show ?thesis
      by (simp add: awaits_peer_def RtpEndpoint_reset_addr_lock_def)
  qed simp
  moreover have "case RtpEndpoint_update_remote_sdp lib now key_bytes e sdp of
      (Inl _, e') \<Rightarrow> e' = e
    | (Inr _, e') \<Rightarrow> ep_state e' = ep_state e \<and> ep_codecs e' = ep_codecs e \<and> ep_send_codec e' = ep_send_codec e
        \<and> awaits_peer lib now sdp e'"
  proof (cases rule: update_remote_sdp_cases [OF assms, where now = now and e = e and sdp = sdp, case_names refused updated])
    case (updated e' answer)
    then show ?thesis
      using apply_crypto_frame [OF updated(2)] validated_addr [OF check_update_validated [OF updated(1)]]
      by (simp add: awaits_peer_def same_media_def RtpEndpoint_reset_addr_lock_def)
  qed simp
  ultimately show ?thesis ..
qed

section \<open>Witnesses\<close>

text \<open>A library whose key encoding can be undone: two letters for every byte.\<close>

definition letters :: "u8 \<Rightarrow> string" where
  "letters b = [char_of (65 + unat b div 16), char_of (65 + unat b mod 16)]"

fun unletters :: "string \<Rightarrow> bytes" where
  "unletters (c # d # cs) = of_nat ((of_char c - 65) * 16 + (of_char d - 65)) # unletters cs"
| "unletters _ = []"

definition letter_crypto :: crypto_lib where
  "letter_crypto = demo_crypto\<lparr>cl_base64_encode := \<lambda>bs. concat (map letters bs),
     cl_base64_decode := \<lambda>s. Some (unletters s)\<rparr>"

lemma unletters_letters: "unletters (letters b @ s) = b # unletters s"
proof -
  have "unat b < 256" using unsigned_less [where w = b] by simp
  then have "unat b div 16 < 16" by simp
  then show ?thesis by (simp add: letters_def)
qed

lemma letter_crypto_ok: "base64_ok letter_crypto" "crypto_ok letter_crypto"
proof -
  have "unletters (concat (map letters bs)) = bs" for bs
    by (induction bs) (simp_all add: unletters_letters)
  then show "base64_ok letter_crypto" by (simp add: base64_ok_def letter_crypto_def)
  show "crypto_ok letter_crypto" using demo_crypto_ok by (simp add: crypto_ok_def letter_crypto_def)
qed

theorem negotiation_atomic_witness:
  "snd (RtpEndpoint_accept_answer letter_crypto 5 (replicate 30 1)
     (RtpEndpoint_new 0 1 2 3 SendRecv \<lparr>sa_ip = V4 10 0 0 1, sa_port = 4000\<rparr>) [])
   = RtpEndpoint_new 0 1 2 3 SendRecv \<lparr>sa_ip = V4 10 0 0 1, sa_port = 4000\<rparr>"
proof -
  let ?e = "RtpEndpoint_new 0 1 2 3 SendRecv \<lparr>sa_ip = V4 10 0 0 1, sa_port = 4000\<rparr>"
  have "text_lines [] = []" by code_simp
  then have "ps_audio_sections (parse_sdp letter_crypto []) = 0"
    by (simp add: parse_sdp_def scan_sections_def set_telephone_event_def set_addresses_def
        sdp_scan_new_def parsed_sdp_new_def Let_def split: option.split)
  then have "check_answer letter_crypto (parse_sdp letter_crypto []) ?e = Inl (SdpError NotOneAudioSection)"
    by (simp add: check_answer_def validate_plain_transport_def)
  then have "\<exists>err. fst (RtpEndpoint_accept_answer letter_crypto 5 (replicate 30 1) ?e []) = Inl err"
    by (simp add: RtpEndpoint_accept_answer_def)
  with negotiation_atomic [OF letter_crypto_ok(1), where key_bytes = "replicate 30 1" and now = 5 and e = ?e and sdp = "[]"] show ?thesis
    by (auto split: prod.splits)
qed

theorem srtp_never_lost_witness:
  "secure ((RtpEndpoint_new 0 1 2 3 SendRecv \<lparr>sa_ip = V4 10 0 0 1, sa_port = 4000\<rparr>)
     \<lparr>ep_srtp_rx := Some demo_context, ep_srtp_tx := Some demo_context, ep_srtp_tx_key_b64 := Some ''k'',
      ep_srtcp_rx := Some (projr (SrtcpContext_from_sdes_key demo_crypto (replicate 40 CHR ''a''))),
      ep_srtcp_tx := Some (projr (SrtcpContext_from_sdes_key demo_crypto (replicate 40 CHR ''a'')))\<rparr>)
   \<and> RtpEndpoint_has_srtp (state_with (endpoint_step demo_crypto)
      ((RtpEndpoint_new 0 1 2 3 SendRecv \<lparr>sa_ip = V4 10 0 0 1, sa_port = 4000\<rparr>)
        \<lparr>ep_srtp_rx := Some demo_context, ep_srtp_tx := Some demo_context, ep_srtp_tx_key_b64 := Some ''k'',
         ep_srtcp_rx := Some (projr (SrtcpContext_from_sdes_key demo_crypto (replicate 40 CHR ''a''))),
         ep_srtcp_tx := Some (projr (SrtcpContext_from_sdes_key demo_crypto (replicate 40 CHR ''a'')))\<rparr>)
      [Answer 1 [] ''v=0'', Reinvite 2 [] ''m=audio 9 RTP/AVP 0'', Rekey [1]])"
proof -
  let ?e = "(RtpEndpoint_new 0 1 2 3 SendRecv \<lparr>sa_ip = V4 10 0 0 1, sa_port = 4000\<rparr>)
     \<lparr>ep_srtp_rx := Some demo_context, ep_srtp_tx := Some demo_context, ep_srtp_tx_key_b64 := Some ''k'',
      ep_srtcp_rx := Some (projr (SrtcpContext_from_sdes_key demo_crypto (replicate 40 CHR ''a''))),
      ep_srtcp_tx := Some (projr (SrtcpContext_from_sdes_key demo_crypto (replicate 40 CHR ''a'')))\<rparr>"
  have "secure ?e" by (simp add: secure_def)
  with srtp_never_lost [OF this] show ?thesis by blast
qed

end
