(* ===== verification/Rtp_Offer_Answer.thy ===== *)
theory Rtp_Offer_Answer
  imports Rtp_Negotiation
begin

text \<open>
  Two RTP endpoints negotiating with each other: the offer of one, the answer of the other to the
  text of the offer, and the first one's acceptance of the text of the answer.
\<close>

section \<open>The codecs of an offer and of its answer\<close>

definition is_audio :: "sdp_codec \<Rightarrow> bool" where
  "is_audio c \<longleftrightarrow> c \<in> {CODEC_OPUS, CODEC_G722, CODEC_PCMU}"

lemma offer_codec_list_split:
  obtains au where "offer_codec_list pref = au @ [CODEC_TELEPHONE_EVENT]" "list_all is_audio au"
proof (cases pref)
  case None
  then show thesis by (intro that [of "[CODEC_OPUS, CODEC_G722, CODEC_PCMU]"]) (simp_all add: offer_codec_list_def is_audio_def)
next
  case (Some names)
  then show thesis
    using ordered_codecs_subset [of "[]" "[CODEC_OPUS, CODEC_G722, CODEC_PCMU]" names]
    by (intro that [of "ordered_codecs [CODEC_OPUS, CODEC_G722, CODEC_PCMU] [] names"])
      (auto simp: offer_codec_list_def is_audio_def list_all_iff)
qed

text \<open>What the answerer reads back of an audio codec.\<close>

lemma audio_facts:
  assumes "is_audio c"
  shows "\<not> is_telephone_event (read_back c)" "\<not> is_telephone_event c" "read_back (read_back c) = read_back c"
    "local_codec (read_back c) = read_back c" "bridge_codec (read_back c)" "writable (read_back c)"
    "cd_pt (read_back c) = cd_pt c" "cd_pt c \<noteq> 101" "cd_name (read_back c) = cd_name c"
    "cd_clock_rate (read_back c) = cd_clock_rate c"
proof -
  have "bridge_codec (read_back CODEC_OPUS)"
    using encodable_read_back [OF opus_encodable]
    by (simp add: bridge_codec_def read_back_def) (simp add: codec_defs)
  moreover have "writable (read_back c)" using assms well_known_codecs(5-7)
    by (auto simp: is_audio_def writable_def read_back_def)
  ultimately show "bridge_codec (read_back c)" "writable (read_back c)"
    using assms well_known_codecs(2,3) by (auto simp: is_audio_def read_back_def codec_defs)
qed (use assms in \<open>auto simp: is_audio_def codec_defs read_back_def is_telephone_event_def local_codec_def\<close>)

lemma telephone_facts:
  "is_telephone_event CODEC_TELEPHONE_EVENT" "read_back CODEC_TELEPHONE_EVENT = CODEC_TELEPHONE_EVENT"
  "local_codec CODEC_TELEPHONE_EVENT = CODEC_TELEPHONE_EVENT" "cd_pt CODEC_TELEPHONE_EVENT = 101"
  by (simp_all add: codec_defs is_telephone_event_def read_back_def local_codec_def)

definition offered :: "sdp_codec list \<Rightarrow> bool" where
  "offered cs \<longleftrightarrow> (\<exists>au. cs = au @ [CODEC_TELEPHONE_EVENT] \<and> au \<noteq> [] \<and> list_all is_audio au)"

lemma answer_choice:
  assumes "offered cs"
  obtains c where "is_audio c" "c \<in> set cs" "select_answer_codec (map read_back cs) = Some (read_back c)"
proof -
  obtain au where au: "cs = au @ [CODEC_TELEPHONE_EVENT]" "au \<noteq> []" "list_all is_audio au"
    using assms by (auto simp: offered_def)
  have "filter (\<lambda>c. \<not> is_telephone_event c) (map read_back cs) = map read_back au"
    using au(3) audio_facts(1) by (simp add: au(1) telephone_facts list_all_iff filter_map comp_def)
  then have "select_answer_codec (map read_back cs) \<noteq> None"
    using au(2) by (auto simp: select_answer_codec_def split: list.split)
  then obtain d where d: "select_answer_codec (map read_back cs) = Some d" by auto
  with select_answer_codec_mem [OF d] au telephone_facts obtain c where "c \<in> set au" "d = read_back c"
    by auto
  with d au that show thesis by (auto simp: list_all_iff)
qed

lemma answer_telephone:
  assumes "offered cs"
  shows "select_telephone_event_codec (map read_back cs) rate = Some CODEC_TELEPHONE_EVENT"
proof -
  obtain au where au: "cs = au @ [CODEC_TELEPHONE_EVENT]" "list_all is_audio au"
    using assms by (auto simp: offered_def)
  have "find P (map read_back cs) = (if P CODEC_TELEPHONE_EVENT then Some CODEC_TELEPHONE_EVENT else None)"
    if "\<And>c. P c \<Longrightarrow> is_telephone_event c" for P
  proof -
    have "\<not> P (read_back c)" if "c \<in> set au" for c using that au(2) audio_facts(1) \<open>\<And>c. P c \<Longrightarrow> is_telephone_event c\<close>
      by (auto simp: list_all_iff)
    then have "find P (map read_back au @ xs) = find P xs" for xs
      by (induction au) auto
    then show ?thesis by (simp add: au(1) telephone_facts)
  qed
  from this [of is_telephone_event] this [of "\<lambda>c. is_telephone_event c \<and> cd_clock_rate c = rate"]
  show ?thesis by (simp add: select_telephone_event_codec_def telephone_facts)
qed

section \<open>Both sides of a negotiation\<close>

text \<open>What the code relies on of the \<open>base64\<close> crate, besides decoding: the alphabet is made of visible
  characters other than a bar.\<close>

definition base64_text_ok :: "crypto_lib \<Rightarrow> bool" where
  "base64_text_ok lib \<longleftrightarrow> (\<forall>bs. length bs = 30 \<longrightarrow>
     is_word (cl_base64_encode lib bs) \<and> CHR ''|'' \<notin> set (cl_base64_encode lib bs))"

lemma fresh_key:
  assumes "base64_ok lib" "base64_text_ok lib" "length kb = 30"
  defines "c \<equiv> crypto_of_key (cl_base64_encode lib kb)"
  obtains cx cy where "plain_key c" "supported_sdes_key lib c" "remote_srtp_contexts lib c = Inr (cx, cy)"
    "SrtpContext_from_sdes_key_with_lifetime lib (cl_base64_encode lib kb) MAX_SRTP_PACKETS_PER_MASTER_KEY = Inr cx"
    "\<And>e. install_tx_key lib kb e = (Inr (cl_base64_encode lib kb),
       e\<lparr>ep_srtp_tx := Some cx, ep_srtcp_tx := Some cy, ep_srtp_tx_key_b64 := Some (cl_base64_encode lib kb)\<rparr>)"
  using assms(1-3)
  by (auto simp: c_def base64_ok_def base64_text_ok_def plain_key_def crypto_of_key_def supported_sdes_key_def
      remote_srtp_contexts_def crypto_lifetime_def install_tx_key_def SrtpContext_from_sdes_key_def
      SrtcpContext_from_sdes_key_def SrtpContext_from_sdes_key_with_lifetime_def
      SrtcpContext_from_sdes_key_with_lifetime_def srtp_consts Let_def)

text \<open>The negotiation, from the codecs offered to the acceptance of the answer.\<close>

definition negotiate ::
  "crypto_lib \<Rightarrow> instant \<Rightarrow> u32 \<times> u16 \<times> bytes \<times> endpoint_id \<times> socket_addr \<Rightarrow> u32 \<times> u16 \<times> bytes \<times> endpoint_id \<times> socket_addr
     \<Rightarrow> sdp_codec list \<Rightarrow> rtp_media_security \<Rightarrow> endpoint_error + (rtp_endpoint \<times> rtp_endpoint)" where
  "negotiate lib now a b codecs security =
     (case (a, b) of ((ssrc_a, seq_a, key_a, id_a, addr_a), (ssrc_b, seq_b, key_b, id_b, addr_b)) \<Rightarrow>
      (case RtpEndpoint_create_offer lib now ssrc_a seq_a key_a id_a SendRecv addr_a (sa_ip addr_a) codecs security of
         Inl err \<Rightarrow> Inl err
       | Inr (A, offer) \<Rightarrow>
           (case RtpEndpoint_from_offer_with_codec lib now ssrc_b seq_b key_b id_b SendRecv offer addr_b (sa_ip addr_b) None of
              Inl err \<Rightarrow> Inl err
            | Inr (B, answer) \<Rightarrow>
                (case RtpEndpoint_accept_answer lib now key_a A answer of
                   (Inl err, _) \<Rightarrow> Inl err
                 | (Inr _, A) \<Rightarrow> Inr (A, B)))))"

definition offered_key :: "crypto_lib \<Rightarrow> bytes \<Rightarrow> rtp_media_security \<Rightarrow> sdp_crypto option" where
  "offered_key lib kb sec = (if sec = PlainRtp then None else Some (crypto_of_key (cl_base64_encode lib kb)))"

text \<open>The state of an endpoint that encrypts with a key, and of one that decrypts with it.\<close>

definition sends_with :: "crypto_lib \<Rightarrow> sdp_crypto option \<Rightarrow> rtp_endpoint \<Rightarrow> bool" where
  "sends_with lib crypto e \<longleftrightarrow>
     (case crypto of
        None \<Rightarrow> ep_srtp_tx e = None \<and> ep_srtcp_tx e = None \<and> ep_srtp_tx_key_b64 e = None
      | Some c \<Rightarrow> ep_srtp_tx_key_b64 e = Some (cy_key_b64 c) \<and> (case remote_srtp_contexts lib c of
          Inr (cx, cy) \<Rightarrow> ep_srtp_tx e = Some cx \<and> ep_srtcp_tx e = Some cy | Inl _ \<Rightarrow> False))"

definition hears_with :: "crypto_lib \<Rightarrow> sdp_crypto option \<Rightarrow> rtp_endpoint \<Rightarrow> bool" where
  "hears_with lib crypto e \<longleftrightarrow> ep_srtp_rx_new e = None \<and> ep_srtcp_rx_new e = None \<and> ep_rekey_switchover e = None \<and>
     (case crypto of
        None \<Rightarrow> ep_srtp_rx e = None \<and> ep_srtcp_rx e = None \<and> ep_srtp_rx_key_b64 e = None
      | Some c \<Rightarrow> ep_srtp_rx_key_b64 e = Some (cy_key_b64 c) \<and> (case remote_srtp_contexts lib c of
          Inr (cx, cy) \<Rightarrow> ep_srtp_rx e = Some cx \<and> ep_srtcp_rx e = Some cy | Inl _ \<Rightarrow> False))"

lemma offered_key_ok:
  assumes "base64_ok lib" "base64_text_ok lib" "length kb = 30" "offered_key lib kb sec = Some c"
  shows "plain_key c" "supported_sdes_key lib c"
  using fresh_key [OF assms(1-3)] assms(4) by (metis offered_key_def option.discI option.inject)+

lemma create_offer_eq:
  assumes "base64_ok lib" "base64_text_ok lib" "length kb = 30"
  obtains A where
    "RtpEndpoint_create_offer lib now ssrc seq kb i SendRecv addr (sa_ip addr) cs sec
      = Inr (A, generate_sdp addr (sa_port addr) cs (offered_key lib kb sec) (ucast i) (sec = OptionalSrtp) None)"
    "ep_codecs A = cs" "ep_local_rtp_addr A = addr" "sends_with lib (offered_key lib kb sec) A" "hears_with lib None A"
    "ep_direction A = SendRecv" "rs_remote_receiver_report (ep_rtcp_stats A) = None"
proof -
  obtain cx cy where k: "remote_srtp_contexts lib (crypto_of_key (cl_base64_encode lib kb)) = Inr (cx, cy)"
    "\<And>e. install_tx_key lib kb e = (Inr (cl_base64_encode lib kb),
       e\<lparr>ep_srtp_tx := Some cx, ep_srtcp_tx := Some cy, ep_srtp_tx_key_b64 := Some (cl_base64_encode lib kb)\<rparr>)"
    using fresh_key [OF assms] by metis
  have "\<exists>A. RtpEndpoint_create_offer lib now ssrc seq kb i SendRecv addr (sa_ip addr) cs sec
      = Inr (A, generate_sdp addr (sa_port addr) cs (offered_key lib kb sec) (ucast i) (sec = OptionalSrtp) None)
    \<and> ep_codecs A = cs \<and> ep_local_rtp_addr A = addr \<and> sends_with lib (offered_key lib kb sec) A
    \<and> hears_with lib None A \<and> ep_direction A = SendRecv \<and> rs_remote_receiver_report (ep_rtcp_stats A) = None"
    by (cases sec; cases addr)
      (simp_all add: RtpEndpoint_create_offer_def k offered_key_def sends_with_def hears_with_def RtpEndpoint_new_def
        local_addr_def generate_sdp_offer_def generate_osrtp_sdp_offer_def k(1) [unfolded crypto_of_key_def]
        crypto_of_key_def RtcpStats_new_def Let_def)
  then show thesis using that by blast
qed

lemma sends_with_cong:
  "ep_srtp_tx e' = ep_srtp_tx e \<Longrightarrow> ep_srtcp_tx e' = ep_srtcp_tx e \<Longrightarrow> ep_srtp_tx_key_b64 e' = ep_srtp_tx_key_b64 e \<Longrightarrow>
   sends_with lib c e' = sends_with lib c e"
  by (auto simp: sends_with_def split: option.split sum.split)

lemma hears_with_cong:
  "ep_srtp_rx e' = ep_srtp_rx e \<Longrightarrow> ep_srtcp_rx e' = ep_srtcp_rx e \<Longrightarrow> ep_srtp_rx_key_b64 e' = ep_srtp_rx_key_b64 e \<Longrightarrow>
   ep_srtp_rx_new e' = ep_srtp_rx_new e \<Longrightarrow> ep_srtcp_rx_new e' = ep_srtcp_rx_new e \<Longrightarrow>
   ep_rekey_switchover e' = ep_rekey_switchover e \<Longrightarrow> hears_with lib c e' = hears_with lib c e"
  by (auto simp: hears_with_def split: option.split sum.split)

lemma answer_formats:
  assumes "offered cs"
  shows "take 1 (filter (\<lambda>c. cd_pt c = 101) (map read_back cs)) = [CODEC_TELEPHONE_EVENT]"
proof -
  obtain au where au: "cs = au @ [CODEC_TELEPHONE_EVENT]" "list_all is_audio au"
    using assms by (auto simp: offered_def)
  from au(2) have "filter (\<lambda>c. cd_pt c = 101) (map read_back au) = []"
    by (auto simp: filter_empty_conv list_all_iff audio_facts(7,8))
  then show ?thesis by (simp add: au(1) telephone_facts)
qed

lemma answer_text:
  "with_telephone_event [read_back c, CODEC_TELEPHONE_EVENT] = [read_back c, CODEC_TELEPHONE_EVENT]"
  "nth_opt [s] 0 = Some s"
  by (simp_all add: with_telephone_event_def telephone_facts nth_opt_def)

definition answer_of :: "socket_addr \<Rightarrow> u64 \<Rightarrow> string \<Rightarrow> sdp_codec \<Rightarrow> sdp_crypto option \<Rightarrow> string" where
  "answer_of addr sid proto c crypto = concat (map (\<lambda>l. l @ CRLF) (session_lines (sa_ip addr) sid
     @ media_lines (sa_port addr) proto [read_back c, CODEC_TELEPHONE_EVENT] crypto))"

lemma choose_codecs_offer:
  assumes "offered cs" "is_audio c" "select_answer_codec (map read_back cs) = Some (read_back c)" "ps_codecs p = map read_back cs"
  shows "choose_codecs p None e = Inr (e\<lparr>ep_send_codec := Some (read_back c), ep_recv_clock_rate := cd_clock_rate c,
    ep_telephone_event_pt := Some 101, ep_telephone_event_clock_rate := cd_clock_rate CODEC_TELEPHONE_EVENT,
    ep_codecs := [read_back c, CODEC_TELEPHONE_EVENT]\<rparr>)"
  using answer_formats [OF assms(1)] audio_facts [OF assms(2)] answer_telephone [OF assms(1)]
  by (simp add: choose_codecs_def assms(3,4) telephone_facts del: take_Suc_Cons)

lemma answer_keys_offer:
  assumes "base64_ok lib" "base64_text_ok lib" "length ka = 30" "length kb = 30" "hears_with lib None e" "sends_with lib None e"
    and "ps_crypto p = offered_key lib ka sec"
  obtains B rx rxc tx txc where "answer_keys lib kb p e = Inr (offered_key lib kb sec, B)"
    "B = e\<lparr>ep_srtp_rx := rx, ep_srtcp_rx := rxc,
       ep_srtp_rx_key_b64 := map_option cy_key_b64 (offered_key lib ka sec), ep_srtp_tx := tx, ep_srtcp_tx := txc,
       ep_srtp_tx_key_b64 := map_option cy_key_b64 (offered_key lib kb sec)\<rparr>"
    "sends_with lib (offered_key lib kb sec) B" "hears_with lib (offered_key lib ka sec) B"
proof -
  obtain cx cy where a: "remote_srtp_contexts lib (crypto_of_key (cl_base64_encode lib ka)) = Inr (cx, cy)"
    using fresh_key [OF assms(1,2,3)] by metis
  obtain bx b where b: "remote_srtp_contexts lib (crypto_of_key (cl_base64_encode lib kb)) = Inr (bx, b)"
    "\<And>e. install_tx_key lib kb e = (Inr (cl_base64_encode lib kb),
       e\<lparr>ep_srtp_tx := Some bx, ep_srtcp_tx := Some b, ep_srtp_tx_key_b64 := Some (cl_base64_encode lib kb)\<rparr>)"
    using fresh_key [OF assms(1,2,4)] by metis
  note keys = a b a [unfolded crypto_of_key_def] b(1) [unfolded crypto_of_key_def]
  show thesis
  proof (cases "sec = PlainRtp")
    case True
    with assms(5-7) show thesis
      by (intro that [OF _ refl, of None None None None])
        (simp_all add: answer_keys_def offered_key_def sends_with_def hears_with_def)
  next
    case False
    with assms(5-7) keys show thesis
      by (intro that [OF _ refl, where rx = "Some cx" and rxc = "Some cy" and tx = "Some bx" and txc = "Some b"])
        (simp_all add: answer_keys_def offered_key_def sends_with_def hears_with_def crypto_of_key_def)
  qed
qed

lemma from_offer_eq:
  assumes keys: "base64_ok lib" "base64_text_ok lib" "length ka = 30" "length kb = 30"
    and offer: "parse_sdp lib offer = parsed_media lib ip port proto cs (offered_key lib ka sec) prof"
    and proto: "proto \<in> {''RTP/AVP'', ''RTP/SAVP''}" "sec = PlainRtp \<longrightarrow> proto = ''RTP/AVP''"
    and codec: "offered cs" "is_audio c" "select_answer_codec (map read_back cs) = Some (read_back c)"
  obtains B where
    "RtpEndpoint_from_offer_with_codec lib now ssrc seq kb i SendRecv offer addr (sa_ip addr) None
      = Inr (B, answer_of addr (ucast i) proto c (offered_key lib kb sec))"
    "ep_codecs B = [read_back c, CODEC_TELEPHONE_EVENT]" "ep_send_codec B = Some (read_back c)"
    "ep_telephone_event_pt B = Some 101" "ep_recv_clock_rate B = cd_clock_rate c" "ep_direction B = SendRecv"
    "ep_remote_rtp_addr B = Some \<lparr>sa_ip = ip, sa_port = port\<rparr>" "ep_remote_rtcp_addr B = Some \<lparr>sa_ip = ip, sa_port = port\<rparr>"
    "ep_rtcp_mux B" "ep_state B = Connected" "ep_local_rtp_addr B = addr"
    "sends_with lib (offered_key lib kb sec) B" "hears_with lib (offered_key lib ka sec) B"
proof -
  let ?p = "parsed_media lib ip port proto cs (offered_key lib ka sec) prof"
  let ?e = "apply_rtcp_addr ?p ((apply_direction ?p (RtpEndpoint_new now ssrc seq i SendRecv addr))
      \<lparr>ep_remote_rtp_addr := ps_remote_addr ?p, ep_rtcp_mux := ps_rtcp_mux ?p\<rparr>)"
  let ?c = "?e\<lparr>ep_send_codec := Some (read_back c), ep_recv_clock_rate := cd_clock_rate c,
    ep_telephone_event_pt := Some 101, ep_telephone_event_clock_rate := cd_clock_rate CODEC_TELEPHONE_EVENT,
    ep_codecs := [read_back c, CODEC_TELEPHONE_EVENT]\<rparr>"
  have "cs \<noteq> []" using codec(1) by (auto simp: offered_def)
  then have valid: "validate_plain_offer lib ?p = Inr ()"
    using parsed_media_valid [of proto "offered_key lib ka sec" cs lib] proto offered_key_ok [OF keys(1-3)]
    by (auto simp: validate_plain_offer_def parsed_media_def Let_def offered_key_def split: if_splits)
  have "hears_with lib None ?c" "sends_with lib None ?c"
    by (simp_all add: hears_with_def sends_with_def apply_rtcp_addr_def apply_direction_def parsed_media_def
        RtpEndpoint_new_def Let_def endpoint_direction_from_sdp_def)
  then obtain B rx rxc tx txc where B: "answer_keys lib kb ?p ?c = Inr (offered_key lib kb sec, B)"
    "B = ?c\<lparr>ep_srtp_rx := rx, ep_srtcp_rx := rxc,
       ep_srtp_rx_key_b64 := map_option cy_key_b64 (offered_key lib ka sec), ep_srtp_tx := tx, ep_srtcp_tx := txc,
       ep_srtp_tx_key_b64 := map_option cy_key_b64 (offered_key lib kb sec)\<rparr>"
    "sends_with lib (offered_key lib kb sec) B" "hears_with lib (offered_key lib ka sec) B"
    by (rule answer_keys_offer [OF keys, where p = ?p]) (simp add: parsed_media_def Let_def)
  have codecs: "choose_codecs ?p None ?e = Inr ?c"
    using codec by (intro choose_codecs_offer) (simp_all add: parsed_media_def Let_def)
  have fields: "ep_codecs B = [read_back c, CODEC_TELEPHONE_EVENT]" "ep_send_codec B = Some (read_back c)"
    "ep_telephone_event_pt B = Some 101" "ep_recv_clock_rate B = cd_clock_rate c" "ep_direction B = SendRecv"
    "ep_remote_rtp_addr B = Some \<lparr>sa_ip = ip, sa_port = port\<rparr>" "ep_remote_rtcp_addr B = Some \<lparr>sa_ip = ip, sa_port = port\<rparr>"
    "ep_rtcp_mux B" "ep_local_rtp_addr B = addr"
    by (simp_all add: B(2) apply_rtcp_addr_def apply_direction_def parsed_media_def RtpEndpoint_new_def Let_def
        endpoint_direction_from_sdp_def)
  have "map local_codec (answer_codecs B) = [read_back c, CODEC_TELEPHONE_EVENT]"
    using audio_facts [OF codec(2)] by (simp add: answer_codecs_def fields telephone_facts)
  then have answer: "generate_sdp_answer_for_offer (local_addr (sa_ip addr) B) (sa_port (ep_local_rtp_addr B))
      (map local_codec (answer_codecs B)) (offered_key lib kb sec) (ucast i) ?p
    = Inr (answer_of addr (ucast i) proto c (offered_key lib kb sec))"
    by (simp add: generate_sdp_answer_for_offer_def parsed_media_def Let_def answer_text audio_section_def
        generate_sdp_def sdp_lines_answer answer_of_def local_addr_def fields)
  have "RtpEndpoint_from_offer_with_codec lib now ssrc seq kb i SendRecv offer addr (sa_ip addr) None
      = Inr (B\<lparr>ep_state := Connected\<rparr>, answer_of addr (ucast i) proto c (offered_key lib kb sec))"
    unfolding RtpEndpoint_from_offer_with_codec_def Let_def offer valid sum.case codecs B(1) prod.case answer ..
  then show thesis
    by (rule that) (use fields B(3,4) in \<open>simp_all add: sends_with_cong [of "B\<lparr>ep_state := Connected\<rparr>" B]
      hears_with_cong [of "B\<lparr>ep_state := Connected\<rparr>" B]\<close>)
qed

lemma answer_telephone_event:
  assumes "is_audio c"
  shows "telephone_event_of (map read_back [read_back c, CODEC_TELEPHONE_EVENT]) = Some CODEC_TELEPHONE_EVENT"
  using audio_facts [OF assms] telephone_facts
  by (simp add: telephone_event_of_def select_telephone_event_codec_def)

lemma check_answer_eq:
  assumes keys: "base64_ok lib" "base64_text_ok lib" "length kb = 30"
    and p: "p = parsed_media lib ip port proto [read_back c, CODEC_TELEPHONE_EVENT] (offered_key lib kb sec) prof"
    and proto: "proto \<in> {''RTP/AVP'', ''RTP/SAVP''}" "sec = PlainRtp \<longrightarrow> proto = ''RTP/AVP''"
    and codec: "offered cs" "is_audio c" "c \<in> set cs"
    and A: "ep_codecs A = cs" "hears_with lib None A" "sends_with lib (offered_key lib ka sec) A"
    and family: "is_ipv6 ip = is_ipv6 (sa_ip (ep_local_rtp_addr A))"
  shows "check_answer lib p A = Inr [read_back c, CODEC_TELEPHONE_EVENT]" "\<not> selects_plain_rtp p A"
proof -
  note facts = audio_facts [OF codec(2)]
  have te: "CODEC_TELEPHONE_EVENT \<in> set cs" using codec(1) by (auto simp: offered_def)
  have valid: "validate_plain_transport lib p = Inr ()"
    using parsed_media_valid [of proto "offered_key lib kb sec" "[read_back c, CODEC_TELEPHONE_EVENT]" lib] proto
      offered_key_ok [OF keys]
    by (auto simp: validate_plain_transport_def p parsed_media_def Let_def offered_key_def split: if_splits)
  have "\<not> has_unoffered_format p A"
    using te codec(3) facts(7)
    by (auto simp: has_unoffered_format_def p parsed_media_def Let_def answer_text(2) audio_section_def A(1) list_ex_iff)
  moreover have "negotiated_codecs p A = [read_back c, CODEC_TELEPHONE_EVENT]"
    using te codec(3) facts telephone_facts 
      bexI [of "\<lambda>d. eq_ignore_ascii_case (cd_name d) (cd_name c)" c "set cs"]
      bexI [of "\<lambda>d. eq_ignore_ascii_case (cd_name d) (cd_name CODEC_TELEPHONE_EVENT)" CODEC_TELEPHONE_EVENT "set cs"]
    by (auto simp: negotiated_codecs_def p parsed_media_def Let_def A(1) list_ex_iff)
  moreover show "\<not> selects_plain_rtp p A"
    using A(3) by (auto simp: selects_plain_rtp_def p parsed_media_def Let_def offered_key_def sends_with_def split: if_splits)
  ultimately show "check_answer lib p A = Inr [read_back c, CODEC_TELEPHONE_EVENT]"
    using valid A(2,3) family facts
    by (auto simp: check_answer_def RtpEndpoint_reject_family_change_def hears_with_def sends_with_def p parsed_media_def
        Let_def offered_key_def RtpEndpoint_validate_remote_srtp_lifetime_update_def split: if_splits)
qed

lemma applied_answer:
  assumes "is_audio c" "ep_direction A = SendRecv" "rs_remote_receiver_report (ep_rtcp_stats A) = None"
    and "p = parsed_media lib ip port proto [read_back c, CODEC_TELEPHONE_EVENT] crypto prof"
  defines "e \<equiv> apply_codecs p [read_back c, CODEC_TELEPHONE_EVENT] (apply_remote_addr p (apply_direction p A))"
  shows "ep_codecs e = [read_back c, CODEC_TELEPHONE_EVENT]" "ep_send_codec e = Some (read_back c)"
    "ep_telephone_event_pt e = Some 101" "ep_recv_clock_rate e = cd_clock_rate c" "ep_direction e = SendRecv"
    "ep_remote_rtp_addr e = Some \<lparr>sa_ip = ip, sa_port = port\<rparr>" "ep_remote_rtcp_addr e = Some \<lparr>sa_ip = ip, sa_port = port\<rparr>"
    "ep_rtcp_mux e" "ep_local_rtp_addr e = ep_local_rtp_addr A"
    "sends_with lib key e = sends_with lib key A" "hears_with lib key e = hears_with lib key A"
proof -
  note applied = apply_codecs_def apply_remote_addr_def apply_rtcp_addr_def apply_direction_def Let_def
  show "sends_with lib key e = sends_with lib key A"
    by (rule sends_with_cong) (simp_all add: e_def applied split: option.split)
  show "hears_with lib key e = hears_with lib key A"
    by (rule hears_with_cong) (simp_all add: e_def applied split: option.split)
qed (use assms(2-4) audio_facts [OF assms(1)] answer_telephone_event [OF assms(1)] in
  \<open>simp_all add: e_def apply_codecs_def apply_remote_addr_def apply_rtcp_addr_def apply_direction_def Let_def
    parsed_media_def endpoint_direction_from_sdp_def telephone_facts\<close>)

lemma accept_answer_eq:
  assumes keys: "base64_ok lib" "base64_text_ok lib" "length kb = 30" "length ka = 30"
    and p: "parse_sdp lib answer
      = parsed_media lib ip port proto [read_back c, CODEC_TELEPHONE_EVENT] (offered_key lib kb sec) prof"
    and proto: "proto \<in> {''RTP/AVP'', ''RTP/SAVP''}" "sec = PlainRtp \<longrightarrow> proto = ''RTP/AVP''"
    and codec: "offered cs" "is_audio c" "c \<in> set cs"
    and A: "ep_codecs A = cs" "hears_with lib None A" "sends_with lib (offered_key lib ka sec) A" "ep_direction A = SendRecv"
      "rs_remote_receiver_report (ep_rtcp_stats A) = None"
    and family: "is_ipv6 ip = is_ipv6 (sa_ip (ep_local_rtp_addr A))"
  obtains A' where "RtpEndpoint_accept_answer lib now kc A answer = (Inr (), A')"
    "ep_codecs A' = [read_back c, CODEC_TELEPHONE_EVENT]" "ep_send_codec A' = Some (read_back c)"
    "ep_telephone_event_pt A' = Some 101" "ep_recv_clock_rate A' = cd_clock_rate c" "ep_direction A' = SendRecv"
    "ep_remote_rtp_addr A' = Some \<lparr>sa_ip = ip, sa_port = port\<rparr>" "ep_remote_rtcp_addr A' = Some \<lparr>sa_ip = ip, sa_port = port\<rparr>"
    "ep_rtcp_mux A'" "ep_state A' = Connected" "ep_local_rtp_addr A' = ep_local_rtp_addr A"
    "sends_with lib (offered_key lib ka sec) A'" "hears_with lib (offered_key lib kb sec) A'"
proof -
  let ?p = "parsed_media lib ip port proto [read_back c, CODEC_TELEPHONE_EVENT] (offered_key lib kb sec) prof"
  note check = check_answer_eq [OF keys(1-3) refl proto codec A(1-3) family, where prof = prof]
  define e where "e = apply_codecs ?p [read_back c, CODEC_TELEPHONE_EVENT] (apply_remote_addr ?p (apply_direction ?p A))"
  note e = applied_answer [OF codec(2) A(4,5) refl, where lib = lib and ip = ip and port = port and proto = proto
    and crypto = "offered_key lib kb sec" and prof = prof, folded e_def]
  obtain rx rxc where rx: "apply_crypto lib now kc ?p e = (Inr (), e\<lparr>ep_srtp_rx := rx, ep_srtcp_rx := rxc,
      ep_srtp_rx_key_b64 := map_option cy_key_b64 (offered_key lib kb sec)\<rparr>)"
    "hears_with lib (offered_key lib kb sec) (e\<lparr>ep_srtp_rx := rx, ep_srtcp_rx := rxc,
      ep_srtp_rx_key_b64 := map_option cy_key_b64 (offered_key lib kb sec)\<rparr>)"
  proof -
    note keyed = A(2) [folded e(11)] A(3) [folded e(10)]
    show thesis
    proof (cases "sec = PlainRtp")
      case True
      with keyed(1) show thesis
        by (intro that [of None None]) (simp_all add: apply_crypto_def parsed_media_def Let_def offered_key_def hears_with_def)
    next
      case False
      obtain cx cy where "remote_srtp_contexts lib (crypto_of_key (cl_base64_encode lib kb)) = Inr (cx, cy)"
        using fresh_key [OF keys(1-3)] by metis
      with keyed False show thesis
        by (intro that [where rx = "Some cx" and rxc = "Some cy"]) (auto simp: apply_crypto_def apply_rx_key_def parsed_media_def Let_def
          offered_key_def hears_with_def sends_with_def split: sum.splits)
    qed
  qed
  let ?r = "e\<lparr>ep_srtp_rx := rx, ep_srtcp_rx := rxc, ep_srtp_rx_key_b64 := map_option cy_key_b64 (offered_key lib kb sec)\<rparr>"
  let ?A = "(RtpEndpoint_reset_addr_lock now (?r\<lparr>ep_state := Connected\<rparr>))\<lparr>ep_remote_ssrc := None\<rparr>"
  have "RtpEndpoint_accept_answer lib now kc A answer = (Inr (), ?A)"
    unfolding RtpEndpoint_accept_answer_def Let_def p check(1) sum.case select_plain_rtp_def if_not_P [OF check(2)]
      e_def [symmetric] rx prod.case by simp
  moreover have "sends_with lib (offered_key lib ka sec) ?A"
    by (rule sends_with_cong [THEN iffD2, OF _ _ _ A(3) [folded e(10)]])
      (simp_all add: RtpEndpoint_reset_addr_lock_def)
  moreover have "hears_with lib (offered_key lib kb sec) ?A"
    by (rule hears_with_cong [THEN iffD2, OF _ _ _ _ _ _ rx(2)]) (simp_all add: RtpEndpoint_reset_addr_lock_def)
  ultimately show thesis
    by (intro that [of ?A]) (simp_all add: e RtpEndpoint_reset_addr_lock_def)
qed

text \<open>What two endpoints agree on.\<close>

definition agreed :: "sdp_codec list \<Rightarrow> rtp_media_security \<Rightarrow> rtp_endpoint \<Rightarrow> rtp_endpoint \<Rightarrow> bool" where
  "agreed codecs sec A B \<longleftrightarrow>
     ep_state A = Connected \<and> ep_state B = Connected \<and> ep_direction A = SendRecv \<and> ep_direction B = SendRecv
     \<and> ep_remote_rtp_addr A = Some (ep_local_rtp_addr B) \<and> ep_remote_rtp_addr B = Some (ep_local_rtp_addr A)
     \<and> ep_remote_rtcp_addr A = Some (ep_local_rtp_addr B) \<and> ep_remote_rtcp_addr B = Some (ep_local_rtp_addr A)
     \<and> ep_codecs A = ep_codecs B \<and> ep_send_codec A = ep_send_codec B
     \<and> ep_recv_clock_rate A = ep_recv_clock_rate B \<and> ep_telephone_event_pt A = ep_telephone_event_pt B
     \<and> (case ep_send_codec A of Some c \<Rightarrow> c \<in> set (ep_codecs A) \<inter> read_back ` set codecs \<and> \<not> is_telephone_event c | None \<Rightarrow> False)
     \<and> ep_srtp_tx A = ep_srtp_rx B \<and> ep_srtp_tx B = ep_srtp_rx A \<and> ep_srtcp_tx A = ep_srtcp_rx B
     \<and> ep_srtcp_tx B = ep_srtcp_rx A \<and> (ep_srtp_tx A = None) = (sec = PlainRtp) \<and> (ep_srtp_rx A = None) = (sec = PlainRtp)"

lemma keys_agree:
  assumes "sends_with lib crypto A" "hears_with lib crypto B"
  shows "ep_srtp_tx A = ep_srtp_rx B" "ep_srtcp_tx A = ep_srtcp_rx B" "(ep_srtp_tx A = None) = (crypto = None)"
  using assms by (auto simp: sends_with_def hears_with_def split: option.splits sum.splits)

lemma offered_list: "list_ex (\<lambda>c. \<not> is_telephone_event c) (offer_codec_list pref) \<Longrightarrow> offered (offer_codec_list pref)"
  by (rule offer_codec_list_split [of pref]) (auto simp: offered_def telephone_facts)

lemma describable_answer:
  assumes "is_audio c" "proto \<in> {''RTP/AVP'', ''RTP/SAVP''}" "\<forall>k. crypto = Some k \<longrightarrow> plain_key k"
  shows "describable proto [read_back c, CODEC_TELEPHONE_EVENT] crypto"
  using assms audio_facts [OF assms(1)] well_known_codecs(4,8) telephone_facts
  by (auto simp: describable_def split: option.split)

lemma offer_parses:
  assumes "base64_ok lib" "base64_text_ok lib" "length kb = 30" "port \<noteq> 0"
  shows "\<exists>prof. parse_sdp lib (generate_sdp addr port (offer_codec_list pref) (offered_key lib kb sec) sid avp None)
    = parsed_media lib (sa_ip addr) port (if offered_key lib kb sec \<noteq> None \<and> \<not> avp then ''RTP/SAVP'' else ''RTP/AVP'')
        (offer_codec_list pref) (offered_key lib kb sec) prof"
proof -
  have "describable ''RTP/AVP'' (with_telephone_event (offer_codec_list pref)) (offered_key lib kb sec)"
    using describable_offer [of "''RTP/AVP''" "offered_key lib kb sec" pref] offer_codec_list_ok [of pref]
      offered_key_ok(1) [OF assms(1-3)]
    by (auto split: option.splits)
  from parse_offer [OF this assms(4), where lib = lib and a = addr and sid = sid and avp = avp] show ?thesis
    using offer_codec_list_ok [of pref] by simp
qed

lemma answer_parses:
  assumes "base64_ok lib" "base64_text_ok lib" "length kb = 30" "sa_port addr \<noteq> 0" "is_audio c"
    and "proto \<in> {''RTP/AVP'', ''RTP/SAVP''}"
  shows "\<exists>prof. parse_sdp lib (answer_of addr sid proto c (offered_key lib kb sec))
    = parsed_media lib (sa_ip addr) (sa_port addr) proto [read_back c, CODEC_TELEPHONE_EVENT] (offered_key lib kb sec) prof"
  unfolding answer_of_def
  using offered_key_ok(1) [OF assms(1-3)] assms(4-) by (intro parse_generated_lines describable_answer) auto

section \<open>Properties\<close>

text \<open>C2. An offer and its answer agree: whatever codecs a preference list leaves to offer and whatever
  security is asked for, the answer to the text of an offer succeeds, its text is accepted, and the
  two endpoints end up connected to each other with the same codec, the same telephone-event payload
  type and, unless plain RTP was asked for, each one decrypting with the key the other encrypts
  with.\<close>

theorem offer_answer_agree:
  assumes "base64_ok lib" "base64_text_ok lib" "length key_a = 30" "length key_b = 30"
    and "sa_port addr_a \<noteq> 0" "sa_port addr_b \<noteq> 0" "is_ipv6 (sa_ip addr_a) = is_ipv6 (sa_ip addr_b)"
    and "list_ex (\<lambda>c. \<not> is_telephone_event c) (offer_codec_list pref)"
  shows "\<exists>A B. negotiate lib now (ssrc_a, seq_a, key_a, id_a, addr_a) (ssrc_b, seq_b, key_b, id_b, addr_b)
      (offer_codec_list pref) sec = Inr (A, B)
    \<and> ep_local_rtp_addr A = addr_a \<and> ep_local_rtp_addr B = addr_b \<and> agreed (offer_codec_list pref) sec A B"
proof -
  let ?cs = "offer_codec_list pref" and ?ka = "offered_key lib key_a sec" and ?kb = "offered_key lib key_b sec"
  let ?proto = "if ?ka \<noteq> None \<and> sec \<noteq> OptionalSrtp then ''RTP/SAVP'' else ''RTP/AVP''"
  have proto: "?proto \<in> {''RTP/AVP'', ''RTP/SAVP''}" "sec = PlainRtp \<longrightarrow> ?proto = ''RTP/AVP''"
    by (simp_all add: offered_key_def)
  note cs = offered_list [OF assms(8)]
  obtain c where c: "is_audio c" "c \<in> set ?cs" "select_answer_codec (map read_back ?cs) = Some (read_back c)"
    using answer_choice [OF cs] by blast
  obtain A where A: "RtpEndpoint_create_offer lib now ssrc_a seq_a key_a id_a SendRecv addr_a (sa_ip addr_a) ?cs sec
      = Inr (A, generate_sdp addr_a (sa_port addr_a) ?cs ?ka (ucast id_a) (sec = OptionalSrtp) None)"
    "ep_codecs A = ?cs" "ep_local_rtp_addr A = addr_a" "sends_with lib ?ka A" "hears_with lib None A"
    "ep_direction A = SendRecv" "rs_remote_receiver_report (ep_rtcp_stats A) = None"
    by (rule create_offer_eq [OF assms(1-3)])
  obtain prof where
    offer: "parse_sdp lib (generate_sdp addr_a (sa_port addr_a) ?cs ?ka (ucast id_a) (sec = OptionalSrtp) None)
      = parsed_media lib (sa_ip addr_a) (sa_port addr_a) ?proto ?cs ?ka prof"
    using offer_parses [OF assms(1-3,5)] by blast
  obtain B where B: "RtpEndpoint_from_offer_with_codec lib now ssrc_b seq_b key_b id_b SendRecv
        (generate_sdp addr_a (sa_port addr_a) ?cs ?ka (ucast id_a) (sec = OptionalSrtp) None) addr_b (sa_ip addr_b) None
      = Inr (B, answer_of addr_b (ucast id_b) ?proto c ?kb)"
    "ep_codecs B = [read_back c, CODEC_TELEPHONE_EVENT]" "ep_send_codec B = Some (read_back c)"
    "ep_telephone_event_pt B = Some 101" "ep_recv_clock_rate B = cd_clock_rate c" "ep_direction B = SendRecv"
    "ep_remote_rtp_addr B = Some \<lparr>sa_ip = sa_ip addr_a, sa_port = sa_port addr_a\<rparr>"
    "ep_remote_rtcp_addr B = Some \<lparr>sa_ip = sa_ip addr_a, sa_port = sa_port addr_a\<rparr>"
    "ep_rtcp_mux B" "ep_state B = Connected" "ep_local_rtp_addr B = addr_b" "sends_with lib ?kb B" "hears_with lib ?ka B"
    by (rule from_offer_eq [OF assms(1-4) offer proto cs c(1,3)])
  obtain prof' where
    answer: "parse_sdp lib (answer_of addr_b (ucast id_b) ?proto c ?kb)
      = parsed_media lib (sa_ip addr_b) (sa_port addr_b) ?proto [read_back c, CODEC_TELEPHONE_EVENT] ?kb prof'"
    using answer_parses [OF assms(1,2,4,6) c(1) proto(1)] by blast
  have family: "is_ipv6 (sa_ip addr_b) = is_ipv6 (sa_ip (ep_local_rtp_addr A))" by (simp add: A(3) assms(7))
  obtain A' where A': "RtpEndpoint_accept_answer lib now key_a A (answer_of addr_b (ucast id_b) ?proto c ?kb) = (Inr (), A')"
    "ep_codecs A' = [read_back c, CODEC_TELEPHONE_EVENT]" "ep_send_codec A' = Some (read_back c)"
    "ep_telephone_event_pt A' = Some 101" "ep_recv_clock_rate A' = cd_clock_rate c" "ep_direction A' = SendRecv"
    "ep_remote_rtp_addr A' = Some \<lparr>sa_ip = sa_ip addr_b, sa_port = sa_port addr_b\<rparr>"
    "ep_remote_rtcp_addr A' = Some \<lparr>sa_ip = sa_ip addr_b, sa_port = sa_port addr_b\<rparr>"
    "ep_rtcp_mux A'" "ep_state A' = Connected" "ep_local_rtp_addr A' = ep_local_rtp_addr A"
    "sends_with lib ?ka A'" "hears_with lib ?kb A'"
    by (rule accept_answer_eq [OF assms(1,2,4,3) answer proto cs c(1,2) A(2,5,4,6,7) family])
  have "negotiate lib now (ssrc_a, seq_a, key_a, id_a, addr_a) (ssrc_b, seq_b, key_b, id_b, addr_b) ?cs sec = Inr (A', B)"
    unfolding negotiate_def prod.case A(1) sum.case B(1) A'(1) ..
  moreover have "agreed ?cs sec A' B"
    using A'(2-) B(2-) A(3) c keys_agree [OF A'(12) B(13)] keys_agree [OF B(12) A'(13)] audio_facts(1) [OF c(1)]
    by (simp add: agreed_def offered_key_def)
  ultimately show ?thesis using A'(11) A(3) B(11) by blast
qed

section \<open>Witnesses\<close>

lemma letter_text_ok: "base64_text_ok letter_crypto"
proof -
  have code: "\<not> is_whitespace (char_of n)" "CHR ''|'' \<noteq> char_of n" if "65 \<le> n" "n \<le> 80" for n :: nat
    using that by (auto simp: is_whitespace_def Let_def dest: arg_cong [of _ _ "of_char :: char \<Rightarrow> nat"])
  have "\<not> is_whitespace c \<and> c \<noteq> CHR ''|''" if c: "c \<in> set (letters b)" for b c
  proof -
    have "unat b < 256" using unsigned_less [where w = b] by simp
    then have "unat b div 16 < 16" "unat b mod 16 \<le> 15" by simp_all
    with c code [of "65 + unat b div 16"] code [of "65 + unat b mod 16"] show ?thesis
      by (auto simp: letters_def)
  qed
  moreover have "concat (map letters bs) \<noteq> []" if "length bs = 30" for bs
    using that by (cases bs) (auto simp: letters_def)
  ultimately show ?thesis
    by (auto simp: base64_text_ok_def letter_crypto_def is_word_def list_all_iff)
qed

theorem offer_answer_agree_witness:
  "\<exists>A B. negotiate letter_crypto 5 (1, 2, replicate 30 7, 3, \<lparr>sa_ip = V4 10 0 0 1, sa_port = 4000\<rparr>)
       (4, 5, replicate 30 8, 6, \<lparr>sa_ip = V4 10 0 0 2, sa_port = 5000\<rparr>) (offer_codec_list None) OptionalSrtp = Inr (A, B)
    \<and> ep_local_rtp_addr A = \<lparr>sa_ip = V4 10 0 0 1, sa_port = 4000\<rparr>
    \<and> ep_local_rtp_addr B = \<lparr>sa_ip = V4 10 0 0 2, sa_port = 5000\<rparr> \<and> agreed (offer_codec_list None) OptionalSrtp A B"
  by (rule offer_answer_agree [OF letter_crypto_ok(1) letter_text_ok])
    (simp_all add: offer_codec_list_def audio_facts is_audio_def)

end
