(* ===== verification/Resample_Frames.thy ===== *)
theory Resample_Frames
  imports Resample
begin

text \<open>
  Resampling 20 ms frames between the rates of the bridge: although the positions are rounded at
  every step, a frame of one rate gives exactly a frame of the other and the phase returns to zero.
\<close>

section \<open>The positions of the loop\<close>

primrec position :: "rat \<Rightarrow> nat \<Rightarrow> rat \<Rightarrow> rat" where
  "position ratio 0 pos = pos"
| "position ratio (Suc k) pos = position ratio k (f64_add pos ratio)"

lemma position_Suc: "position ratio (Suc k) pos = f64_add (position ratio k pos) ratio"
  by (induction k arbitrary: pos) simp_all

lemma position_nonneg: "0 \<le> pos \<Longrightarrow> 0 \<le> ratio \<Longrightarrow> 0 \<le> position ratio k pos"
  by (induction k arbitrary: pos) (simp_all add: f64_add_def f64_rnd_nonneg)

lemma position_f64: "is_f64 pos \<Longrightarrow> is_f64 (position ratio k pos)"
  by (induction k arbitrary: pos) (simp_all add: f64_add_def)

lemma position_mono:
  assumes "is_f64 pos" "0 \<le> ratio" "j \<le> k"
  shows "position ratio j pos \<le> position ratio k pos"
  using assms(3)
proof (induction k rule: dec_induct)
  case (step k)
  have "f64_rnd (position ratio k pos) \<le> position ratio (Suc k) pos"
    unfolding position_Suc f64_add_def using assms(2) by (intro f64_rnd_mono) simp
  with step position_f64 [OF assms(1)] show ?case by (simp add: is_f64_def del: position.simps)
qed simp

text \<open>The loop makes one sample for every position it visits.\<close>

lemma loop_counts:
  assumes "resample_loop ratio previous input pos outp = Some (pos', outp')"
    and "\<forall>k < n. f64_add (position ratio k pos) EPSILON < f64_of_usize (length input)"
    and "\<not> f64_add (position ratio n pos) EPSILON < f64_of_usize (length input)"
  shows "pos' = position ratio n pos \<and> length outp' = length outp + n"
  using assms
proof (induction n arbitrary: pos outp)
  case 0
  then show ?case by (subst (asm) resample_loop.simps) simp
next
  case (Suc n)
  have lt: "f64_add pos EPSILON < f64_of_usize (length input)"
    using Suc.prems(2) [rule_format, of 0] by simp
  have "\<forall>k < n. f64_add (position ratio k (f64_add pos ratio)) EPSILON < f64_of_usize (length input)"
    using Suc.prems(2) by (metis Suc_mono position.simps(2))
  moreover have "\<not> f64_add (position ratio n (f64_add pos ratio)) EPSILON < f64_of_usize (length input)"
    using Suc.prems(3) by simp
  moreover obtain s where
    "resample_loop ratio previous input (f64_add pos ratio) (outp @ [s]) = Some (pos', outp')"
    using Suc.prems(1) lt by (subst (asm) resample_loop.simps) (auto simp: Let_def split: if_splits)
  ultimately show ?case using Suc.IH by fastforce
qed

lemma powi_values: "(2 :: rat) powi (- 30) = 1 / 1073741824" "(2 :: rat) powi (- 29) = 1 / 536870912"
    "(2 :: rat) powi (- 4) = 1 / 16" "(2 :: rat) powi (- 5) = 1 / 32"
  by (simp_all add: power_int_minus)

lemma epsilon_bounds: "2 powi (- 30) \<le> EPSILON" "EPSILON \<le> 2 powi (- 29)"
proof -
  have "f64_rnd (of_int 1 * 2 powi (- 30)) \<le> EPSILON" "EPSILON \<le> f64_rnd (of_int 1 * 2 powi (- 29))"
    unfolding EPSILON_def by (intro f64_rnd_mono; simp add: powi_values)+
  then show "2 powi (- 30) \<le> EPSILON" "EPSILON \<le> 2 powi (- 29)"
    using f64_rnd_exact [of 1 "- 30"] f64_rnd_exact [of 1 "- 29"] by simp_all
qed

lemma loop_ends:
  assumes "of_nat n - 2 powi (- 30) \<le> pos" "n \<le> 2 ^ 20"
  shows "\<not> f64_add pos EPSILON < f64_of_usize n"
proof -
  have "f64_rnd (of_int (int n)) \<le> f64_add pos EPSILON"
    unfolding f64_add_def using assms(1) epsilon_bounds(1) by (intro f64_rnd_mono) simp
  then show ?thesis using assms(2) f64_rnd_int [of "int n"] by (simp add: f64_of_usize_small)
qed

lemma loop_goes_on:
  assumes "pos \<le> of_nat n - 1 / 8" "0 < n" "n \<le> 2 ^ 20"
  shows "f64_add pos EPSILON < f64_of_usize n"
proof -
  have n: "of_nat n - 1 / 16 = of_int (16 * int n - 1) * (2 powi (- 4) :: rat)" by (simp add: powi_values field_simps)
  have "f64_add pos EPSILON \<le> f64_rnd (of_nat n - 1 / 16)"
    unfolding f64_add_def using assms(1) epsilon_bounds(2) by (intro f64_rnd_mono) (simp add: powi_values)
  also have "\<dots> = of_nat n - 1 / 16"
    unfolding n using assms(2,3) by (intro f64_rnd_exact) simp
  finally show ?thesis using assms(3) by (simp add: f64_of_usize_small)
qed

text \<open>A frame whose last position falls on its end, but for less than the tolerance of the loop.\<close>

lemma frame_counts:
  assumes loop: "resample_loop ratio previous input 0 [] = Some (pos', outp)"
    and len: "0 < length input" "length input \<le> 2 ^ 20" and ratio: "5 / 32 \<le> ratio" and n: "0 < n"
    and at_end: "of_nat (length input) - 2 powi (- 30) \<le> position ratio n 0" "position ratio n 0 \<le> of_nat (length input)"
  shows "length outp = n" "pos' \<le> of_nat (length input)"
proof -
  let ?L = "of_nat (length input) :: rat"
  obtain m where m: "n = Suc m" using n by (cases n) auto
  have f0: "is_f64 0" using is_f64_int [of 0] by simp
  have before: "position ratio m 0 \<le> ?L - 1 / 8"
  proof (rule ccontr)
    assume "\<not> ?thesis"
    then have "f64_rnd (?L + 1 / 32) \<le> position ratio n 0"
      unfolding m position_Suc f64_add_def using ratio by (intro f64_rnd_mono) simp
    moreover have e: "?L + 1 / 32 = of_int (32 * int (length input) + 1) * 2 powi (- 5)"
      by (simp add: powi_values field_simps)
    moreover have "f64_rnd \<dots> = \<dots>" using len by (intro f64_rnd_exact) simp
    ultimately show False using at_end(2) by simp
  qed
  have "f64_add (position ratio k 0) EPSILON < f64_of_usize (length input)" if "k < n" for k
  proof -
    have "position ratio k 0 \<le> position ratio m 0" using that m ratio f0 by (intro position_mono) simp_all
    with before len show ?thesis by (intro loop_goes_on) simp_all
  qed
  moreover have "\<not> f64_add (position ratio n 0) EPSILON < f64_of_usize (length input)"
    using at_end(1) len(2) by (rule loop_ends)
  ultimately show "length outp = n" "pos' \<le> ?L" using loop_counts [OF loop, of n] at_end(2) by simp_all
qed

section \<open>Ratios that are halves of integers\<close>

lemma position_exact:
  assumes "ratio = of_int q * 2 powi e" "0 \<le> q" "int k * q \<le> 2 ^ 53"
  shows "position ratio k 0 = of_int (int k * q) * 2 powi e"
  using assms(3)
proof (induction k)
  case (Suc k)
  have "position ratio k 0 = of_int (int k * q) * 2 powi e"
    using Suc.prems assms(2) by (intro Suc.IH) (simp add: distrib_right)
  then have "position ratio (Suc k) 0 = f64_rnd (of_int (int (Suc k) * q) * 2 powi e)"
    unfolding position_Suc f64_add_def by (simp add: assms(1) algebra_simps)
  also have "\<dots> = of_int (int (Suc k) * q) * 2 powi e"
    using Suc.prems assms(2) by (intro f64_rnd_exact) simp
  finally show ?case .
qed simp

section \<open>A third and a sixth\<close>

text \<open>Adding a double over and over in units of its last bit: the unit of the significand of the
  sum doubles each time the sum outgrows 53 bits.\<close>

definition round_div :: "int \<Rightarrow> int \<Rightarrow> int" where
  "round_div n d = (let f = n div d; m = 2 * (n mod d) in
     if m < d then f else if d < m then f + 1 else if even f then f else f + 1)"

primrec sum53 :: "nat \<Rightarrow> int \<Rightarrow> int \<Rightarrow> int \<Rightarrow> int" where
  "sum53 0 r d n = n"
| "sum53 (Suc k) r d n =
     (let x = n + r; d = (if x < 9007199254740992 * d then d else 2 * d)
      in sum53 k r d (if d = 1 then x else round_div x d * d))"

lemma round_div: "0 < d \<Longrightarrow> round_even (of_int n / of_int d) = round_div n d"
proof -
  assume d: "0 < d"
  have f: "\<lfloor>of_int n / of_int d :: rat\<rfloor> = n div d" by (rule floor_divide_of_int_eq)
  have "(of_int n :: rat) = of_int (n div d) * of_int d + of_int (n mod d)"
    by (metis div_mult_mod_eq of_int_add of_int_mult)
  then have r: "of_int n / of_int d - of_int (n div d) = (of_int (n mod d) / of_int d :: rat)"
    using d by (simp add: field_simps)
  have "(of_int (n mod d) / of_int d :: rat) < 1 / 2 \<longleftrightarrow> (of_int (2 * (n mod d)) :: rat) < of_int d"
    "(1 / 2 :: rat) < of_int (n mod d) / of_int d \<longleftrightarrow> of_int d < (of_int (2 * (n mod d)) :: rat)"
    using d by (simp_all add: field_simps)
  then show ?thesis
    unfolding round_even_def round_div_def f r Let_def by (simp only: of_int_less_iff)
qed

lemma round_div_bounds:
  assumes "a * d \<le> x" "x < b * d" "0 < d"
  shows "a * d \<le> round_div x d * d" "round_div x d * d \<le> b * d"
proof -
  have "a \<le> x div d" using zdiv_mono1 [OF assms(1,3)] assms(3) by simp
  moreover have "x div d < b"
  proof -
    have "x div d * d \<le> x" using pos_mod_sign [OF assms(3), of x] div_mult_mod_eq [of x d] by linarith
    with assms(2) have "x div d * d < b * d" by linarith
    with assms(3) show ?thesis by simp
  qed
  moreover have "x div d \<le> round_div x d" "round_div x d \<le> x div d + 1" by (simp_all add: round_div_def Let_def)
  ultimately have "a \<le> round_div x d" "round_div x d \<le> b" by simp_all
  with assms(3) show "a * d \<le> round_div x d * d" "round_div x d * d \<le> b * d" by (simp_all add: mult_right_mono)
qed

lemma rnd_scaled:
  assumes "2 ^ 52 * 2 ^ s \<le> x" "x < 2 ^ 53 * 2 ^ s"
  shows "f64_rnd (of_int x * 2 powi e) = of_int (round_div x (2 ^ s) * 2 ^ s) * 2 powi e"
proof -
  have x: "0 < x" using assms(1) by (smt (verit) zero_less_power mult_pos_pos)
  have "(of_int (2 ^ 52 * 2 ^ s) :: rat) \<le> of_int x" "(of_int x :: rat) < of_int (2 ^ 53 * 2 ^ s)"
    using assms by (simp_all only: of_int_le_iff of_int_less_iff)
  then have "2 powi (52 + int s + e) \<le> of_int x * (2 powi e :: rat)" "of_int x * 2 powi e < (2 powi (52 + int s + e + 1) :: rat)"
    by (simp_all add: power_int_add)
  then have log: "ilog2 (of_int x * 2 powi e) = 52 + int s + e" by (rule ilog2_unique)
  have "of_int x * 2 powi e / 2 powi (int s + e) = (of_int x / of_int (2 ^ s) :: rat)"
    by (simp add: power_int_add)
  then show ?thesis
    using x by (simp add: f64_rnd_pos log round_div [of "2 ^ s" x, simplified] power_int_add)
qed

lemma two_power_one: "((2 :: int) ^ t = 1) = (t = 0)"
proof (cases t)
  case (Suc n)
  then have "even ((2 :: int) ^ t)" by simp
  then have "(2 :: int) ^ t \<noteq> 1" by (metis odd_one)
  with Suc show ?thesis by simp
qed simp

lemma position_sum53:
  assumes "0 < r" "r < 2 ^ 53" "0 \<le> n" "n \<le> 2 ^ 53 * 2 ^ s" "s = 0 \<or> 2 ^ 52 * 2 ^ s \<le> n"
  shows "position (of_int r * 2 powi e) k (of_int n * 2 powi e) = of_int (sum53 k r (2 ^ s) n) * 2 powi e"
  using assms(3-)
proof (induction k arbitrary: n s)
  case (Suc k)
  let ?x = "n + r"
  let ?t = "if ?x < 9007199254740992 * 2 ^ s then s else Suc s"
  let ?n = "if ?t = 0 then ?x else round_div ?x (2 ^ ?t) * 2 ^ ?t"
  have lt: "?x < 2 ^ 53 * 2 ^ ?t"
  proof -
    define p where "p = (2 :: int) ^ s"
    have "1 \<le> p" by (simp add: p_def)
    moreover have "n \<le> 9007199254740992 * p" using Suc.prems(2) by (simp add: p_def)
    ultimately show ?thesis using assms(2) by (simp flip: p_def)
  qed
  have ge: "?t = 0 \<or> 2 ^ 52 * 2 ^ ?t \<le> ?x"
    using Suc.prems assms(1) by auto
  have add: "f64_add (of_int n * 2 powi e) (of_int r * 2 powi e) = of_int ?n * 2 powi e"
  proof (cases "?t = 0")
    case True
    then show ?thesis using lt Suc.prems assms(1) f64_rnd_exact [of ?x e]
      by (simp add: f64_add_def distrib_right)
  next
    case False
    then show ?thesis using rnd_scaled [of ?t ?x e] lt ge by (simp add: f64_add_def distrib_right)
  qed
  have "0 \<le> ?n \<and> ?n \<le> 2 ^ 53 * 2 ^ ?t \<and> (?t = 0 \<or> 2 ^ 52 * 2 ^ ?t \<le> ?n)"
    using lt ge Suc.prems(1) assms(1) round_div_bounds [of "2 ^ 52" "2 ^ ?t" ?x "2 ^ 53"] by auto
  then have "position (of_int r * 2 powi e) k (of_int ?n * 2 powi e) = of_int (sum53 k r (2 ^ ?t) ?n) * 2 powi e"
    by (intro Suc.IH) simp_all
  moreover have "sum53 (Suc k) r (2 ^ s) n = sum53 k r (2 ^ ?t) ?n"
  proof -
    have "(if ?x < 9007199254740992 * 2 ^ s then 2 ^ s else 2 * 2 ^ s) = (2 ^ ?t :: int)" by simp
    moreover have "(2 ^ ?t = (1 :: int)) = (?t = 0)" by (rule two_power_one)
    ultimately show ?thesis by (simp only: sum53.simps Let_def)
  qed
  ultimately show ?case by (simp only: position.simps add)
qed simp

lemma sum_of_960: "sum53 960 6004799503160661 1 0 = 320 * 2 ^ 54 - 13312"
  by code_simp

lemma third:
  assumes "x * 3 = 2 powi (e + 54)" "ilog2 x = e + 52"
  shows "f64_rnd x = of_int 6004799503160661 * 2 powi e"
proof -
  have "0 < x * 3" unfolding assms(1) by simp
  then have x: "0 < x" by simp
  have q: "x / 2 powi e = 18014398509481984 / 3" using assms(1) by (simp add: power_int_add field_simps)
  have r: "round_even (18014398509481984 / 3) = 6004799503160661"
    by (simp add: round_even_def Let_def floor_divide_of_int_eq [of 18014398509481984 3, simplified])
  have e: "e + 52 - 52 = e" by simp
  show ?thesis unfolding f64_rnd_pos [OF x] assms(2) e q r ..
qed

lemma ratio_values:
  "f64_div 16000 48000 = of_int 6004799503160661 * 2 powi (- 54)"
  "f64_div 8000 48000 = of_int 6004799503160661 * 2 powi (- 55)"
  "f64_div 8000 16000 = of_int 1 * 2 powi (- 1)" "f64_div 16000 8000 = of_int 2 * 2 powi 0"
  "f64_div 48000 16000 = of_int 3 * 2 powi 0" "f64_div 48000 8000 = of_int 6 * 2 powi 0"
proof -
  have "ilog2 (1 / 3) = - 54 + 52" "ilog2 (1 / 6) = - 55 + 52"
    by (rule ilog2_unique; simp add: power_int_minus)+
  then show "f64_div 16000 48000 = of_int 6004799503160661 * 2 powi (- 54)"
    "f64_div 8000 48000 = of_int 6004799503160661 * 2 powi (- 55)"
    using third [of "1 / 3" "- 54"] third [of "1 / 6" "- 55"] by (simp_all add: f64_div_def power_int_minus)
  show "f64_div 8000 16000 = of_int 1 * 2 powi (- 1)" "f64_div 16000 8000 = of_int 2 * 2 powi 0"
    "f64_div 48000 16000 = of_int 3 * 2 powi 0" "f64_div 48000 8000 = of_int 6 * 2 powi 0"
    using f64_rnd_exact [of 1 "- 1"] f64_rnd_exact [of 2 0] f64_rnd_exact [of 3 0] f64_rnd_exact [of 6 0]
    by (simp_all add: f64_div_def power_int_minus)
qed

lemma frame_positions:
  "position (f64_div 16000 48000) 960 0 = 320 - 13312 / 2 ^ 54" "position (f64_div 8000 48000) 960 0 = 160 - 13312 / 2 ^ 55"
  "position (f64_div 8000 16000) 320 0 = 160" "position (f64_div 16000 8000) 160 0 = 320"
  "position (f64_div 48000 16000) 320 0 = 960" "position (f64_div 48000 8000) 160 0 = 960"
proof -
  have p: "position (of_int 6004799503160661 * 2 powi e) 960 0 = of_int (320 * 2 ^ 54 - 13312) * 2 powi e" for e
    using position_sum53 [of 6004799503160661 0 0 e 960] by (simp add: sum_of_960)
  show "position (f64_div 16000 48000) 960 0 = 320 - 13312 / 2 ^ 54" "position (f64_div 8000 48000) 960 0 = 160 - 13312 / 2 ^ 55"
    unfolding ratio_values p by (simp_all add: power_int_minus)
  show "position (f64_div 8000 16000) 320 0 = 160" "position (f64_div 16000 8000) 160 0 = 320"
    "position (f64_div 48000 16000) 320 0 = 960" "position (f64_div 48000 8000) 160 0 = 960"
    using position_exact [OF ratio_values(3), of 320] position_exact [OF ratio_values(4), of 160]
      position_exact [OF ratio_values(5), of 320] position_exact [OF ratio_values(6), of 160]
    by (simp_all add: power_int_minus)
qed

section \<open>Frames\<close>

definition media_rate :: "u32 \<Rightarrow> bool" where
  "media_rate rate \<longleftrightarrow> rate \<in> {8000, 16000, 48000}"

lemma frame_ends:
  assumes "media_rate from" "media_rate to" "from \<noteq> to"
  defines "ratio \<equiv> f64_div (of_nat (unat from)) (of_nat (unat to))"
  shows "5 / 32 \<le> ratio" "of_nat (unat from div 50) - 2 powi (- 30) \<le> position ratio (unat to div 50) 0"
    "position ratio (unat to div 50) 0 \<le> of_nat (unat from div 50)"
proof -
  have rates: "from = 8000 \<and> to = 16000 \<or> from = 8000 \<and> to = 48000 \<or> from = 16000 \<and> to = 8000
      \<or> from = 16000 \<and> to = 48000 \<or> from = 48000 \<and> to = 8000 \<or> from = 48000 \<and> to = 16000"
    using assms(1-3) by (auto simp: media_rate_def)
  then show "5 / 32 \<le> ratio" unfolding ratio_def
    by (elim disjE) (simp_all add: ratio_values power_int_minus)
  from rates show "of_nat (unat from div 50) - 2 powi (- 30) \<le> position ratio (unat to div 50) 0"
    "position ratio (unat to div 50) 0 \<le> of_nat (unat from div 50)" unfolding ratio_def
    by (elim disjE; simp add: frame_positions power_int_minus)+
qed

lemma resample_frame:
  assumes rates: "media_rate (rp_from_rate r)" "media_rate (rp_to_rate r)" and "rp_frac_pos r = 0"
    and len: "length input = unat (rp_from_rate r div 50)"
  obtains outp r' where "Resampler_process r input = Some (outp, r')" "length outp = unat (rp_to_rate r div 50)"
    "rp_frac_pos r' = 0" "rp_from_rate r' = rp_from_rate r" "rp_to_rate r' = rp_to_rate r"
proof (cases "rp_from_rate r = rp_to_rate r")
  case True
  with assms(3) len show thesis
    by (intro that [of input r]) (simp_all add: Resampler_process_def Resampler_is_passthrough_def)
next
  case False
  let ?ratio = "f64_div (of_nat (unat (rp_from_rate r))) (of_nat (unat (rp_to_rate r)))"
  note ends = frame_ends [OF rates False]
  have n: "0 < length input" "length input \<le> 2 ^ 20" "input \<noteq> []" "length input = unat (rp_from_rate r) div 50"
    "0 < unat (rp_to_rate r) div 50"
    using rates len by (auto simp: media_rate_def unat_div)
  have "resampler_ok r" using rates assms(3) is_f64_int [of 0] by (auto simp: resampler_ok_def media_rate_def)
  moreover have "list_all (in_range (- 32768) 32767) input" "pred_option (in_range (- 32768) 32767) (rp_previous r)"
    using sint_i16_bounds by (auto simp: in_range_def list_all_iff pred_option_def)
  ultimately obtain outp r' where out: "Resampler_process r input = Some (outp, r')"
    using process_returns [of r input] n(2) by blast
  then obtain pos' where loop: "resample_loop ?ratio (rp_previous r) input 0 [] = Some (pos', outp)"
    and r': "r' = r\<lparr>rp_frac_pos := max (f64_sub pos' (f64_of_usize (length input))) 0, rp_previous := Some (last input)\<rparr>"
    using False n(3) assms(3)
    by (auto simp: Resampler_process_def Resampler_is_passthrough_def Let_def split: option.splits)
  note counts = frame_counts [OF loop n(1,2) ends(1) n(5) ends(2,3) [folded n(4)]]
  have "f64_sub pos' (f64_of_usize (length input)) \<le> f64_rnd 0"
    unfolding f64_sub_def using counts(2) n(2) by (intro f64_rnd_mono) (simp add: f64_of_usize_small)
  with out counts(1) show thesis by (intro that [of outp r']) (simp_all add: r' unat_div)
qed

end
