(* ===== verification/Source_Audio.thy ===== *)
theory Source_Audio
  imports Containers Rtp_Header Audio_Codec Pcm_Frames Resample_Frames
begin

text \<open>
  The decoder and the resamplers a source owns (\<open>src/src/session/source_audio.rs\<close>): packets are
  decoded, cut into 20 ms frames and converted to every rate a listener asks for, with one timeline.
\<close>

section \<open>Definitions\<close>

datatype source_error =
    PacketTooLarge
  | DecoderError codec_error
  | PacketTooLong
  | FramerError pcm_error
  | UnsupportedRate
  | FrameMismatch
  | SourcePanic

record 's source_audio =
  sd_decoder :: "'s audio_decoder"
  sd_epoch :: "(u32 \<times> u16 \<times> u32) option"
  sd_framer :: pcm_frames
  sd_timestamp :: u32
  sd_marker :: bool
  sd_resamplers :: "(u32, resampler) hash_map"

record pcm_frame =
  pm_timestamp :: u32
  pm_marker :: bool
  pm_rates :: "(u32, i16 list) hash_map"

definition SourceAudio_from_decoder :: "'s audio_decoder \<Rightarrow> 's source_audio" where
  "SourceAudio_from_decoder decoder =
     (let rate = AudioCodec_sample_rate (AudioDecoder_codec decoder) in
      \<lparr>sd_decoder = decoder, sd_epoch = None, sd_framer = PcmFrames_new rate, sd_timestamp = 0,
       sd_marker = True, sd_resamplers = []\<rparr>)"

definition SourceAudio_new :: "'s codec_lib \<Rightarrow> audio_codec \<Rightarrow> codec_error + 's source_audio" where
  "SourceAudio_new lib codec = map_sum id SourceAudio_from_decoder (make_decoder lib codec)"

definition SourceAudio_codec :: "'s source_audio \<Rightarrow> audio_codec" where
  "SourceAudio_codec s = AudioDecoder_codec (sd_decoder s)"

definition is_discontinuity :: "'s source_audio \<Rightarrow> routed_rtp_packet \<Rightarrow> bool" where
  "is_discontinuity s packet =
     (case sd_epoch s of
        None \<Rightarrow> False
      | Some (ssrc, seq, ts) \<Rightarrow>
          ssrc \<noteq> pk_ssrc packet \<or> seq + 1 \<noteq> pk_sequence_number packet \<or> ts \<noteq> pk_timestamp packet)"

text \<open>The part of \<open>decode\<close> after a discontinuity was handled.\<close>

definition decode_packet ::
  "'s codec_lib \<Rightarrow> audio_codec \<Rightarrow> bool \<Rightarrow> 's source_audio \<Rightarrow> routed_rtp_packet \<Rightarrow> (source_error + i16 list) \<times> 's source_audio" where
  "decode_packet lib codec discontinuity s packet =
     (let s = (if PcmFrames_is_empty (sd_framer s)
               then s\<lparr>sd_timestamp := pk_timestamp packet,
                      sd_marker := (pk_marker packet \<or> discontinuity \<or> sd_epoch s = None)\<rparr>
               else s);
          (r, pcm, decoder) = AudioDecoder_decode lib (sd_decoder s) (pk_payload packet) [];
          s = s\<lparr>sd_decoder := decoder\<rparr>
      in case r of
           Inl e \<Rightarrow> (Inl (DecoderError e), s)
         | Inr _ \<Rightarrow>
             if \<not> length pcm \<le> AudioCodec_ptime_samples codec * 6 then (Inl PacketTooLong, s)
             else if AudioCodec_sample_rate codec = 0 then (Inl SourcePanic, s)
             else
               let duration = of_nat (length pcm * unat (AudioCodec_rtp_clock_rate codec)
                     div unat (AudioCodec_sample_rate codec))
               in (Inr pcm, s\<lparr>sd_epoch := Some (pk_ssrc packet, pk_sequence_number packet,
                                              pk_timestamp packet + duration)\<rparr>))"

definition SourceAudio_decode ::
  "'s codec_lib \<Rightarrow> 's source_audio \<Rightarrow> routed_rtp_packet \<Rightarrow> (source_error + i16 list) \<times> 's source_audio" where
  "SourceAudio_decode lib s packet =
     (let codec = SourceAudio_codec s in
      if \<not> length (pk_payload packet) \<le> 16 * 1024 then (Inl PacketTooLarge, s)
      else
        let discontinuity = is_discontinuity s packet in
        if discontinuity then
          (case make_decoder lib codec of
             Inl e \<Rightarrow> (Inl (DecoderError e), s)
           | Inr decoder \<Rightarrow>
               decode_packet lib codec discontinuity
                 (s\<lparr>sd_decoder := decoder, sd_framer := PcmFrames_clear (sd_framer s), sd_resamplers := []\<rparr>) packet)
        else decode_packet lib codec discontinuity s packet)"

text \<open>The inner loop of \<open>frames\<close>: one frame converted to every rate asked for.\<close>

fun convert ::
  "u32 \<Rightarrow> i16 list \<Rightarrow> u32 list \<Rightarrow> (u32, resampler) hash_map \<Rightarrow> (u32, i16 list) hash_map
     \<Rightarrow> (source_error + (u32, i16 list) hash_map) \<times> (u32, resampler) hash_map" where
  "convert source_rate samples [] resamplers converted = (Inr converted, resamplers)"
| "convert source_rate samples (rate # rates) resamplers converted =
     (if \<not> (rate = 8000 \<or> rate = 16000 \<or> rate = 48000) then (Inl UnsupportedRate, resamplers)
      else if rate = source_rate \<or> hm_contains_key converted rate
      then convert source_rate samples rates resamplers converted
      else
        case (case hm_get resamplers rate of Some r \<Rightarrow> Some r | None \<Rightarrow> Resampler_new source_rate rate) of
          None \<Rightarrow> (Inl SourcePanic, resamplers)
        | Some resampler \<Rightarrow>
            (case Resampler_process resampler samples of
               None \<Rightarrow> (Inl SourcePanic, resamplers)
             | Some (buffer, resampler) \<Rightarrow>
                 let resamplers = hm_insert rate resampler resamplers in
                 if length buffer \<noteq> unat (rate div 50) then (Inl FrameMismatch, resamplers)
                 else convert source_rate samples rates resamplers (hm_insert rate buffer converted)))"

fun frame_loop ::
  "u32 \<Rightarrow> u32 \<Rightarrow> u32 list \<Rightarrow> i16 list list \<Rightarrow> 's source_audio \<Rightarrow> pcm_frame list
     \<Rightarrow> (source_error + pcm_frame list) \<times> 's source_audio" where
  "frame_loop source_rate increment rates [] s outp = (Inr outp, s)"
| "frame_loop source_rate increment rates (samples # frames) s outp =
     (case convert source_rate samples rates (sd_resamplers s) [] of
        (Inl e, resamplers) \<Rightarrow> (Inl e, s\<lparr>sd_resamplers := resamplers\<rparr>)
      | (Inr converted, resamplers) \<Rightarrow>
          frame_loop source_rate increment rates frames
            (s\<lparr>sd_resamplers := resamplers, sd_timestamp := sd_timestamp s + increment, sd_marker := False\<rparr>)
            (outp @ [\<lparr>pm_timestamp = sd_timestamp s, pm_marker = sd_marker s,
                      pm_rates = hm_insert source_rate samples converted\<rparr>]))"

definition SourceAudio_frames ::
  "'s source_audio \<Rightarrow> i16 list \<Rightarrow> u32 list \<Rightarrow> (source_error + pcm_frame list) \<times> 's source_audio" where
  "SourceAudio_frames s pcm rates =
     (let source_rate = AudioCodec_sample_rate (SourceAudio_codec s);
          increment = AudioCodec_rtp_clock_rate (SourceAudio_codec s) div 50
      in case PcmFrames_push (sd_framer s) pcm of
           (Inl e, framer) \<Rightarrow> (Inl (FramerError e), s\<lparr>sd_framer := framer\<rparr>)
         | (Inr frames, framer) \<Rightarrow> frame_loop source_rate increment rates frames (s\<lparr>sd_framer := framer\<rparr>) [])"

section \<open>Conversion of one frame\<close>

text \<open>Every resampler stands at the start of a frame.\<close>

definition in_phase :: "u32 \<Rightarrow> (u32, resampler) hash_map \<Rightarrow> bool" where
  "in_phase source_rate resamplers \<longleftrightarrow>
     (\<forall>rate r. hm_get resamplers rate = Some r \<longrightarrow> rp_from_rate r = source_rate \<and> rp_to_rate r = rate \<and> rp_frac_pos r = 0)"

definition has_frame :: "(u32, i16 list) hash_map \<Rightarrow> u32 \<Rightarrow> bool" where
  "has_frame converted rate \<longleftrightarrow> (\<exists>samples. hm_get converted rate = Some samples \<and> length samples = unat (rate div 50))"

lemma in_phase_resampler:
  assumes "in_phase source_rate resamplers" "media_rate source_rate" "media_rate rate"
  obtains r where "(case hm_get resamplers rate of Some r \<Rightarrow> Some r | None \<Rightarrow> Resampler_new source_rate rate) = Some r"
    "rp_from_rate r = source_rate" "rp_to_rate r = rate" "rp_frac_pos r = 0"
  using assms by (cases "hm_get resamplers rate") (auto simp: in_phase_def Resampler_new_def media_rate_def)

lemma convert_ok:
  assumes "media_rate source_rate" "length samples = unat (source_rate div 50)"
  shows "list_all media_rate rates \<Longrightarrow> in_phase source_rate resamplers \<Longrightarrow>
    \<forall>rate. hm_contains_key converted rate \<longrightarrow> has_frame converted rate \<Longrightarrow>
    \<exists>converted' resamplers'. convert source_rate samples rates resamplers converted = (Inr converted', resamplers')
      \<and> in_phase source_rate resamplers'
      \<and> (\<forall>rate. rate \<in> set rates \<and> rate \<noteq> source_rate \<or> hm_contains_key converted rate \<longrightarrow> has_frame converted' rate)"
proof (induction rates arbitrary: resamplers converted)
  case (Cons rate rates)
  from Cons.prems(1) have m: "media_rate rate" "list_all media_rate rates" by simp_all
  then have rate: "rate = 8000 \<or> rate = 16000 \<or> rate = 48000" "media_rate rate" "list_all media_rate rates"
    by (simp_all add: media_rate_def [of rate])
  show ?case
  proof (cases "rate = source_rate \<or> hm_contains_key converted rate")
    case True
    with Cons.IH [OF rate(3) Cons.prems(2,3)] rate(1) show ?thesis by auto
  next
    case False
    obtain r where r: "(case hm_get resamplers rate of Some r \<Rightarrow> Some r | None \<Rightarrow> Resampler_new source_rate rate) = Some r"
      "rp_from_rate r = source_rate" "rp_to_rate r = rate" "rp_frac_pos r = 0"
      by (rule in_phase_resampler [OF Cons.prems(2) assms(1) rate(2)])
    obtain buffer r' where r': "Resampler_process r samples = Some (buffer, r')" "length buffer = unat (rate div 50)"
      "rp_frac_pos r' = 0" "rp_from_rate r' = source_rate" "rp_to_rate r' = rate"
      using resample_frame [of r samples] assms rate(2) r(2-4) by metis
    have "in_phase source_rate (hm_insert rate r' resamplers)" using Cons.prems(2) r' by (auto simp: in_phase_def)
    moreover have "\<forall>rate'. hm_contains_key (hm_insert rate buffer converted) rate' \<longrightarrow> has_frame (hm_insert rate buffer converted) rate'"
      using Cons.prems(3) r'(2) by (auto simp: has_frame_def hm_contains_key_def)
    ultimately obtain converted' resamplers' where
      "convert source_rate samples rates (hm_insert rate r' resamplers) (hm_insert rate buffer converted) = (Inr converted', resamplers')"
      "in_phase source_rate resamplers'"
      "\<forall>x. x \<in> set rates \<and> x \<noteq> source_rate \<or> hm_contains_key (hm_insert rate buffer converted) x \<longrightarrow> has_frame converted' x"
      using Cons.IH [OF rate(3)] by blast
    with False rate(1) r(1) r'(1,2) show ?thesis by (auto simp: hm_contains_key_def Let_def)
  qed
qed simp

section \<open>Frames of a packet\<close>

text \<open>The frames handed out: consecutive stamps, at most the first marked, the samples at the source's
  own rate and a whole frame at every rate asked for.\<close>

definition is_frame :: "u32 \<Rightarrow> u32 list \<Rightarrow> u32 \<Rightarrow> bool \<Rightarrow> i16 list \<Rightarrow> pcm_frame \<Rightarrow> bool" where
  "is_frame source_rate rates ts mark samples f \<longleftrightarrow>
     pm_timestamp f = ts \<and> pm_marker f = mark \<and> hm_get (pm_rates f) source_rate = Some samples
     \<and> (\<forall>rate \<in> set rates. has_frame (pm_rates f) rate)"

fun frames_are :: "u32 \<Rightarrow> u32 \<Rightarrow> u32 list \<Rightarrow> u32 \<Rightarrow> bool \<Rightarrow> i16 list list \<Rightarrow> pcm_frame list \<Rightarrow> bool" where
  "frames_are source_rate inc rates ts mark [] [] = True"
| "frames_are source_rate inc rates ts mark (samples # frames) (f # fs) =
     (is_frame source_rate rates ts mark samples f \<and> frames_are source_rate inc rates (ts + inc) False frames fs)"
| "frames_are source_rate inc rates ts mark _ _ = False"

lemma frames_are_append:
  "frames_are source_rate inc rates ts mark xs fs \<Longrightarrow>
   frames_are source_rate inc rates (ts + of_nat (length xs) * inc) (mark \<and> xs = []) ys gs \<Longrightarrow>
   frames_are source_rate inc rates ts mark (xs @ ys) (fs @ gs)"
  by (induction source_rate inc rates ts mark xs fs rule: frames_are.induct) (simp_all add: algebra_simps)

lemma frame_loop_ok:
  assumes "media_rate source_rate" "list_all media_rate rates"
  shows "in_phase source_rate (sd_resamplers s) \<Longrightarrow> \<forall>samples \<in> set frames. length samples = unat (source_rate div 50) \<Longrightarrow>
    \<exists>out rs. frame_loop source_rate inc rates frames s outp = (Inr (outp @ out), s\<lparr>sd_resamplers := rs,
        sd_timestamp := sd_timestamp s + of_nat (length frames) * inc, sd_marker := (sd_marker s \<and> frames = [])\<rparr>)
      \<and> in_phase source_rate rs \<and> frames_are source_rate inc rates (sd_timestamp s) (sd_marker s) frames out"
proof (induction frames arbitrary: s outp)
  case Nil
  then show ?case by (intro exI [of _ "[]"] exI [of _ "sd_resamplers s"]) simp
next
  case (Cons samples frames)
  have len: "length samples = unat (source_rate div 50)" using Cons.prems(2) by simp
  obtain converted rs where c: "convert source_rate samples rates (sd_resamplers s) [] = (Inr converted, rs)"
    "in_phase source_rate rs" "\<forall>rate. rate \<in> set rates \<and> rate \<noteq> source_rate \<longrightarrow> has_frame converted rate"
    using convert_ok [OF assms(1) len assms(2) Cons.prems(1), of "[]"] by (auto simp: hm_contains_key_def)
  let ?s = "s\<lparr>sd_resamplers := rs, sd_timestamp := sd_timestamp s + inc, sd_marker := False\<rparr>"
  let ?f = "\<lparr>pm_timestamp = sd_timestamp s, pm_marker = sd_marker s, pm_rates = hm_insert source_rate samples converted\<rparr>"
  have "is_frame source_rate rates (sd_timestamp s) (sd_marker s) samples ?f"
    using c(3) len by (auto simp: is_frame_def has_frame_def)
  with Cons.IH [of ?s "outp @ [?f]"] c(1,2) Cons.prems(2) show ?case
    by (fastforce simp: algebra_simps)
qed

section \<open>A stream of packets\<close>

fun play :: "'s codec_lib \<Rightarrow> u32 list \<Rightarrow> 's source_audio \<Rightarrow> routed_rtp_packet list \<Rightarrow> (pcm_frame list \<times> 's source_audio) option" where
  "play lib rates s [] = Some ([], s)"
| "play lib rates s (p # ps) =
     (case SourceAudio_decode lib s p of
        (Inl _, _) \<Rightarrow> None
      | (Inr pcm, s) \<Rightarrow>
          (case SourceAudio_frames s pcm rates of
             (Inl _, _) \<Rightarrow> None
           | (Inr out, s) \<Rightarrow> map_option (map_prod ((@) out) id) (play lib rates s ps)))"

text \<open>What the codec's decoder makes of the payloads.\<close>

fun decode_all :: "'s codec_lib \<Rightarrow> 's audio_decoder \<Rightarrow> bytes list \<Rightarrow> i16 list list option" where
  "decode_all lib d [] = Some []"
| "decode_all lib d (b # bs) =
     (case AudioDecoder_decode lib d b [] of
        (Inl _, _) \<Rightarrow> None
      | (Inr _, pcm, d) \<Rightarrow> map_option ((#) pcm) (decode_all lib d bs))"

text \<open>Packets that follow each other: one SSRC, consecutive numbers, each stamped with the end of the
  one before, and none marked.\<close>

fun follow_on :: "audio_codec \<Rightarrow> u32 \<Rightarrow> u16 \<Rightarrow> u32 \<Rightarrow> routed_rtp_packet list \<Rightarrow> i16 list list \<Rightarrow> bool" where
  "follow_on codec ssrc seq ts [] [] = True"
| "follow_on codec ssrc seq ts (p # ps) (pcm # pcms) =
     (pk_ssrc p = ssrc \<and> pk_sequence_number p = seq + 1 \<and> pk_timestamp p = ts \<and> \<not> pk_marker p
      \<and> follow_on codec ssrc (seq + 1)
          (ts + of_nat (length pcm * unat (AudioCodec_rtp_clock_rate codec) div unat (AudioCodec_sample_rate codec))) ps pcms)"
| "follow_on codec ssrc seq ts _ _ = False"

text \<open>A payload of at most 16 KB with 1 to 120 ms of whole ticks of the RTP clock.\<close>

definition playable :: "audio_codec \<Rightarrow> routed_rtp_packet \<Rightarrow> i16 list \<Rightarrow> bool" where
  "playable codec p pcm \<longleftrightarrow> length (pk_payload p) \<le> 16384 \<and> pcm \<noteq> [] \<and> length pcm \<le> AudioCodec_ptime_samples codec * 6
     \<and> unat (AudioCodec_sample_rate codec) dvd length pcm * unat (AudioCodec_rtp_clock_rate codec)"

lemma drain_append:
  "0 < n \<Longrightarrow> drain_frames n xs = (fs, r) \<Longrightarrow> drain_frames n (r @ ys) = (gs, r') \<Longrightarrow> drain_frames n (xs @ ys) = (fs @ gs, r')"
proof (induction n xs arbitrary: fs r rule: drain_frames.induct)
  case (1 n xs)
  show ?case
  proof (cases "n \<le> length xs")
    case True
    obtain hs t where rec: "drain_frames n (drop n xs) = (hs, t)" by force
    with True "1.prems" have "fs = take n xs # hs" "r = t" by (auto simp: drain_frames.simps [of n xs])
    with "1.IH" [OF _ "1.prems"(1) rec] True "1.prems" show ?thesis
      by (simp add: drain_frames.simps [of n "xs @ ys"])
  next
    case False
    with "1.prems" show ?thesis by (simp add: drain_frames.simps [of n xs])
  qed
qed

text \<open>Samples per tick of the RTP clock.\<close>

lemma samples_per_tick:
  assumes "media_rate (AudioCodec_sample_rate codec)"
  obtains m where "0 < m" "unat (AudioCodec_sample_rate codec) = m * unat (AudioCodec_rtp_clock_rate codec)"
    "AudioCodec_ptime_samples codec = m * unat (AudioCodec_rtp_clock_rate codec div 50)"
    "\<And>n. n * unat (AudioCodec_rtp_clock_rate codec) div unat (AudioCodec_sample_rate codec) = n div m"
    "\<And>n. unat (AudioCodec_sample_rate codec) dvd n * unat (AudioCodec_rtp_clock_rate codec) \<longleftrightarrow> m dvd n"
    "0 < AudioCodec_ptime_samples codec"
proof -
  consider "AudioCodec_rtp_clock_rate codec = AudioCodec_sample_rate codec" | "codec = G722" by (cases codec) auto
  then show thesis
  proof cases
    case 1
    with assms show thesis
      by (intro that [of 1]) (auto simp: media_rate_def ptime_samples_eq unat_div)
  next
    case 2
    have "16000 dvd n * 8000 \<longleftrightarrow> 2 dvd n" for n :: nat
      using dvd_mult_cancel_right [of 2 8000 n] by simp
    with 2 show thesis
      by (intro that [of 2]) (auto simp: ptime_samples_eq)
  qed
qed

lemma decode_codec: "AudioDecoder_decode lib d b out = (r, pcm, d') \<Longrightarrow> AudioDecoder_codec d' = AudioDecoder_codec d"
  by (cases d) (auto split: prod.splits)

text \<open>A source between two packets of a stream: its resamplers are in phase and its framer holds less
  than a frame.\<close>

definition source_ready :: "audio_codec \<Rightarrow> 's source_audio \<Rightarrow> bool" where
  "source_ready codec s \<longleftrightarrow> SourceAudio_codec s = codec \<and> in_phase (AudioCodec_sample_rate codec) (sd_resamplers s)
     \<and> pf_frame (sd_framer s) = AudioCodec_ptime_samples codec \<and> length (pf_samples (sd_framer s)) < AudioCodec_ptime_samples codec"

lemma one_packet:
  assumes media: "media_rate (AudioCodec_sample_rate codec)" "list_all media_rate rates"
    and s: "source_ready codec s" "\<not> is_discontinuity s p"
    and pcm: "AudioDecoder_decode lib (sd_decoder s) (pk_payload p) [] = (Inr u, pcm, d)" "playable codec p pcm"
  defines "ts \<equiv> if pf_samples (sd_framer s) = [] then pk_timestamp p else sd_timestamp s"
    and "mk \<equiv> if pf_samples (sd_framer s) = [] then pk_marker p \<or> sd_epoch s = None else sd_marker s"
    and "inc \<equiv> AudioCodec_rtp_clock_rate codec div 50"
  obtains fs r out s' where
    "drain_frames (AudioCodec_ptime_samples codec) (pf_samples (sd_framer s) @ pcm) = (fs, r)"
    "\<And>ps. play lib rates s (p # ps) = map_option (map_prod ((@) out) id) (play lib rates s' ps)"
    "frames_are (AudioCodec_sample_rate codec) inc rates ts mk fs out"
    "source_ready codec s'" "pf_samples (sd_framer s') = r" "sd_decoder s' = d"
    "sd_epoch s' = Some (pk_ssrc p, pk_sequence_number p, pk_timestamp p + of_nat (length pcm
       * unat (AudioCodec_rtp_clock_rate codec) div unat (AudioCodec_sample_rate codec)))"
    "sd_timestamp s' = ts + of_nat (length fs) * inc" "sd_marker s' = (mk \<and> fs = [])"
proof -
  let ?epoch = "(pk_ssrc p, pk_sequence_number p, pk_timestamp p + of_nat (length pcm
       * unat (AudioCodec_rtp_clock_rate codec) div unat (AudioCodec_sample_rate codec)))"
  let ?n = "AudioCodec_ptime_samples codec"
  obtain fs r where drain: "drain_frames ?n (pf_samples (sd_framer s) @ pcm) = (fs, r)" by force
  have n: "0 < ?n" using media(1) by (auto elim: samples_per_tick)
  note lens = drain_frames_lengths [OF drain n]
  define s1 where "s1 = s\<lparr>sd_timestamp := ts, sd_marker := mk, sd_decoder := d, sd_epoch := Some ?epoch\<rparr>"
  have dec: "SourceAudio_decode lib s p = (Inr pcm, s1)"
    using s pcm media(1)
    by (auto simp: SourceAudio_decode_def decode_packet_def s1_def ts_def mk_def playable_def source_ready_def
        PcmFrames_is_empty_def media_rate_def Let_def)
  have codec: "SourceAudio_codec s1 = codec"
    using decode_codec [OF pcm(1)] s(1) by (simp add: SourceAudio_codec_def source_ready_def s1_def)
  have push: "PcmFrames_push (sd_framer s1) pcm = (Inr fs, (sd_framer s)\<lparr>pf_samples := r\<rparr>)"
    using s(1) pcm(2) drain n by (simp add: PcmFrames_push_def s1_def source_ready_def playable_def)
  let ?s = "s1\<lparr>sd_framer := (sd_framer s)\<lparr>pf_samples := r\<rparr>\<rparr>"
  have "in_phase (AudioCodec_sample_rate codec) (sd_resamplers ?s)" "\<forall>samples \<in> set fs. length samples = unat (AudioCodec_sample_rate codec div 50)"
    using s(1) lens by (simp_all add: s1_def source_ready_def AudioCodec_ptime_samples_def)
  from frame_loop_ok [OF media this, where inc = inc and outp = "[]"] obtain out rs where
    loop: "frame_loop (AudioCodec_sample_rate codec) inc rates fs ?s [] = (Inr out, ?s\<lparr>sd_resamplers := rs,
        sd_timestamp := ts + of_nat (length fs) * inc, sd_marker := (mk \<and> fs = [])\<rparr>)"
      "in_phase (AudioCodec_sample_rate codec) rs" "frames_are (AudioCodec_sample_rate codec) inc rates ts mk fs out"
    by (auto simp: s1_def)
  show thesis
  proof (rule that [OF drain _ loop(3)])
    show "play lib rates s (p # ps) = map_option (map_prod ((@) out) id) (play lib rates (?s\<lparr>sd_resamplers := rs,
        sd_timestamp := ts + of_nat (length fs) * inc, sd_marker := (mk \<and> fs = [])\<rparr>) ps)" for ps
      using loop(1) by (simp add: dec SourceAudio_frames_def codec push inc_def [symmetric] Let_def)
  qed (use codec loop(2) lens s(1) in \<open>simp_all add: source_ready_def s1_def SourceAudio_codec_def\<close>)
qed

text \<open>The timeline: the next packet is expected at the stamp of the first retained sample plus the
  duration of the retained samples.\<close>

definition on_timeline :: "nat \<Rightarrow> u32 \<Rightarrow> u16 \<Rightarrow> u32 \<Rightarrow> bool \<Rightarrow> 's source_audio \<Rightarrow> bool" where
  "on_timeline m ssrc seq ts mk s \<longleftrightarrow>
     sd_epoch s = Some (ssrc, seq, ts) \<and> m dvd length (pf_samples (sd_framer s))
     \<and> ts = sd_timestamp s + of_nat (length (pf_samples (sd_framer s)) div m)
     \<and> (if pf_samples (sd_framer s) = [] then \<not> mk else sd_marker s = mk)"

lemma drained_length:
  assumes "drain_frames n xs = (fs, r)" "0 < n"
  shows "length xs = length fs * n + length r"
proof -
  have "length (concat fs) = length fs * n"
    using drain_frames_lengths [OF assms] by (induction fs) simp_all
  then show ?thesis using drain_frames_concat [OF assms(1)] by (metis length_append)
qed

lemma timeline_next:
  assumes m: "0 < m" "n = m * unat inc" "0 < n" and drain: "drain_frames n (ls @ pcm) = (fs, r)"
    and dvd: "m dvd length ls" "m dvd length pcm"
  shows "m dvd length r"
    "of_nat (length ls div m) + of_nat (length pcm div m) = of_nat (length fs) * inc + (of_nat (length r div m) :: u32)"
proof -
  have len: "length ls + length pcm = length fs * n + length r"
    using drained_length [OF drain m(3)] by simp
  then show r: "m dvd length r" using dvd m(2) by (metis dvd_add dvd_add_right_iff dvd_mult dvd_triv_left)
  have "length ls div m + length pcm div m = length fs * unat inc + length r div m"
  proof -
    have "m * (length ls div m + length pcm div m) = m * (length fs * unat inc + length r div m)"
      using len dvd r by (simp add: m(2) distrib_left)
    with m(1) show ?thesis by simp
  qed
  then have "(of_nat (length ls div m + length pcm div m) :: u32) = of_nat (length fs * unat inc + length r div m)" by simp
  then show "of_nat (length ls div m) + of_nat (length pcm div m) = of_nat (length fs) * inc + (of_nat (length r div m) :: u32)"
    by simp
qed

lemma stream_frames:
  assumes media: "media_rate (AudioCodec_sample_rate codec)" "list_all media_rate rates"
    and m: "0 < m" "AudioCodec_ptime_samples codec = m * unat (AudioCodec_rtp_clock_rate codec div 50)"
      "\<And>n. n * unat (AudioCodec_rtp_clock_rate codec) div unat (AudioCodec_sample_rate codec) = n div m"
      "\<And>n. unat (AudioCodec_sample_rate codec) dvd n * unat (AudioCodec_rtp_clock_rate codec) \<longleftrightarrow> m dvd n"
      "0 < AudioCodec_ptime_samples codec"
  shows "source_ready codec s \<Longrightarrow> on_timeline m ssrc seq ts mk s \<Longrightarrow> follow_on codec ssrc seq ts ps pcms \<Longrightarrow>
    decode_all lib (sd_decoder s) (map pk_payload ps) = Some pcms \<Longrightarrow> list_all2 (playable codec) ps pcms \<Longrightarrow>
    \<exists>out s'. play lib rates s ps = Some (out, s')
      \<and> frames_are (AudioCodec_sample_rate codec) (AudioCodec_rtp_clock_rate codec div 50) rates (sd_timestamp s) mk
          (fst (drain_frames (AudioCodec_ptime_samples codec) (pf_samples (sd_framer s) @ concat pcms))) out"
proof (induction ps arbitrary: s seq ts mk pcms)
  case Nil
  then have "drain_frames (AudioCodec_ptime_samples codec) (pf_samples (sd_framer s)) = ([], pf_samples (sd_framer s))"
    by (subst drain_frames.simps) (simp add: source_ready_def)
  with Nil show ?case by simp
next
  case (Cons p ps)
  let ?tl = "pf_samples (sd_framer s)" and ?inc = "AudioCodec_rtp_clock_rate codec div 50" and ?n = "AudioCodec_ptime_samples codec"
  obtain pcm rest d u where dec: "AudioDecoder_decode lib (sd_decoder s) (pk_payload p) [] = (Inr u, pcm, d)"
    "pcms = pcm # rest" "decode_all lib d (map pk_payload ps) = Some rest"
    using Cons.prems(4) by (auto split: prod.splits sum.splits)
  have p: "pk_ssrc p = ssrc" "pk_sequence_number p = seq + 1" "pk_timestamp p = ts" "\<not> pk_marker p"
    "follow_on codec ssrc (seq + 1) (ts + of_nat (length pcm div m)) ps rest" "playable codec p pcm"
    "list_all2 (playable codec) ps rest"
    using Cons.prems(3,5) by (simp_all add: dec(2) m(3))
  have t: "sd_epoch s = Some (ssrc, seq, ts)" "m dvd length ?tl" "ts = sd_timestamp s + of_nat (length ?tl div m)"
    "?tl = [] \<Longrightarrow> \<not> mk" "?tl \<noteq> [] \<Longrightarrow> sd_marker s = mk"
    using Cons.prems(2) by (auto simp: on_timeline_def split: if_splits)
  have "\<not> is_discontinuity s p" by (simp add: is_discontinuity_def t(1) p)
  have eqs: "(if ?tl = [] then pk_timestamp p else sd_timestamp s) = sd_timestamp s"
    "(if ?tl = [] then pk_marker p \<or> sd_epoch s = None else sd_marker s) = mk"
    using t p by auto
  obtain fs r out s' where
    drain: "drain_frames ?n (?tl @ pcm) = (fs, r)"
    and play: "\<And>ps. play lib rates s (p # ps) = map_option (map_prod ((@) out) id) (play lib rates s' ps)"
    and out: "frames_are (AudioCodec_sample_rate codec) ?inc rates (sd_timestamp s) mk fs out"
    and s': "source_ready codec s'" "pf_samples (sd_framer s') = r" "sd_decoder s' = d"
      "sd_epoch s' = Some (ssrc, seq + 1, ts + of_nat (length pcm div m))"
      "sd_timestamp s' = sd_timestamp s + of_nat (length fs) * ?inc" "sd_marker s' = (mk \<and> fs = [])"
    by (rule one_packet [OF media Cons.prems(1) \<open>\<not> is_discontinuity s p\<close> dec(1) p(6), unfolded eqs, unfolded p(1-3) m(3)]) (rule that; assumption)
  note next_ts = timeline_next [OF m(1,2,5) drain t(2)]
  have "m dvd length pcm" using p(6) by (simp add: playable_def m(4))
  moreover have "r = [] \<Longrightarrow> fs \<noteq> []"
    using drain_frames_concat [OF drain] p(6) by (auto simp: playable_def)
  ultimately have "on_timeline m ssrc (seq + 1) (ts + of_nat (length pcm div m)) (mk \<and> fs = []) s'"
    using next_ts s' by (auto simp: on_timeline_def t(3) algebra_simps)
  from Cons.IH [OF s'(1) this p(5) _ p(7)] dec(3) s'(3) obtain more s'' where
    "play lib rates s' ps = Some (more, s'')" "frames_are (AudioCodec_sample_rate codec) ?inc rates (sd_timestamp s')
      (mk \<and> fs = []) (fst (drain_frames ?n (r @ concat rest))) more"
    using s'(2) by auto
  moreover obtain gs r' where "drain_frames ?n (r @ concat rest) = (gs, r')" by force
  moreover from this have "drain_frames ?n (?tl @ pcm @ concat rest) = (fs @ gs, r')"
    using drain_append [OF m(5) drain] by simp
  ultimately show ?case
    using play [of ps] frames_are_append [OF out] by (simp add: dec(2) s'(5))
qed

section \<open>Properties\<close>

text \<open>C11. What the listeners of a source hear is what the source sent: for packets that follow each
  other, of any durations up to 120 ms, the frames handed out are the successive 20 ms pieces of the
  decoded audio, none lost or repeated, each stamped with the source's time of its first sample and
  with only the first one marked, and each comes at every rate asked for with exactly 20 ms of
  samples, so that no conversion is ever refused.\<close>

theorem source_audio_stream:
  assumes "media_rate (AudioCodec_sample_rate (AudioDecoder_codec d))" "list_all media_rate rates"
    and "decode_all lib d (map pk_payload (p # ps)) = Some (pcm # pcms)"
    and "list_all2 (playable (AudioDecoder_codec d)) (p # ps) (pcm # pcms)"
    and "follow_on (AudioDecoder_codec d) (pk_ssrc p) (pk_sequence_number p)
      (pk_timestamp p + of_nat (length pcm * unat (AudioCodec_rtp_clock_rate (AudioDecoder_codec d))
        div unat (AudioCodec_sample_rate (AudioDecoder_codec d)))) ps pcms"
  shows "\<exists>out s. play lib rates (SourceAudio_from_decoder d) (p # ps) = Some (out, s)
    \<and> frames_are (AudioCodec_sample_rate (AudioDecoder_codec d)) (AudioCodec_rtp_clock_rate (AudioDecoder_codec d) div 50)
        rates (pk_timestamp p) True
        (fst (drain_frames (AudioCodec_ptime_samples (AudioDecoder_codec d)) (concat (pcm # pcms)))) out"
proof -
  let ?c = "AudioDecoder_codec d" and ?s = "SourceAudio_from_decoder d"
  obtain m where m: "0 < m" "AudioCodec_ptime_samples ?c = m * unat (AudioCodec_rtp_clock_rate ?c div 50)"
      "\<And>n. n * unat (AudioCodec_rtp_clock_rate ?c) div unat (AudioCodec_sample_rate ?c) = n div m"
      "\<And>n. unat (AudioCodec_sample_rate ?c) dvd n * unat (AudioCodec_rtp_clock_rate ?c) \<longleftrightarrow> m dvd n"
      "0 < AudioCodec_ptime_samples ?c"
    using samples_per_tick [OF assms(1)] by metis
  have s: "source_ready ?c ?s" "\<not> is_discontinuity ?s p" "pf_samples (sd_framer ?s) = []" "sd_epoch ?s = None" "sd_decoder ?s = d"
    using m(5) by (simp_all add: source_ready_def SourceAudio_from_decoder_def SourceAudio_codec_def in_phase_def
        PcmFrames_new_def AudioCodec_ptime_samples_def is_discontinuity_def Let_def)
  obtain d' u where dec: "AudioDecoder_decode lib (sd_decoder ?s) (pk_payload p) [] = (Inr u, pcm, d')"
    "decode_all lib d' (map pk_payload ps) = Some pcms"
    using assms(3) s(5) by (auto split: prod.splits sum.splits)
  have eqs: "(if pf_samples (sd_framer ?s) = [] then pk_timestamp p else sd_timestamp ?s) = pk_timestamp p"
    "(if pf_samples (sd_framer ?s) = [] then pk_marker p \<or> sd_epoch ?s = None else sd_marker ?s) = True"
    using s(3,4) by auto
  have p: "playable ?c p pcm" "list_all2 (playable ?c) ps pcms" using assms(4) by simp_all
  obtain fs r out s' where
    drain: "drain_frames (AudioCodec_ptime_samples ?c) ([] @ pcm) = (fs, r)"
    and play: "\<And>ps. play lib rates ?s (p # ps) = map_option (map_prod ((@) out) id) (play lib rates s' ps)"
    and out: "frames_are (AudioCodec_sample_rate ?c) (AudioCodec_rtp_clock_rate ?c div 50) rates (pk_timestamp p) True fs out"
    and s': "source_ready ?c s'" "pf_samples (sd_framer s') = r" "sd_decoder s' = d'"
      "sd_epoch s' = Some (pk_ssrc p, pk_sequence_number p, pk_timestamp p + of_nat (length pcm div m))"
      "sd_timestamp s' = pk_timestamp p + of_nat (length fs) * (AudioCodec_rtp_clock_rate ?c div 50)" "sd_marker s' = (True \<and> fs = [])"
    by (rule one_packet [OF assms(1,2) s(1,2) dec(1) p(1), unfolded eqs, unfolded s(3) m(3)]) (rule that; assumption)
  have "r = [] \<Longrightarrow> fs \<noteq> []" using drain_frames_concat [OF drain] p(1) by (auto simp: playable_def)
  moreover have "m dvd length pcm" using p(1) by (simp add: playable_def m(4))
  ultimately have "on_timeline m (pk_ssrc p) (pk_sequence_number p) (pk_timestamp p + of_nat (length pcm div m)) (fs = []) s'"
    using timeline_next [OF m(1,2,5) drain] s' by (auto simp: on_timeline_def algebra_simps)
  from stream_frames [OF assms(1,2) m s'(1) this assms(5) [unfolded m(3)] dec(2) [folded s'(3)] p(2)] obtain more s'' where
    more: "play lib rates s' ps = Some (more, s'')" "frames_are (AudioCodec_sample_rate ?c) (AudioCodec_rtp_clock_rate ?c div 50) rates
      (sd_timestamp s') (fs = []) (fst (drain_frames (AudioCodec_ptime_samples ?c) (r @ concat pcms))) more"
    unfolding s'(2) by blast
  obtain gs r' where gs: "drain_frames (AudioCodec_ptime_samples ?c) (r @ concat pcms) = (gs, r')" by force
  have "drain_frames (AudioCodec_ptime_samples ?c) (concat (pcm # pcms)) = (fs @ gs, r')"
    using drain_append [OF m(5) drain gs] by simp
  moreover have "frames_are (AudioCodec_sample_rate ?c) (AudioCodec_rtp_clock_rate ?c div 50) rates (pk_timestamp p) True
      (fs @ gs) (out @ more)"
    using frames_are_append [OF out, of gs more] more(2) by (simp add: gs s'(5))
  moreover have "play lib rates ?s (p # ps) = Some (out @ more, s'')" unfolding play more(1) by simp
  ultimately show ?thesis by (metis fst_conv)
qed

section \<open>Witnesses\<close>

text \<open>Two G.711 packets, heard as two frames at 8 and at 16 kHz.\<close>

definition quiet_lib :: "unit codec_lib" where
  "quiet_lib = \<lparr>cl_ulaw_decode = \<lambda>b. ucast b, cl_ulaw_encode = \<lambda>s. ucast s, cl_g722_decoder_new = (),
     cl_g722_decode = \<lambda>s bs. ([], s), cl_g722_encoder_new = (), cl_g722_encode = \<lambda>s xs. ([], s),
     cl_opus_decoder_new = Inr (), cl_opus_decode = \<lambda>s bs buf. (Inr 0, buf, s), cl_opus_encoder_new = Inr (),
     cl_opus_set_bitrate = \<lambda>s r. Inr s, cl_opus_set_vbr = \<lambda>s v. Inr s, cl_opus_set_max_bandwidth = \<lambda>s b. Inr s,
     cl_opus_encode = \<lambda>s xs buf. (Inr 0, buf, s)\<rparr>"

definition spoken :: "u16 \<Rightarrow> u32 \<Rightarrow> u8 \<Rightarrow> routed_rtp_packet" where
  "spoken seq ts b = \<lparr>pk_source_endpoint_id = 1, pk_payload_type = 0, pk_sequence_number = seq, pk_timestamp = ts,
     pk_ssrc = 7, pk_marker = False, pk_payload = replicate 160 b\<rparr>"

lemma drain_whole: "length xs = n \<Longrightarrow> 0 < n \<Longrightarrow> drain_frames n (xs @ ys) = (let (fs, r) = drain_frames n ys in (xs # fs, r))"
  by (subst drain_frames.simps) simp

theorem source_audio_stream_witness:
  "\<exists>out s. play quiet_lib [16000] (SourceAudio_from_decoder PcmuDecoder) [spoken 65535 100 1, spoken 0 260 2] = Some (out, s)
    \<and> frames_are 8000 160 [16000] 100 True [replicate 160 1, replicate 160 2] out"
proof -
  have "drain_frames 160 [] = ([], [] :: i16 list)" by (subst drain_frames.simps) simp
  then have drain: "drain_frames 160 (replicate 160 1 @ replicate 160 (2 :: i16) @ []) = ([replicate 160 1, replicate 160 2], [])"
    by (simp only: drain_whole length_replicate) simp
  have c: "AudioCodec_sample_rate (AudioDecoder_codec (PcmuDecoder :: unit audio_decoder)) = 8000"
    "AudioCodec_rtp_clock_rate (AudioDecoder_codec (PcmuDecoder :: unit audio_decoder)) div 50 = 160"
    "AudioCodec_ptime_samples (AudioDecoder_codec (PcmuDecoder :: unit audio_decoder)) = 160"
    "pk_timestamp (spoken 65535 100 1) = 100"
    by (simp_all add: AudioCodec_ptime_samples_def spoken_def)
  have m: "media_rate (AudioCodec_sample_rate (AudioDecoder_codec (PcmuDecoder :: unit audio_decoder)))" "list_all media_rate [16000]"
    by (simp_all add: media_rate_def)
  have d: "decode_all quiet_lib PcmuDecoder (map pk_payload [spoken 65535 100 1, spoken 0 260 2])
      = Some [replicate 160 1, replicate 160 2]"
    by (simp add: quiet_lib_def spoken_def PcmuDecoder_decode_def)
  have p: "list_all2 (playable (AudioDecoder_codec (PcmuDecoder :: unit audio_decoder))) [spoken 65535 100 1, spoken 0 260 2]
      [replicate 160 1, replicate 160 2]"
    by (simp add: playable_def spoken_def AudioCodec_ptime_samples_def)
  have f: "follow_on (AudioDecoder_codec (PcmuDecoder :: unit audio_decoder)) (pk_ssrc (spoken 65535 100 1))
      (pk_sequence_number (spoken 65535 100 1))
      (pk_timestamp (spoken 65535 100 1) + of_nat (length (replicate 160 (1 :: i16))
        * unat (AudioCodec_rtp_clock_rate (AudioDecoder_codec (PcmuDecoder :: unit audio_decoder)))
        div unat (AudioCodec_sample_rate (AudioDecoder_codec (PcmuDecoder :: unit audio_decoder))))) [spoken 0 260 2] [replicate 160 2]"
    by (simp add: spoken_def)
  show ?thesis using source_audio_stream [OF m d p f] unfolding c concat.simps drain fst_conv .
qed

end
