(* ===== verification/Transcode.thy ===== *)
theory Transcode
  imports Source_Audio
begin

text \<open>
  The transcoding pipeline of one edge (\<open>src/src/media/transcode.rs\<close>): decode, resample, frame and
  encode, and the mapping of timestamps between clocks.  The buffers the pipeline reuses are part of
  its state; an operation that fails returns its error with the state it leaves.
\<close>

section \<open>Definitions\<close>

datatype transcode_error =
    TranscodeCodec codec_error
  | EncoderOnly
  | Requires20ms
  | TranscodeFramer pcm_error
  | TranscodePanic

record 's transcode_pipeline =
  tp_decoder :: "'s audio_decoder option"
  tp_source :: audio_codec
  tp_profile :: opus_profile
  tp_timeline :: "(u32 \<times> u32) option"
  tp_encoder :: "'s audio_encoder"
  tp_resampler :: "resampler option"
  tp_passthrough :: bool
  tp_decode_buf :: "i16 list"
  tp_resample_buf :: "i16 list"
  tp_encode_buf :: bytes
  tp_framer :: pcm_frames

definition TranscodePipeline_matches_codecs :: "'s transcode_pipeline \<Rightarrow> audio_codec \<Rightarrow> audio_codec \<Rightarrow> bool" where
  "TranscodePipeline_matches_codecs t source destination \<longleftrightarrow>
     tp_source t = source \<and> AudioEncoder_codec (tp_encoder t) = destination"

definition TranscodePipeline_new :: "'s codec_lib \<Rightarrow> audio_codec \<Rightarrow> audio_codec \<Rightarrow> transcode_error + 's transcode_pipeline" where
  "TranscodePipeline_new lib from to =
     (let passthrough = (from = to) in
      case make_decoder lib from of
        Inl e \<Rightarrow> Inl (TranscodeCodec e)
      | Inr decoder \<Rightarrow>
          (case make_encoder lib to of
             Inl e \<Rightarrow> Inl (TranscodeCodec e)
           | Inr encoder \<Rightarrow>
               let pipeline = (\<lambda>resampler.
                     \<lparr>tp_decoder = Some decoder, tp_source = from, tp_profile = OpusProfile_default, tp_timeline = None,
                      tp_encoder = encoder, tp_resampler = resampler, tp_passthrough = passthrough, tp_decode_buf = [],
                      tp_resample_buf = [], tp_encode_buf = [], tp_framer = PcmFrames_new (AudioCodec_sample_rate to)\<rparr>)
               in if \<not> passthrough \<and> AudioCodec_sample_rate from \<noteq> AudioCodec_sample_rate to then
                    case Resampler_new (AudioCodec_sample_rate from) (AudioCodec_sample_rate to) of
                      None \<Rightarrow> Inl TranscodePanic
                    | Some r \<Rightarrow> Inr (pipeline (Some r))
                  else Inr (pipeline None)))"

definition TranscodePipeline_matches_profile :: "'s transcode_pipeline \<Rightarrow> opus_profile \<Rightarrow> bool" where
  "TranscodePipeline_matches_profile t profile \<longleftrightarrow>
     AudioEncoder_codec (tp_encoder t) \<noteq> Opus \<or> tp_profile t = profile"

definition TranscodePipeline_for_pcm_with_profile ::
  "'s codec_lib \<Rightarrow> audio_codec \<Rightarrow> audio_codec \<Rightarrow> opus_profile \<Rightarrow> transcode_error + 's transcode_pipeline" where
  "TranscodePipeline_for_pcm_with_profile lib from to profile =
     (case make_encoder_with_profile lib to profile of
        Inl e \<Rightarrow> Inl (TranscodeCodec e)
      | Inr encoder \<Rightarrow> Inr \<lparr>tp_decoder = None, tp_source = from, tp_profile = profile, tp_timeline = None,
          tp_encoder = encoder, tp_resampler = None, tp_passthrough = False, tp_decode_buf = [],
          tp_resample_buf = [], tp_encode_buf = [], tp_framer = PcmFrames_new (AudioCodec_sample_rate to)\<rparr>)"

definition TranscodePipeline_for_pcm :: "'s codec_lib \<Rightarrow> audio_codec \<Rightarrow> audio_codec \<Rightarrow> transcode_error + 's transcode_pipeline" where
  "TranscodePipeline_for_pcm lib from to = TranscodePipeline_for_pcm_with_profile lib from to OpusProfile_default"

text \<open>Decoding into the pipeline's buffers, as \<open>process\<close> and \<open>process_frames\<close> begin.\<close>

definition decode_resample ::
  "'s codec_lib \<Rightarrow> 's transcode_pipeline \<Rightarrow> bytes \<Rightarrow> (transcode_error + unit) \<times> 's transcode_pipeline" where
  "decode_resample lib t input =
     (case tp_decoder t of
        None \<Rightarrow> (Inl EncoderOnly, t)
      | Some decoder \<Rightarrow>
          let (r, pcm, decoder) = AudioDecoder_decode lib decoder input (tp_decode_buf t);
              t = t\<lparr>tp_decoder := Some decoder, tp_decode_buf := pcm\<rparr>
          in case r of
               Inl e \<Rightarrow> (Inl (TranscodeCodec e), t)
             | Inr _ \<Rightarrow>
                 (case tp_resampler t of
                    Some resampler \<Rightarrow>
                      (case Resampler_process resampler pcm of
                         None \<Rightarrow> (Inl TranscodePanic, t)
                       | Some (out, resampler) \<Rightarrow> (Inr (), t\<lparr>tp_resampler := Some resampler, tp_resample_buf := out\<rparr>))
                  | None \<Rightarrow> (Inr (), t\<lparr>tp_resample_buf := pcm\<rparr>)))"

definition encode_frame ::
  "'s codec_lib \<Rightarrow> 's transcode_pipeline \<Rightarrow> i16 list \<Rightarrow> (transcode_error + bytes) \<times> 's transcode_pipeline" where
  "encode_frame lib t pcm =
     (let (r, out, encoder) = AudioEncoder_encode lib (tp_encoder t) pcm (tp_encode_buf t);
          t = t\<lparr>tp_encoder := encoder, tp_encode_buf := out\<rparr>
      in case r of Inl e \<Rightarrow> (Inl (TranscodeCodec e), t) | Inr _ \<Rightarrow> (Inr out, t))"

definition TranscodePipeline_process ::
  "'s codec_lib \<Rightarrow> 's transcode_pipeline \<Rightarrow> bytes \<Rightarrow> (transcode_error + bytes) \<times> 's transcode_pipeline" where
  "TranscodePipeline_process lib t input =
     (if tp_passthrough t then (Inr input, t\<lparr>tp_encode_buf := input\<rparr>)
      else
        case decode_resample lib t input of
          (Inl e, t) \<Rightarrow> (Inl e, t)
        | (Inr _, t) \<Rightarrow>
            if length (tp_resample_buf t) \<noteq> AudioCodec_ptime_samples (AudioEncoder_codec (tp_encoder t))
            then (Inl Requires20ms, t)
            else encode_frame lib t (tp_resample_buf t))"

fun encode_frames ::
  "'s codec_lib \<Rightarrow> 's transcode_pipeline \<Rightarrow> i16 list list \<Rightarrow> bytes list \<Rightarrow> (transcode_error + bytes list) \<times> 's transcode_pipeline" where
  "encode_frames lib t [] out = (Inr out, t)"
| "encode_frames lib t (frame # frames) out =
     (case encode_frame lib t frame of
        (Inl e, t) \<Rightarrow> (Inl e, t)
      | (Inr b, t) \<Rightarrow> encode_frames lib t frames (out @ [b]))"

definition TranscodePipeline_process_frames ::
  "'s codec_lib \<Rightarrow> 's transcode_pipeline \<Rightarrow> bytes \<Rightarrow> (transcode_error + bytes list) \<times> 's transcode_pipeline" where
  "TranscodePipeline_process_frames lib t input =
     (if tp_passthrough t then (Inr [input], t)
      else
        case decode_resample lib t input of
          (Inl e, t) \<Rightarrow> (Inl e, t)
        | (Inr _, t) \<Rightarrow>
            (case PcmFrames_push (tp_framer t) (tp_resample_buf t) of
               (Inl e, framer) \<Rightarrow> (Inl (TranscodeFramer e), t\<lparr>tp_framer := framer\<rparr>)
             | (Inr frames, framer) \<Rightarrow> encode_frames lib (t\<lparr>tp_framer := framer\<rparr>) frames []))"

text \<open>The products of two 32-bit values fit the 64-bit arithmetic of the code.\<close>

definition scale_ticks :: "u32 \<Rightarrow> u32 \<Rightarrow> u32 \<Rightarrow> u32" where
  "scale_ticks ticks source_rate dest_rate =
     of_nat (unat ticks * unat dest_rate div max (unat source_rate) 1)"

definition TranscodePipeline_map_timestamp :: "'s transcode_pipeline \<Rightarrow> u32 \<Rightarrow> u32 \<Rightarrow> u32 \<Rightarrow> u32 \<times> 's transcode_pipeline" where
  "TranscodePipeline_map_timestamp t timestamp source_rate dest_rate =
     (let mapped = (case tp_timeline t of
            Some (previous, output') \<Rightarrow> output' + scale_ticks (timestamp - previous) source_rate dest_rate
          | None \<Rightarrow> scale_ticks timestamp source_rate dest_rate)
      in (mapped, t\<lparr>tp_timeline := Some (timestamp, mapped)\<rparr>))"

definition TranscodePipeline_encode_pcm ::
  "'s codec_lib \<Rightarrow> 's transcode_pipeline \<Rightarrow> i16 list \<Rightarrow> (transcode_error + bytes) \<times> 's transcode_pipeline" where
  "TranscodePipeline_encode_pcm lib t samples =
     (if length samples \<noteq> AudioCodec_ptime_samples (AudioEncoder_codec (tp_encoder t)) then (Inl Requires20ms, t)
      else encode_frame lib t samples)"

section \<open>Timestamps\<close>

lemma scale_frames:
  assumes "50 dvd unat source_rate" "50 dvd unat dest_rate" "0 < source_rate" "k * unat (source_rate div 50) < 2 ^ 32"
  shows "scale_ticks (of_nat (k * unat (source_rate div 50))) source_rate dest_rate = of_nat (k * unat (dest_rate div 50))"
proof -
  obtain a b where ab: "unat source_rate = 50 * a" "unat dest_rate = 50 * b" using assms(1,2) by (elim dvdE)
  have a: "0 < a" using assms(3) ab(1) by (metis gr0I mult_0_right unat_eq_zero word_neq_0_conv)
  have "unat (source_rate div 50) = a" "unat (dest_rate div 50) = b" using ab by (simp_all add: unat_div)
  moreover from this assms(4) have "unat (of_nat (k * a) :: u32) = k * a"
    by (simp add: unat_of_nat del: of_nat_mult)
  moreover have "k * a * (50 * b) div (50 * a) = k * b" using a by (simp add: mult.assoc mult.left_commute [of a])
  ultimately show ?thesis using a by (simp add: scale_ticks_def ab max_def)
qed

lemma map_timestamp_step:
  assumes "50 dvd unat source_rate" "50 dvd unat dest_rate" "0 < source_rate"
    and "tp_timeline t = Some (ts + of_nat j * (source_rate div 50), m + of_nat j * (dest_rate div 50))"
    and "j \<le> k" "k * unat (source_rate div 50) < 2 ^ 32"
  shows "TranscodePipeline_map_timestamp t (ts + of_nat k * (source_rate div 50)) source_rate dest_rate
    = (m + of_nat k * (dest_rate div 50),
       t\<lparr>tp_timeline := Some (ts + of_nat k * (source_rate div 50), m + of_nat k * (dest_rate div 50))\<rparr>)"
proof -
  let ?i = "source_rate div 50"
  have "ts + of_nat k * ?i - (ts + of_nat j * ?i) = of_nat ((k - j) * unat ?i)"
    using assms(5) by (simp add: of_nat_diff algebra_simps)
  moreover have "(k - j) * unat ?i < 2 ^ 32" using assms(6) by (meson diff_le_self le_less_trans mult_le_mono1)
  ultimately have "scale_ticks (ts + of_nat k * ?i - (ts + of_nat j * ?i)) source_rate dest_rate
      = of_nat ((k - j) * unat (dest_rate div 50))"
    using scale_frames [OF assms(1-3)] by simp
  then show ?thesis
    using assms(5) by (simp add: TranscodePipeline_map_timestamp_def assms(4) Let_def of_nat_diff algebra_simps)
qed

lemma map_timestamps:
  assumes "50 dvd unat source_rate" "50 dvd unat dest_rate" "0 < source_rate"
  shows "tp_timeline t = Some (ts + of_nat j * (source_rate div 50), m + of_nat j * (dest_rate div 50)) \<Longrightarrow>
    sorted (j # ks) \<Longrightarrow> \<forall>k \<in> set ks. k * unat (source_rate div 50) < 2 ^ 32 \<Longrightarrow>
    results_with (\<lambda>t ts. TranscodePipeline_map_timestamp t ts source_rate dest_rate) t
      (map (\<lambda>k. ts + of_nat k * (source_rate div 50)) ks) = map (\<lambda>k. m + of_nat k * (dest_rate div 50)) ks"
  by (induction ks arbitrary: t j) (simp_all add: map_timestamp_step [OF assms])

section \<open>Packets of 20 ms\<close>

text \<open>What the codec's decoder makes of the packets, with its buffer reused.\<close>

fun decoded_with :: "'s codec_lib \<Rightarrow> 's audio_decoder \<Rightarrow> i16 list \<Rightarrow> bytes list \<Rightarrow> i16 list list option" where
  "decoded_with lib d buf [] = Some []"
| "decoded_with lib d buf (b # bs) =
     (case AudioDecoder_decode lib d b buf of
        (Inl _, _) \<Rightarrow> None
      | (Inr _, pcm, d) \<Rightarrow> map_option ((#) pcm) (decoded_with lib d pcm bs))"

text \<open>A pipeline that converts with \<open>r\<close>, which it does not keep when the rates are equal.\<close>

definition converts :: "audio_codec \<Rightarrow> audio_codec \<Rightarrow> resampler \<Rightarrow> 's transcode_pipeline \<Rightarrow> bool" where
  "converts from to r t \<longleftrightarrow> \<not> tp_passthrough t \<and> AudioEncoder_codec (tp_encoder t) = to
     \<and> rp_from_rate r = AudioCodec_sample_rate from \<and> rp_to_rate r = AudioCodec_sample_rate to \<and> rp_frac_pos r = 0
     \<and> tp_resampler t = (if AudioCodec_sample_rate from = AudioCodec_sample_rate to then None else Some r)"

lemma encode_codec: "AudioEncoder_encode lib enc pcm out = (r, bs, enc') \<Longrightarrow> AudioEncoder_codec enc' = AudioEncoder_codec enc"
  by (cases enc) (auto split: prod.splits)

lemma make_encoder_plain: "make_encoder lib codec = Inr enc \<Longrightarrow> AudioEncoder_codec enc = codec"
  by (cases codec) (auto simp: map_sum_def split: sum.splits)

lemma process_frame:
  assumes media: "media_rate (AudioCodec_sample_rate from)" "media_rate (AudioCodec_sample_rate to)"
    and t: "converts from to r t" "tp_decoder t = Some d"
    and dec: "AudioDecoder_decode lib d b (tp_decode_buf t) = (Inr u, pcm, d')" "length pcm = AudioCodec_ptime_samples from"
  obtains out r' t' where "Resampler_process r pcm = Some (out, r')" "length out = AudioCodec_ptime_samples to"
    "TranscodePipeline_process lib t b = encode_frame lib t' out"
    "converts from to r' t'" "tp_decoder t' = Some d'" "tp_decode_buf t' = pcm"
    "tp_encoder t' = tp_encoder t" "tp_encode_buf t' = tp_encode_buf t"
proof -
  have r: "rp_from_rate r = AudioCodec_sample_rate from" "rp_to_rate r = AudioCodec_sample_rate to" "rp_frac_pos r = 0"
    using t(1) by (simp_all add: converts_def)
  obtain out r' where out: "Resampler_process r pcm = Some (out, r')" "length out = unat (AudioCodec_sample_rate to div 50)"
    "rp_frac_pos r' = 0" "rp_from_rate r' = AudioCodec_sample_rate from" "rp_to_rate r' = AudioCodec_sample_rate to"
    using resample_frame [of r pcm] media r dec(2) by (metis AudioCodec_ptime_samples_def)
  show thesis
  proof (cases "AudioCodec_sample_rate from = AudioCodec_sample_rate to")
    case True
    with out r have "out = pcm" by (simp add: Resampler_process_def Resampler_is_passthrough_def)
    with True t dec out show thesis
      by (intro that [of out r' "t\<lparr>tp_decoder := Some d', tp_decode_buf := pcm, tp_resample_buf := pcm\<rparr>"])
        (simp_all add: TranscodePipeline_process_def decode_resample_def converts_def AudioCodec_ptime_samples_def Let_def)
  next
    case False
    with t dec out show thesis
      by (intro that [of out r' "t\<lparr>tp_decoder := Some d', tp_decode_buf := pcm, tp_resampler := Some r', tp_resample_buf := out\<rparr>"])
        (simp_all add: TranscodePipeline_process_def decode_resample_def converts_def AudioCodec_ptime_samples_def Let_def)
  qed
qed

text \<open>Encoding depends on the encoder and its buffer only.\<close>

lemma encode_frame_cong:
  assumes "tp_encoder t' = tp_encoder t" "tp_encode_buf t' = tp_encode_buf t"
  obtains r enc buf where "encode_frame lib t pcm = (r, t\<lparr>tp_encoder := enc, tp_encode_buf := buf\<rparr>)"
    "encode_frame lib t' pcm = (r, t'\<lparr>tp_encoder := enc, tp_encode_buf := buf\<rparr>)"
    "AudioEncoder_codec enc = AudioEncoder_codec (tp_encoder t)"
proof -
  obtain r out enc where "AudioEncoder_encode lib (tp_encoder t) pcm (tp_encode_buf t) = (r, out, enc)"
    by (metis prod_cases3)
  with assms encode_codec [OF this] that show thesis by (cases r) (simp_all add: encode_frame_def)
qed

lemma transcode_run:
  assumes media: "media_rate (AudioCodec_sample_rate from)" "media_rate (AudioCodec_sample_rate to)"
  shows "converts from to r t \<Longrightarrow> tp_decoder t = Some d \<Longrightarrow>
    decoded_with lib d (tp_decode_buf t) inputs = Some pcms \<Longrightarrow>
    list_all (\<lambda>pcm. length pcm = AudioCodec_ptime_samples from) pcms \<Longrightarrow>
    tp_encoder e = tp_encoder t \<Longrightarrow> tp_encode_buf e = tp_encode_buf t \<Longrightarrow>
    \<exists>outs. resample_blocks r pcms = Some outs \<and> list_all (\<lambda>pcm. length pcm = AudioCodec_ptime_samples to) outs
      \<and> results_with (TranscodePipeline_process lib) t inputs = results_with (TranscodePipeline_encode_pcm lib) e outs"
proof (induction inputs arbitrary: t d e r pcms)
  case (Cons b inputs)
  obtain u pcm d' pcms' where dec: "AudioDecoder_decode lib d b (tp_decode_buf t) = (Inr u, pcm, d')"
    "length pcm = AudioCodec_ptime_samples from" "decoded_with lib d' pcm inputs = Some pcms'"
    "list_all (\<lambda>pcm. length pcm = AudioCodec_ptime_samples from) pcms'" "pcms = pcm # pcms'"
    using Cons.prems(3,4) by (auto split: prod.splits sum.splits)
  obtain out r' t' where out: "Resampler_process r pcm = Some (out, r')" "length out = AudioCodec_ptime_samples to"
    "TranscodePipeline_process lib t b = encode_frame lib t' out"
    "converts from to r' t'" "tp_decoder t' = Some d'" "tp_decode_buf t' = pcm"
    "tp_encoder t' = tp_encoder t" "tp_encode_buf t' = tp_encode_buf t"
    by (rule process_frame [OF media Cons.prems(1,2) dec(1,2)])
  obtain res enc buf where enc: "encode_frame lib e out = (res, e\<lparr>tp_encoder := enc, tp_encode_buf := buf\<rparr>)"
    "encode_frame lib t' out = (res, t'\<lparr>tp_encoder := enc, tp_encode_buf := buf\<rparr>)"
    "AudioEncoder_codec enc = AudioEncoder_codec (tp_encoder e)"
    using encode_frame_cong [of t' e lib out] out(7,8) Cons.prems(5,6) by metis
  let ?t = "t'\<lparr>tp_encoder := enc, tp_encode_buf := buf\<rparr>" and ?e = "e\<lparr>tp_encoder := enc, tp_encode_buf := buf\<rparr>"
  have to: "AudioEncoder_codec (tp_encoder e) = to" using Cons.prems(1,5) by (simp add: converts_def)
  have "converts from to r' ?t" using out(4) enc(3) to by (simp add: converts_def)
  from Cons.IH [OF this, of d' pcms' ?e] out(5,6) dec(3,4) obtain outs where
    "resample_blocks r' pcms' = Some outs" "list_all (\<lambda>pcm. length pcm = AudioCodec_ptime_samples to) outs"
    "results_with (TranscodePipeline_process lib) ?t inputs = results_with (TranscodePipeline_encode_pcm lib) ?e outs"
    by auto
  moreover have "TranscodePipeline_encode_pcm lib e out = (res, ?e)"
    using out(2) to enc(1) by (simp add: TranscodePipeline_encode_pcm_def)
  ultimately show ?case using out(1-3) enc(2) by (intro exI [of _ "out # outs"]) (simp add: dec(5))
qed simp

section \<open>Properties\<close>

text \<open>C40. Timestamps of 20 ms frames cross clocks without drift: frames of a source, with any of them
  missing, keep their exact place on the destination's clock, also where either clock wraps
  around.\<close>

theorem mapped_timestamps_exact:
  assumes "50 dvd unat source_rate" "50 dvd unat dest_rate" "0 < source_rate" "tp_timeline t = None"
    and "sorted (0 # ks)" "\<forall>k \<in> set ks. k * unat (source_rate div 50) < 2 ^ 32"
  shows "results_with (\<lambda>t ts. TranscodePipeline_map_timestamp t ts source_rate dest_rate) t
      (map (\<lambda>k. ts + of_nat k * (source_rate div 50)) (0 # ks))
    = map (\<lambda>k. scale_ticks ts source_rate dest_rate + of_nat k * (dest_rate div 50)) (0 # ks)"
proof -
  have "TranscodePipeline_map_timestamp t ts source_rate dest_rate = (scale_ticks ts source_rate dest_rate,
      t\<lparr>tp_timeline := Some (ts, scale_ticks ts source_rate dest_rate)\<rparr>)"
    by (simp add: TranscodePipeline_map_timestamp_def assms(4) Let_def)
  with map_timestamps [OF assms(1-3), where j = 0 and m = "scale_ticks ts source_rate dest_rate" and ts = ts and ks = ks
    and t = "t\<lparr>tp_timeline := Some (ts, scale_ticks ts source_rate dest_rate)\<rparr>"] assms(5,6)
  show ?thesis by simp
qed

text \<open>C38. Between codecs of the bridge's rates a packet of 20 ms always becomes a packet of 20 ms:
  transcoding packet by packet is decoding all packets, converting the rate of the whole stream and
  encoding the resulting frames, each a whole frame of the destination, so that it can fail only in a
  codec.\<close>

theorem transcode_whole_frames:
  assumes "TranscodePipeline_new lib from to = Inr t" "from \<noteq> to"
    and "media_rate (AudioCodec_sample_rate from)" "media_rate (AudioCodec_sample_rate to)"
    and "make_decoder lib from = Inr d" "decoded_with lib d [] inputs = Some pcms"
    and "list_all (\<lambda>pcm. length pcm = AudioCodec_ptime_samples from) pcms"
  shows "\<exists>r outs. Resampler_new (AudioCodec_sample_rate from) (AudioCodec_sample_rate to) = Some r
    \<and> resample_blocks r pcms = Some outs \<and> list_all (\<lambda>pcm. length pcm = AudioCodec_ptime_samples to) outs
    \<and> results_with (TranscodePipeline_process lib) t inputs = results_with (TranscodePipeline_encode_pcm lib) t outs"
proof -
  obtain r where r: "Resampler_new (AudioCodec_sample_rate from) (AudioCodec_sample_rate to) = Some r"
    using assms(3,4) by (auto simp: Resampler_new_def media_rate_def)
  then have "converts from to r t" "tp_decoder t = Some d" "tp_decode_buf t = []"
    using assms(1,2,5)
    by (auto simp: TranscodePipeline_new_def Resampler_new_def converts_def Let_def dest: make_encoder_plain
        split: sum.splits if_splits)
  then show ?thesis using transcode_run [OF assms(3,4), of r t d lib inputs pcms t] assms(6,7) r by simp
qed

section \<open>Witnesses\<close>

definition l16_pipeline :: "unit transcode_pipeline" where
  "l16_pipeline = projr (TranscodePipeline_new quiet_lib (L16 8000) (L16 16000))"

lemma l16_pipeline_eq:
  "TranscodePipeline_new quiet_lib (L16 8000) (L16 16000) = Inr l16_pipeline" "tp_timeline l16_pipeline = None"
  by (simp_all add: l16_pipeline_def TranscodePipeline_new_def Resampler_new_def Let_def)

theorem mapped_timestamps_exact_witness:
  "results_with (\<lambda>t ts. TranscodePipeline_map_timestamp t ts 8000 48000) l16_pipeline
      (map (\<lambda>k. (- 160) + of_nat k * (8000 div 50)) [0, 1, 3])
    = map (\<lambda>k. scale_ticks (- 160) 8000 48000 + of_nat k * (48000 div 50)) [0, 1, 3]"
  by (rule mapped_timestamps_exact) (simp_all add: l16_pipeline_eq)

theorem transcode_whole_frames_witness:
  "\<exists>r outs. Resampler_new 8000 16000 = Some r \<and> resample_blocks r [replicate 160 1, replicate 160 2] = Some outs
    \<and> list_all (\<lambda>pcm. length pcm = 320) outs
    \<and> results_with (TranscodePipeline_process quiet_lib) l16_pipeline
        [l16_bytes (replicate 160 1), l16_bytes (replicate 160 2)]
      = results_with (TranscodePipeline_encode_pcm quiet_lib) l16_pipeline outs"
proof -
  have "decoded_with quiet_lib (L16Decoder 8000) [] [l16_bytes (replicate 160 1), l16_bytes (replicate 160 2)]
      = Some [replicate 160 1, replicate 160 2]"
    by (simp add: l16_roundtrip)
  from transcode_whole_frames [OF l16_pipeline_eq(1) _ _ _ _ this] show ?thesis
    by (simp add: media_rate_def AudioCodec_ptime_samples_def)
qed

end
