(* ===== verification/Rtp_Delivery.thy ===== *)
theory Rtp_Delivery
  imports Rtp_Media
begin

text \<open>
  What the media plane of an RTP endpoint promises: one peer, one contiguous outbound stream, one
  timestamp per telephone event, and delivery of what one endpoint writes by the other one.
\<close>

section \<open>From one endpoint to another\<close>

text \<open>Datagrams from one address, each with the instant it is handled and the instant it came in.\<close>

definition hear_from ::
  "crypto_lib \<Rightarrow> socket_addr \<Rightarrow> rtp_endpoint \<Rightarrow> instant \<times> instant \<times> bytes \<Rightarrow> routed_rtp_packet option \<times> rtp_endpoint" where
  "hear_from lib a e ev = (case ev of (now, t, d) \<Rightarrow> RtpEndpoint_handle_rtp_at lib now e d a t)"

definition audible :: "instant \<Rightarrow> rtp_endpoint \<Rightarrow> instant \<times> instant \<times> bytes \<Rightarrow> bool" where
  "audible t0 e ev \<longleftrightarrow> (case ev of (now, t, d) \<Rightarrow> t0 \<le> t
     \<and> (\<exists>w. RtpHeader_parse d = Some w \<and> known_payload_type e (rh_payload_type w)))"

lemma hear_srtp:
  assumes "settled (Some rx) e" "expects a t0 e" "list_all (audible t0 e) evs"
  shows "results_with (hear_from lib a) e evs
    = map (\<lambda>r. Option.bind (result_ok r) (routed_packet (ep_id e)))
        (results_with (SrtpContext_unprotect lib) rx (map (snd \<circ> snd) evs))"
  using assms
proof (induction evs arbitrary: e rx)
  case (Cons ev evs)
  obtain now t d where ev: "ev = (now, t, d)" by (cases ev) auto
  obtain w where w: "t0 \<le> t" "RtpHeader_parse d = Some w" "known_payload_type e (rh_payload_type w)"
    using Cons.prems(3) by (auto simp: ev audible_def)
  obtain r rx' where u: "SrtpContext_unprotect lib rx d = (r, rx')" by fastforce
  then have "unprotect_dual (SrtpContext_unprotect lib) None (Some rx) d = (result_ok r, None, Some rx')"
    by (cases r) (simp_all add: unprotect_dual_def)
  from handle_settled [OF Cons.prems(1,2) w this, of now] obtain e' where
    e': "RtpEndpoint_handle_rtp_at lib now e d a t = (Option.bind (result_ok r) (routed_packet (ep_id e)), e')"
      "settled (Some rx') e'" "expects a t0 e'" "known_payload_type e' = known_payload_type e" "ep_id e' = ep_id e" .
  have "list_all (audible t0 e') evs" using Cons.prems(3) e'(4) by (simp add: audible_def [abs_def])
  from Cons.IH [OF e'(2,3) this] show ?case by (simp add: ev hear_from_def e'(1,5) u)
qed simp

lemma hear_plain:
  assumes "settled None e" "expects a t0 e" "list_all (audible t0 e) evs"
  shows "results_with (hear_from lib a) e evs = map (\<lambda>(now, t, d). routed_packet (ep_id e) d) evs"
  using assms
proof (induction evs arbitrary: e)
  case (Cons ev evs)
  obtain now t d where ev: "ev = (now, t, d)" by (cases ev) auto
  obtain w where w: "t0 \<le> t" "RtpHeader_parse d = Some w" "known_payload_type e (rh_payload_type w)"
    using Cons.prems(3) by (auto simp: ev audible_def)
  have "unprotect_dual (SrtpContext_unprotect lib) None None d = (Some d, None, None)"
    by (simp add: unprotect_dual_def)
  from handle_settled [OF Cons.prems(1,2) w this, of now] obtain e' where
    e': "RtpEndpoint_handle_rtp_at lib now e d a t = (Option.bind (Some d) (routed_packet (ep_id e)), e')"
      "settled None e'" "expects a t0 e'" "known_payload_type e' = known_payload_type e" "ep_id e' = ep_id e" .
  have "list_all (audible t0 e') evs" using Cons.prems(3) e'(4) by (simp add: audible_def [abs_def])
  from Cons.IH [OF e'(2,3) this] show ?case by (simp add: ev hear_from_def e'(1,5))
qed simp

text \<open>What the receiver routes for the packet at a position of the sender's stream.\<close>

definition delivered :: "rtp_endpoint \<Rightarrow> rtp_endpoint \<Rightarrow> routed_rtp_packet list \<Rightarrow> nat \<Rightarrow> routed_rtp_packet" where
  "delivered tx rx ps j =
     \<lparr>pk_source_endpoint_id = ep_id rx, pk_payload_type = pk_payload_type (ps ! j),
      pk_sequence_number = ep_seq_no tx + of_nat j, pk_timestamp = fst (stamps tx ps ! j),
      pk_ssrc = ep_our_ssrc tx, pk_marker = snd (stamps tx ps ! j), pk_payload = pk_payload (ps ! j)\<rparr>"

lemma routed_plain_packet:
  assumes "j < length ps" "pk_payload_type (ps ! j) < 128"
  shows "routed_packet (ep_id rx) (plain_packets tx ps ! j) = Some (delivered tx rx ps j)"
  unfolding plain_packets_nth [OF assms(1)] by (simp add: routed_packet_build [OF assms(2)] delivered_def)

lemma payload_type_and: "pt < 128 \<Longrightarrow> pt AND 0x7F = pt" for pt :: u8
  using less_mask_eq [of pt 7] by (simp add: mask_eq_exp_minus_1)

lemma audible_sealed:
  assumes "crypto_ok lib" "j < length ps" "pk_payload_type (ps ! j) < 128" "known_payload_type e (pk_payload_type (ps ! j))"
    and "t0 \<le> t"
  shows "audible t0 e (now, t, seal lib tx roc (plain_packets s ps ! j))"
proof -
  let ?p = "plain_packets s ps ! j"
  note p = plain_packets_nth [OF assms(2), of s]
  have "rtp_header_len ?p = Some 12" by (simp add: p)
  from seal_parts [OF assms(1) this, of tx roc] obtain out tag where
    out: "seal lib tx roc ?p = out @ tag" "length out = length ?p" "take 12 out = take 12 ?p" by metis
  moreover have "12 \<le> length ?p" by (simp add: p)
  ultimately have "take 12 (seal lib tx roc ?p) = take 12 ?p" "12 \<le> length (seal lib tx roc ?p)" by simp_all
  then have "RtpHeader_parse (seal lib tx roc ?p) = RtpHeader_parse ?p" unfolding p by (intro parse_prefix)
  then show ?thesis using assms(4,5) payload_type_and [OF assms(3)]
    by (simp add: audible_def p RtpHeader_parse_build)
qed

text \<open>The datagram at a position of what the sender wrote.\<close>

definition wire :: "crypto_lib \<Rightarrow> rtp_endpoint \<Rightarrow> routed_rtp_packet list \<Rightarrow> nat \<Rightarrow> bytes" where
  "wire lib e ps j = snd (the (snd (results_with (RtpEndpoint_write_rtp lib True) e ps ! j)))"

lemma wire_srtp:
  assumes "ep_srtp_tx e = Some tx" "ep_remote_rtp_addr e = Some b" "ep_remote_ssrc e \<noteq> None"
    and "fresh_context tx (ep_our_ssrc e)" "length ps \<le> sx_packet_lifetime tx" "length ps \<le> 2 ^ 47" "j < length ps"
  shows "results_with (RtpEndpoint_write_rtp lib True) e ps ! j
      = (Inr (Some (plain_packets e ps ! j)), Some (b, seal lib tx (of_nat ((unat (ep_seq_no e) + j) div 65536)) (plain_packets e ps ! j)))"
proof -
  have n: "numbered (ep_our_ssrc e) (unat (ep_seq_no e)) (plain_packets e ps)"
    by (simp add: numbered_plain_packets)
  have seq: "unat (ep_seq_no e) < 65536" using unsigned_less [where w = "ep_seq_no e"] by simp
  have sealed: "results_with (SrtpContext_protect lib) tx (plain_packets e ps) ! k
      = Inr (seal lib tx (of_nat ((unat (ep_seq_no e) + k) div 65536)) (plain_packets e ps ! k))" if "k < length ps" for k
    using that assms(5,6) seq by (intro fresh_protect [OF assms(4) n]) simp_all
  then have "\<forall>r \<in> set (results_with (SrtpContext_protect lib) tx (plain_packets e ps)). \<not> isl r"
    by (auto simp: in_set_conv_nth)
  from write_srtp [OF assms(1-3) this] assms(7) show ?thesis by (simp add: sealed)
qed
lemma map2_fresh:
  "(\<And>j. j \<in> set js \<Longrightarrow> h (f j) = Some (g j)) \<Longrightarrow>
   map (\<lambda>r. Option.bind r h) (map2 (\<lambda>j b. if b then Some (f j) else None) js bs)
     = map2 (\<lambda>j b. if b then Some (g j) else None) js bs"
  by (induction js bs rule: list_induct2') simp_all

lemma write_plain_nth:
  assumes "ep_srtp_tx e = None" "ep_remote_rtp_addr e = Some b" "ep_remote_ssrc e \<noteq> None" "n < length ps"
  shows "results_with (RtpEndpoint_write_rtp lib True) e ps ! n =
    (let d = RtpHeader_build (pk_payload_type (ps ! n)) (ep_seq_no e + of_nat n) (fst (stamps e ps ! n)) (ep_our_ssrc e)
       (snd (stamps e ps ! n)) (pk_payload (ps ! n)) in (Inr (Some d), Some (b, d)))"
  using assms(4) by (simp add: write_plain [OF assms(1-3)] plain_packets_nth Let_def)

text \<open>The timestamp of a telephone event is held until the next event begins.\<close>

lemma event_held:
  assumes "ep_dtmf_wire_ts e = Some t" "\<forall>p \<in> set ps. is_event e p \<longrightarrow> \<not> pk_marker p" "i < length ps" "is_event e (ps ! i)"
  shows "stamps e ps ! i = (t, False)"
  using assms
proof (induction ps arbitrary: e i)
  case (Cons p ps)
  have "ep_dtmf_wire_ts (counted e p) = Some t"
    using Cons.prems(1,2) event_next [of e p t] audio_keeps_event [of e p] by (cases "is_event e p") simp_all
  with Cons.IH [of "counted e p"] Cons.prems event_next [of e p t] show ?case by (cases i) simp_all
qed simp

lemma events_keep_last:
  assumes "ep_dtmf_wire_ts e = Some t" "ep_last_outbound_ts e = Some t" "\<forall>p \<in> set ps. is_event e p \<and> \<not> pk_marker p"
    and "is_event e p1" "pk_marker p1"
  shows "stamps e (ps @ [p1]) ! length ps = (t + ep_telephone_event_clock_rate e div 50, True)"
  using assms
proof (induction ps arbitrary: e)
  case Nil
  then show ?case using event_first(1) [of e p1] by simp
next
  case (Cons p ps)
  then have "outbound_timestamp e p = ((t, False), e)" by (intro event_next) simp_all
  with Cons.IH [of "counted e p"] Cons.prems show ?case by simp
qed

section \<open>Properties\<close>

text \<open>C3. From one SRTP endpoint to another: packets written by one endpoint and delivered to the
  other with loss, repetition and reordering within half the sequence space are routed there exactly
  once each, as the replay specification says, with their payload, payload type and marker, the
  sender's SSRC, consecutive sequence numbers and the timestamps of the sender's own timeline.\<close>

theorem srtp_media_delivered:
  assumes "crypto_ok lib" "SrtpContext_from_sdes_key_with_lifetime lib key life = Inr cx"
    and "ep_srtp_tx A = Some cx" "ep_remote_rtp_addr A = Some b" "ep_remote_ssrc A \<noteq> None"
    and "settled (Some cx) B" "expects a t0 B"
    and "\<forall>p \<in> set ps. pk_payload_type p < 128 \<and> known_payload_type B (pk_payload_type p)"
    and "length ps \<le> life" "length ps \<le> 2 ^ 47"
    and "map fst ds = k # ks" "\<forall>(j, now, t) \<in> set ds. j < length ps \<and> t0 \<le> t" "length ds \<le> life"
    and "unat (ep_seq_no A) + k < 65536" "jitter_ok (2 ^ 48) (unat (ep_seq_no A) + k) (map ((+) (unat (ep_seq_no A))) ks)"
  shows "results_with (hear_from lib a) B (map (\<lambda>(j, now, t). (now, t, wire lib A ps j)) ds)
    = map2 (\<lambda>j fresh. if fresh then Some (delivered A B ps j) else None) (k # ks)
        (spec_run {} (map ((+) (unat (ep_seq_no A))) (k # ks)))"
proof -
  let ?i = "unat (ep_seq_no A)"
  let ?seal = "\<lambda>j. seal lib cx (of_nat ((?i + j) div 65536)) (plain_packets A ps ! j)"
  let ?evs = "map (\<lambda>(j, now, t). (now, t, ?seal j)) ds"
  note new = from_sdes_key_new [OF assms(2)]
  have cx: "fresh_context cx ssrc" "same_keys cx cx" for ssrc
    using new by (simp_all add: fresh_context_def same_keys_def)
  have n: "numbered (ep_our_ssrc A) ?i (plain_packets A ps)" by (simp add: numbered_plain_packets)
  have ks: "\<forall>j \<in> set (k # ks). j < length (plain_packets A ps)" "length (k # ks) \<le> life"
    using assms(11-13) by (auto simp: assms(11) [symmetric])
  have pt: "pk_payload_type (ps ! j) < 128" "known_payload_type B (pk_payload_type (ps ! j))" if "j < length ps" for j
    using that assms(8) by simp_all
  have wires: "map (\<lambda>(j, now, t). (now, t, wire lib A ps j)) ds = ?evs"
    using assms(9,10,12) new(3)
    by (intro map_cong refl) (auto simp: wire_def wire_srtp [OF assms(3-5) cx(1)])
  have "list_all (audible t0 B) ?evs"
    using assms(12) audible_sealed [OF assms(1)] pt by (auto simp: list_all_iff)
  from hear_srtp [OF assms(6,7) this, of lib]
  have "results_with (hear_from lib a) B ?evs = map (\<lambda>r. Option.bind r (routed_packet (ep_id B)))
      (map result_ok (results_with (SrtpContext_unprotect lib) cx (map ?seal (map fst ds))))"
    by (simp add: comp_def split_beta)
  also have "\<dots> = map (\<lambda>r. Option.bind r (routed_packet (ep_id B)))
      (map2 (\<lambda>j fresh. if fresh then Some (plain_packets A ps ! j) else None) (k # ks) (spec_run {} (map ((+) ?i) (k # ks))))"
    using fresh_unprotect [OF assms(1) cx n ks(1) _ assms(14,15)] ks(2) new(3) by (simp only: assms(11))
  also have "\<dots> = map2 (\<lambda>j fresh. if fresh then Some (delivered A B ps j) else None) (k # ks)
      (spec_run {} (map ((+) ?i) (k # ks)))"
    by (rule map2_fresh) (use ks(1) pt in \<open>simp only: length_plain_packets routed_plain_packet\<close>)
  finally show ?thesis unfolding wires .
qed

text \<open>C6. Once a validated packet has fixed the peer's address, no sequence of datagrams, from anyone
  and at any time, moves it: media is heard from that address only and written to that address
  only, control packets too where they share the port; and a datagram that is not routed never
  changes what the endpoint knows of its peer.\<close>

theorem one_peer:
  assumes "latched a e"
  shows "list_all2 (talks_to a (ep_rtcp_mux e)) evs (results_with (media_step lib) e evs)
    \<and> latched a (state_with (media_step lib) e evs)"
  using media_steps_latched [OF assms] .

text \<open>Before that, only a packet from an allowed source that decrypts and parses fixes the address.\<close>

lemma latch_validated:
  "case RtpEndpoint_handle_rtp_at lib now e data source received_at of
     (None, e') \<Rightarrow> latch_of e' = latch_of e \<and> ep_remote_ssrc e' = ep_remote_ssrc e
   | (Some p, e') \<Rightarrow> RtpEndpoint_source_allowed e source received_at False
       \<and> (ep_addr_locked e \<or> latched source e') \<and> ep_remote_ssrc e' = Some (pk_ssrc p)
       \<and> (\<exists>d. fst (unprotect_rtp lib data (RtpEndpoint_check_rekey_switchover now e)) = Some d
             \<and> routed_packet (ep_id e) d = Some p)"
proof (cases rule: handle_rtp_cases [of lib now e data source received_at])
  case (dropped e')
  then show ?thesis by simp
next
  case (routed d e1 h payload)
  have "ep_addr_locked e \<or> latched source (accept_media now h payload source e1)"
    using accept_media_frame(2) [of e1 source now h payload] latch_ofD(6) [OF routed(6)] by auto
  moreover have "ep_remote_ssrc (accept_media now h payload source e1) = Some (rh_ssrc h)"
    by (simp add: accept_media_def RtpEndpoint_latch_remote_addr_def Let_def)
  ultimately show ?thesis using routed by (simp add: routed_packet_def)
qed

text \<open>C7. Frames of any number of sources, each sending one frame after the other, leave the endpoint
  as one contiguous stream of a single SSRC: consecutive sequence numbers, timestamps one frame
  apart across every change of source, and a marker exactly where a source set one or the source
  changed.\<close>

theorem relay_one_stream:
  assumes "ep_srtp_tx e = None" "ep_remote_rtp_addr e = Some b" "ep_remote_ssrc e \<noteq> None"
    and "unstarted e" "steady e" "list_all (\<lambda>p. \<not> is_event e p) (p # ps)"
    and "frames_of_sources (frame_step e) (Some (pk_source_endpoint_id p)) (Some (pk_timestamp p)) ps"
  shows "results_with (RtpEndpoint_write_rtp lib True) e (p # ps)
    = map (\<lambda>d. (Inr (Some d), Some (b, d)))
        (contiguous (ep_seq_no e) (pk_timestamp p) (frame_step e) (ep_our_ssrc e) (p # ps)
          (pk_marker p # marks (Some (pk_source_endpoint_id p)) ps))"
  unfolding write_plain [OF assms(1-3)] plain_packets_relay [OF assms(4-7)] ..

text \<open>C8. All packets of a telephone event leave the endpoint with one timestamp, however much audio is
  interleaved, and only the first is marked; an event that follows another one in silence gets a
  later timestamp, so the two are not taken for one.\<close>

theorem event_one_timestamp:
  assumes "ep_srtp_tx e = None" "ep_remote_rtp_addr e = Some b" "ep_remote_ssrc e \<noteq> None"
    and "is_event e p0" "pk_marker p0" "\<forall>p \<in> set ps. is_event e p \<longrightarrow> \<not> pk_marker p"
    and "is_event e p1" "pk_marker p1" "50 \<le> ep_telephone_event_clock_rate e"
  shows "\<exists>ts. let out = (\<lambda>n. results_with (RtpEndpoint_write_rtp lib True) e (p0 # ps @ [p1]) ! n);
          packet = (\<lambda>n t m p. let d = RtpHeader_build (pk_payload_type p) (ep_seq_no e + of_nat n) t (ep_our_ssrc e) m
                      (pk_payload p) in (Inr (Some d), Some (b, d)))
        in out 0 = packet 0 ts True p0
         \<and> (\<forall>i < length ps. is_event e (ps ! i) \<longrightarrow> out (Suc i) = packet (Suc i) ts False (ps ! i))
         \<and> (list_all (is_event e) ps \<longrightarrow> out (Suc (length ps)) =
              packet (Suc (length ps)) (ts + ep_telephone_event_clock_rate e div 50) True p1)
         \<and> ts + ep_telephone_event_clock_rate e div 50 \<noteq> ts"
proof -
  let ?ts = "fst (fst (outbound_timestamp e p0))"
  let ?ps = "p0 # ps @ [p1]"
  note out = write_plain_nth [OF assms(1-3), of _ ?ps lib]
  note first = event_first [OF assms(4,5)]
  have held: "stamps (counted e p0) (ps @ [p1]) ! i = (?ts, False)" if "i < length ps" "is_event e (ps ! i)" for i
  proof -
    have "stamps (counted e p0) (ps @ [p1]) ! i = stamps (counted e p0) ps ! i"
      using that(1) by (induction ps arbitrary: e p0 i) (auto simp: nth_Cons split: nat.splits)
    also have "\<dots> = (?ts, False)"
      using that assms(6) first(2) by (intro event_held) simp_all
    finally show ?thesis .
  qed
  have step: "ep_telephone_event_clock_rate e div 50 \<noteq> 0"
    using assms(9) by (simp add: word_le_nat_alt unat_arith_simps unat_div)
  have "stamps (counted e p0) (ps @ [p1]) ! length ps = (?ts + ep_telephone_event_clock_rate e div 50, True)"
    if "list_all (is_event e) ps"
    using events_keep_last [of "counted e p0" ?ts ps p1] first(2,3) that assms(6-8) by (simp add: list_all_iff)
  then show ?thesis
    using first(1) held out [of 0] out [of "Suc i" for i] step
    by (intro exI [of _ ?ts]) (auto simp: Let_def nth_append)
qed

section \<open>Witnesses\<close>

text \<open>Two endpoints after negotiation, one sending PCMU from sequence number 65535.\<close>

definition demo_addr :: "u8 \<Rightarrow> socket_addr" where
  "demo_addr n = \<lparr>sa_ip = V4 10 0 0 n, sa_port = 4000\<rparr>"

definition demo_endpoint :: "u8 \<Rightarrow> u8 \<Rightarrow> srtp_context option \<Rightarrow> rtp_endpoint" where
  "demo_endpoint here there cx =
     (RtpEndpoint_new 0 7 65535 (ucast here) SendRecv (demo_addr here))
       \<lparr>ep_remote_rtp_addr := Some (demo_addr there), ep_remote_ssrc := Some 9, ep_codecs := [CODEC_PCMU],
        ep_send_codec := Some CODEC_PCMU, ep_telephone_event_pt := Some 101, ep_srtp_tx := cx, ep_srtp_rx := cx\<rparr>"

definition demo_frame :: "endpoint_id \<Rightarrow> u8 \<Rightarrow> u32 \<Rightarrow> bool \<Rightarrow> routed_rtp_packet" where
  "demo_frame i pt ts m = \<lparr>pk_source_endpoint_id = i, pk_payload_type = pt, pk_sequence_number = 5,
     pk_timestamp = ts, pk_ssrc = 3, pk_marker = m, pk_payload = [1, 2]\<rparr>"

lemma demo_endpoint_simps [simp]:
  "ep_srtp_tx (demo_endpoint h t cx) = cx" "ep_remote_rtp_addr (demo_endpoint h t cx) = Some (demo_addr t)"
  "ep_remote_ssrc (demo_endpoint h t cx) \<noteq> None" "ep_seq_no (demo_endpoint h t cx) = 65535"
  "settled cx (demo_endpoint h t cx)" "expects (demo_addr t) 0 (demo_endpoint h t cx)"
  "known_payload_type (demo_endpoint h t cx) 0" "unstarted (demo_endpoint h t cx)" "steady (demo_endpoint h t cx)"
  "frame_step (demo_endpoint h t cx) = 160" "ep_our_ssrc (demo_endpoint h t cx) = 7"
  "is_event (demo_endpoint h t cx) p \<longleftrightarrow> pk_payload_type p = 101"
  "ep_telephone_event_clock_rate (demo_endpoint h t cx) = 8000"
  by (auto simp: demo_endpoint_def RtpEndpoint_new_def settled_def expects_def demo_addr_def known_payload_type_def
      unstarted_def steady_def frame_step_def is_event_def CODEC_PCMU_def default_rtp_source_networks_def)

theorem srtp_media_delivered_witness:
  "\<exists>cx. let A = demo_endpoint 1 2 (Some cx); B = demo_endpoint 2 1 (Some cx);
          ps = [demo_frame 1 0 100 True, demo_frame 1 0 260 False] in
     results_with (hear_from demo_crypto (demo_addr 1)) B
       (map (\<lambda>(j, now, t). (now, t, wire demo_crypto A ps j)) [(0, 0, 0), (1, 5, 5), (0, 6, 6)])
     = [Some (delivered A B ps 0), Some (delivered A B ps 1), None]"
proof -
  obtain cx where cx: "SrtpContext_from_sdes_key_with_lifetime demo_crypto (replicate 40 CHR ''a'') 10 = Inr cx"
    using demo_key_ok by blast
  show ?thesis
    using srtp_media_delivered [OF demo_crypto_ok cx, of "demo_endpoint 1 2 (Some cx)" "demo_addr 2"
        "demo_endpoint 2 1 (Some cx)" "demo_addr 1" 0 "[demo_frame 1 0 100 True, demo_frame 1 0 260 False]"
        "[(0, 0, 0), (1, 5, 5), (0, 6, 6)]" 0 "[1, 0]"]
    by (intro exI [of _ cx]) (simp add: demo_frame_def near_def fresh_index_def Let_def)
qed

theorem one_peer_witness:
  "latched (demo_addr 2) (state_with (media_step demo_crypto) ((demo_endpoint 1 2 None)\<lparr>ep_addr_locked := True\<rparr>)
     [Rtp_Datagram 0 [] (demo_addr 3) 0, Rtcp_Datagram 0 0 [] (demo_addr 4) 0])"
  using one_peer [of "demo_addr 2" "(demo_endpoint 1 2 None)\<lparr>ep_addr_locked := True\<rparr>"
      "[Rtp_Datagram 0 [] (demo_addr 3) 0, Rtcp_Datagram 0 0 [] (demo_addr 4) 0]" demo_crypto]
  by (simp add: latched_def demo_endpoint_def RtpEndpoint_new_def)

lemma wrapped_numbers: "(65536 :: u16) = 0" "(65537 :: u16) = 1"
  by (simp_all add: word_eq_iff_unsigned)

theorem relay_one_stream_witness:
  "map fst (results_with (RtpEndpoint_write_rtp demo_crypto True) (demo_endpoint 1 2 None)
     [demo_frame 3 0 1000 False, demo_frame 3 0 1160 False, demo_frame 4 0 77 False])
   = map (Inr \<circ> Some)
      [RtpHeader_build 0 65535 1000 7 False [1, 2], RtpHeader_build 0 0 1160 7 False [1, 2],
       RtpHeader_build 0 1 1320 7 True [1, 2]]"
  using relay_one_stream [of "demo_endpoint 1 2 None" "demo_addr 2" "demo_frame 3 0 1000 False"
      "[demo_frame 3 0 1160 False, demo_frame 4 0 77 False]" demo_crypto]
  by (simp add: demo_frame_def comp_def wrapped_numbers)

theorem event_one_timestamp_witness:
  "\<exists>ts. let out = results_with (RtpEndpoint_write_rtp demo_crypto True) (demo_endpoint 1 2 None)
     [demo_frame 3 101 1000 True, demo_frame 3 0 500 False, demo_frame 3 101 1000 False, demo_frame 3 101 9 True] in
   fst (out ! 0) = Inr (Some (RtpHeader_build 101 65535 ts 7 True [1, 2]))
   \<and> fst (out ! 2) = Inr (Some (RtpHeader_build 101 1 ts 7 False [1, 2]))"
proof -
  let ?e = "demo_endpoint 1 2 None"
  let ?ps = "[demo_frame 3 0 500 False, demo_frame 3 101 1000 False]"
  have "is_event ?e (demo_frame 3 101 1000 True)" "pk_marker (demo_frame 3 101 1000 True)"
    "\<forall>p \<in> set ?ps. is_event ?e p \<longrightarrow> \<not> pk_marker p"
    "is_event ?e (demo_frame 3 101 9 True)" "pk_marker (demo_frame 3 101 9 True)"
    "50 \<le> ep_telephone_event_clock_rate ?e"
    by (simp_all add: demo_frame_def)
  from event_one_timestamp [OF demo_endpoint_simps(1-3) this, of demo_crypto] obtain ts where
    "let out = (\<lambda>n. results_with (RtpEndpoint_write_rtp demo_crypto True) ?e
        (demo_frame 3 101 1000 True # ?ps @ [demo_frame 3 101 9 True]) ! n);
      packet = (\<lambda>n t m p. let d = RtpHeader_build (pk_payload_type p) (ep_seq_no ?e + of_nat n) t (ep_our_ssrc ?e) m
        (pk_payload p) in (Inr (Some d), Some (demo_addr 2, d)))
    in out 0 = packet 0 ts True (demo_frame 3 101 1000 True)
     \<and> (\<forall>i < length ?ps. is_event ?e (?ps ! i) \<longrightarrow> out (Suc i) = packet (Suc i) ts False (?ps ! i))"
    unfolding Let_def by blast
  then show ?thesis
    by (intro exI [of _ ts]) (simp add: Let_def demo_frame_def numeral_2_eq_2 less_Suc_eq all_conj_distrib imp_conjL wrapped_numbers)
qed

end
