(* ===== verification/Session_Dtmf.thy ===== *)
theory Session_Dtmf
  imports Dtmf Routing Rtp_Delivery
begin

text \<open>
  Telephone events in a session (\<open>src/src/session/session_dtmf.rs\<close>): injection of a digit at one
  packet per 20 ms, detection, and forwarding to the destinations of a source.  The endpoints are those
  of \<open>src/src/session/endpoint_enum.rs\<close>; the WebRTC endpoint, which writes through the str0m
  library, is a type parameter with its writer as an argument, and of the endpoints that carry no
  telephone events only the kind is kept.  Metrics and log lines are left out.
\<close>

section \<open>Definitions\<close>

subsection \<open>Endpoints\<close>

datatype 'w endpoint = WebRtc 'w | Rtp rtp_endpoint | File | Tone | Bridge | WebSocket

primrec Endpoint_telephone_event_pt :: "'w endpoint \<Rightarrow> u8 option" where
  "Endpoint_telephone_event_pt (WebRtc w) = Some 101"
| "Endpoint_telephone_event_pt (Rtp e) = ep_telephone_event_pt e"
| "Endpoint_telephone_event_pt File = None"
| "Endpoint_telephone_event_pt Tone = None"
| "Endpoint_telephone_event_pt Bridge = None"
| "Endpoint_telephone_event_pt WebSocket = None"

primrec Endpoint_telephone_event_clock_rate :: "'w endpoint \<Rightarrow> u32" where
  "Endpoint_telephone_event_clock_rate (WebRtc w) = 48000"
| "Endpoint_telephone_event_clock_rate (Rtp e) = ep_telephone_event_clock_rate e"
| "Endpoint_telephone_event_clock_rate File = 8000"
| "Endpoint_telephone_event_clock_rate Tone = 8000"
| "Endpoint_telephone_event_clock_rate Bridge = 8000"
| "Endpoint_telephone_event_clock_rate WebSocket = 8000"

text \<open>What the writers depend on: the SRTP library and the writer of WebRTC endpoints.\<close>

record 'w writers =
  wr_lib :: crypto_lib
  wr_webrtc :: "'w \<Rightarrow> routed_rtp_packet \<Rightarrow> (endpoint_error + unit) \<times> 'w"

text \<open>What a write puts on the wire: nothing, a packet handed to the WebRTC library, or a datagram.\<close>

datatype wire_output = Nothing_Sent | To_WebRtc routed_rtp_packet | Datagram socket_addr bytes

definition Endpoint_write ::
  "'w writers \<Rightarrow> bool \<Rightarrow> 'w endpoint \<Rightarrow> routed_rtp_packet \<Rightarrow> wire_output \<times> 'w endpoint" where
  "Endpoint_write wr send_ok ep pkt =
     (case ep of
        WebRtc w \<Rightarrow>
          (case wr_webrtc wr w pkt of
             (Inl _, w) \<Rightarrow> (Nothing_Sent, WebRtc w)
           | (Inr _, w) \<Rightarrow> (To_WebRtc pkt, WebRtc w))
      | Rtp e \<Rightarrow>
          (case RtpEndpoint_write_rtp (wr_lib wr) send_ok e pkt of
             ((_, sent), e) \<Rightarrow> (case sent of None \<Rightarrow> Nothing_Sent | Some (a, d) \<Rightarrow> Datagram a d, Rtp e))
      | _ \<Rightarrow> (Nothing_Sent, ep))"

subsection \<open>Injection\<close>

record pending_dtmf_injection =
  pi_endpoint_id :: endpoint_id
  pi_packets :: "routed_rtp_packet list"
  pi_next_index :: nat
  pi_next_send :: instant

datatype injection_error = InjectionInProgress | EndpointNotFound | FileEndpointInjection | NoTelephoneEvent | InvalidDigit

definition build_dtmf_injection ::
  "u32 \<Rightarrow> u32 \<Rightarrow> u16 \<Rightarrow> instant \<Rightarrow> (endpoint_id, 'w endpoint) hash_map \<Rightarrow> pending_dtmf_injection option \<Rightarrow> endpoint_id
     \<Rightarrow> char \<Rightarrow> u32 \<Rightarrow> u8 \<Rightarrow> injection_error + pending_dtmf_injection" where
  "build_dtmf_injection random_ts random_ssrc random_seq now endpoints existing eid digit dur_ms volume =
     (if existing \<noteq> None then Inl InjectionInProgress
      else case hm_get endpoints eid of
        None \<Rightarrow> Inl EndpointNotFound
      | Some ep \<Rightarrow>
          if (case ep of File \<Rightarrow> True | Tone \<Rightarrow> True | _ \<Rightarrow> False) then Inl FileEndpointInjection
          else case Endpoint_telephone_event_pt ep of
            None \<Rightarrow> Inl NoTelephoneEvent
          | Some te_pt \<Rightarrow>
              (case DtmfGenerator_generate digit dur_ms volume (Endpoint_telephone_event_clock_rate ep) 20 of
                 None \<Rightarrow> Inl InvalidDigit
               | Some dtmf_packets \<Rightarrow>
                   Inr \<lparr>pi_endpoint_id = eid,
                        pi_packets = map (\<lambda>(i, p). \<lparr>pk_source_endpoint_id = eid, pk_payload_type = te_pt,
                            pk_sequence_number = random_seq + of_nat i, pk_timestamp = random_ts, pk_ssrc = random_ssrc,
                            pk_marker = dp_marker p, pk_payload = dp_payload p\<rparr>) (enumerate 0 dtmf_packets),
                        pi_next_index = 0, pi_next_send = now\<rparr>))"

text \<open>The outcome of the socket send of a packet is a function of its index.\<close>

function drain_loop ::
  "'w writers \<Rightarrow> (nat \<Rightarrow> bool) \<Rightarrow> instant \<Rightarrow> pending_dtmf_injection \<Rightarrow> (endpoint_id, 'w endpoint) hash_map
     \<Rightarrow> wire_output list \<times> pending_dtmf_injection \<times> (endpoint_id, 'w endpoint) hash_map" where
  "drain_loop wr send_ok now pending endpoints =
     (if pi_next_index pending < length (pi_packets pending) \<and> pi_next_send pending \<le> now then
        let pkt = pi_packets pending ! pi_next_index pending;
            (out, endpoints) =
              (case hm_get endpoints (pi_endpoint_id pending) of
                 None \<Rightarrow> ([], endpoints)
               | Some ep \<Rightarrow>
                   let (out, ep) = Endpoint_write wr (send_ok (pi_next_index pending)) ep pkt
                   in ([out], hm_insert (pi_endpoint_id pending) ep endpoints));
            pending = pending\<lparr>pi_next_index := pi_next_index pending + 1, pi_next_send := pi_next_send pending + int (from_millis 20)\<rparr>;
            (outs, pending, endpoints) = drain_loop wr send_ok now pending endpoints
        in (out @ outs, pending, endpoints)
      else ([], pending, endpoints))"
  by pat_completeness auto

termination
  by (relation "measure (\<lambda>(wr, send_ok, now, pending, endpoints). length (pi_packets pending) - pi_next_index pending)") auto

declare drain_loop.simps [simp del]

definition drain_dtmf_injection ::
  "'w writers \<Rightarrow> (nat \<Rightarrow> bool) \<Rightarrow> instant \<Rightarrow> pending_dtmf_injection \<Rightarrow> (endpoint_id, 'w endpoint) hash_map
     \<Rightarrow> bool \<times> wire_output list \<times> pending_dtmf_injection \<times> (endpoint_id, 'w endpoint) hash_map" where
  "drain_dtmf_injection wr send_ok now pending endpoints =
     (let (outs, pending, endpoints) = drain_loop wr send_ok now pending endpoints
      in (length (pi_packets pending) \<le> pi_next_index pending, outs, pending, endpoints))"

subsection \<open>Detection and forwarding\<close>

record endpoint_dtmf =
  em_detector :: dtmf_detector
  em_te_pt :: "u8 option"

record dtmf_event_data =
  ed_endpoint_id :: endpoint_id
  ed_digit :: char
  ed_duration_ms :: u32
  ed_sensitive :: bool

text \<open>The event channel: whether there is a client, the events it was sent, and those dropped because
  the channel was full or closed.  Key presses are not among the critical events, which have a channel
  of their own.\<close>

record event_channel =
  ec_connected :: bool
  ec_sent :: "dtmf_event_data list"
  ec_dropped :: u64

definition emit_event :: "bool \<Rightarrow> dtmf_event_data \<Rightarrow> event_channel \<Rightarrow> event_channel" where
  "emit_event room ev c =
     (if \<not> ec_connected c then c
      else if room then c\<lparr>ec_sent := ec_sent c @ [ev]\<rparr> else c\<lparr>ec_dropped := ec_dropped c + 1\<rparr>)"

definition report_event ::
  "bool \<Rightarrow> endpoint_id list \<Rightarrow> endpoint_id \<Rightarrow> dtmf_event option \<Rightarrow> event_channel \<Rightarrow> event_channel" where
  "report_event room sensitive_dtmf_endpoints eid evt c =
     (case evt of
        None \<Rightarrow> c
      | Some e \<Rightarrow> emit_event room \<lparr>ed_endpoint_id = eid, ed_digit = de_digit e, ed_duration_ms = de_duration_ms e,
          ed_sensitive = (eid \<in> set sensitive_dtmf_endpoints)\<rparr> c)"

definition event_clock_of :: "(endpoint_id, 'w endpoint) hash_map \<Rightarrow> endpoint_id \<Rightarrow> u32" where
  "event_clock_of endpoints eid =
     (case hm_get endpoints eid of Some ep \<Rightarrow> Endpoint_telephone_event_clock_rate ep | None \<Rightarrow> 8000)"

definition detect_dtmf ::
  "instant \<Rightarrow> bool \<Rightarrow> endpoint_id list \<Rightarrow> (endpoint_id, 'w endpoint) hash_map \<Rightarrow> routed_rtp_packet
     \<Rightarrow> (endpoint_id, endpoint_dtmf) hash_map \<times> event_channel \<Rightarrow> (endpoint_id, endpoint_dtmf) hash_map \<times> event_channel" where
  "detect_dtmf now room sensitive_dtmf_endpoints endpoints pkt = (\<lambda>(dtmf_state, c).
     (case hm_get dtmf_state (pk_source_endpoint_id pkt) of
        None \<Rightarrow> (dtmf_state, c)
      | Some ds \<Rightarrow>
          let (evt, d) = DtmfDetector_process (em_detector ds) now (pk_payload pkt) (pk_timestamp pkt)
                (event_clock_of endpoints (pk_source_endpoint_id pkt))
          in (hm_insert (pk_source_endpoint_id pkt) (ds\<lparr>em_detector := d\<rparr>) dtmf_state,
              report_event room sensitive_dtmf_endpoints (pk_source_endpoint_id pkt) evt c)))"

text \<open>The product of a timestamp and a clock rate fits the 64-bit arithmetic of the code.\<close>

definition forwarded_event :: "routed_rtp_packet \<Rightarrow> u8 \<Rightarrow> u32 \<Rightarrow> u32 \<Rightarrow> routed_rtp_packet" where
  "forwarded_event pkt te_pt src_clock dst_clock =
     (let forwarded = pkt\<lparr>pk_payload_type := te_pt, pk_payload := rescale_event_duration (pk_payload pkt) src_clock dst_clock\<rparr>
      in if src_clock \<noteq> dst_clock \<and> 0 < src_clock
         then forwarded\<lparr>pk_timestamp := of_nat (unat (pk_timestamp pkt) * unat dst_clock div unat src_clock)\<rparr>
         else forwarded)"

definition forward_to ::
  "'w writers \<Rightarrow> (endpoint_id \<Rightarrow> bool) \<Rightarrow> routed_rtp_packet \<Rightarrow> u32 \<Rightarrow> endpoint_id
     \<Rightarrow> (endpoint_id \<times> wire_output) list \<times> (endpoint_id, 'w endpoint) hash_map
     \<Rightarrow> (endpoint_id \<times> wire_output) list \<times> (endpoint_id, 'w endpoint) hash_map" where
  "forward_to wr send_ok pkt src_clock dest_id = (\<lambda>(outs, endpoints).
     (case hm_get endpoints dest_id of
        None \<Rightarrow> (outs, endpoints)
      | Some dest_ep \<Rightarrow>
          (case Endpoint_telephone_event_pt dest_ep of
             None \<Rightarrow> (outs, endpoints)
           | Some te_pt \<Rightarrow>
               let forwarded = forwarded_event pkt te_pt src_clock (Endpoint_telephone_event_clock_rate dest_ep);
                   (out, dest_ep) = Endpoint_write wr (send_ok dest_id) dest_ep forwarded
               in (outs @ [(dest_id, out)], hm_insert dest_id dest_ep endpoints))))"

definition forward_dtmf ::
  "'w writers \<Rightarrow> (endpoint_id \<Rightarrow> bool) \<Rightarrow> routing_table \<Rightarrow> routed_rtp_packet \<Rightarrow> (endpoint_id, 'w endpoint) hash_map
     \<Rightarrow> (endpoint_id \<times> wire_output) list \<times> (endpoint_id, 'w endpoint) hash_map" where
  "forward_dtmf wr send_ok routing pkt endpoints =
     (case RoutingTable_destinations routing (pk_source_endpoint_id pkt) of
        None \<Rightarrow> ([], endpoints)
      | Some dests \<Rightarrow>
          fold (forward_to wr send_ok pkt (event_clock_of endpoints (pk_source_endpoint_id pkt))) dests ([], endpoints))"

text \<open>Each packet comes with the instant it is looked at, the room of the event channel and the
  outcomes of the sockets.\<close>

fun process_dtmf_packets ::
  "'w writers \<Rightarrow> endpoint_id list \<Rightarrow> routing_table \<Rightarrow> (routed_rtp_packet \<times> instant \<times> bool \<times> (endpoint_id \<Rightarrow> bool)) list
     \<Rightarrow> (endpoint_id, endpoint_dtmf) hash_map \<times> event_channel \<Rightarrow> (endpoint_id, 'w endpoint) hash_map
     \<Rightarrow> (endpoint_id \<times> wire_output) list \<times> ((endpoint_id, endpoint_dtmf) hash_map \<times> event_channel) \<times> (endpoint_id, 'w endpoint) hash_map" where
  "process_dtmf_packets wr sensitive routing [] d endpoints = ([], d, endpoints)"
| "process_dtmf_packets wr sensitive routing ((pkt, now, room, send_ok) # rest) d endpoints =
     (let d = detect_dtmf now room sensitive endpoints pkt d;
          (outs, endpoints) = forward_dtmf wr send_ok routing pkt endpoints;
          (more, d, endpoints) = process_dtmf_packets wr sensitive routing rest d endpoints
      in (outs @ more, d, endpoints))"

text \<open>The detectors are visited in the order of the hash map; the room for the event of each endpoint
  is a function of its identifier.\<close>

definition check_timeout_of ::
  "instant \<Rightarrow> (endpoint_id \<Rightarrow> bool) \<Rightarrow> endpoint_id list \<Rightarrow> (endpoint_id, 'w endpoint) hash_map \<Rightarrow> endpoint_id \<times> endpoint_dtmf
     \<Rightarrow> (endpoint_id, endpoint_dtmf) hash_map \<times> event_channel \<Rightarrow> (endpoint_id, endpoint_dtmf) hash_map \<times> event_channel" where
  "check_timeout_of now room sensitive endpoints = (\<lambda>(eid, ds) (dtmf_state, c).
     (let (evt, d) = DtmfDetector_check_timeout (em_detector ds) now (event_clock_of endpoints eid)
      in (dtmf_state @ [(eid, ds\<lparr>em_detector := d\<rparr>)], report_event (room eid) sensitive eid evt c)))"

definition check_dtmf_timeouts ::
  "instant \<Rightarrow> (endpoint_id \<Rightarrow> bool) \<Rightarrow> endpoint_id list \<Rightarrow> (endpoint_id, 'w endpoint) hash_map
     \<Rightarrow> (endpoint_id, endpoint_dtmf) hash_map \<times> event_channel \<Rightarrow> (endpoint_id, endpoint_dtmf) hash_map \<times> event_channel" where
  "check_dtmf_timeouts now room sensitive endpoints = (\<lambda>(dtmf_state, c).
     fold (check_timeout_of now room sensitive endpoints) dtmf_state ([], c))"

definition has_active_dtmf :: "(endpoint_id, endpoint_dtmf) hash_map \<Rightarrow> bool" where
  "has_active_dtmf dtmf_state = list_ex (\<lambda>(_, ds). DtmfDetector_has_active_digit (em_detector ds)) dtmf_state"

definition classify_dtmf :: "routed_rtp_packet \<Rightarrow> (endpoint_id, endpoint_dtmf) hash_map \<Rightarrow> bool" where
  "classify_dtmf pkt dtmf_state =
     is_telephone_event_pt (pk_payload_type pkt)
       (Option.bind (hm_get dtmf_state (pk_source_endpoint_id pkt)) em_te_pt)"

section \<open>Draining an injection\<close>

text \<open>What an RTP endpoint puts out for a list of packets.\<close>

definition written :: "'w writers \<Rightarrow> rtp_endpoint \<Rightarrow> routed_rtp_packet list \<Rightarrow> wire_output list" where
  "written wr e ps = map (\<lambda>r. case snd r of None \<Rightarrow> Nothing_Sent | Some (a, d) \<Rightarrow> Datagram a d)
     (results_with (RtpEndpoint_write_rtp (wr_lib wr) True) e ps)"

lemma written_append:
  "written wr e (ps @ qs) = written wr e ps @ written wr (state_with (RtpEndpoint_write_rtp (wr_lib wr) True) e ps) qs"
  by (induction ps arbitrary: e) (simp_all add: written_def)

lemma state_with_append: "state_with f s (ps @ qs) = state_with f (state_with f s ps) qs"
  by (induction ps arbitrary: s) simp_all

abbreviation frame_time :: int where
  "frame_time \<equiv> int (from_millis 20)"

text \<open>A drain sends the packets that are due, and no other.\<close>

lemma drain_rtp:
  assumes "hm_get endpoints (pi_endpoint_id pending) = Some (Rtp e)"
    and "drain_loop wr (\<lambda>_. True) now pending endpoints = (outs, pending', endpoints')"
  shows "\<exists>k. pending' = pending\<lparr>pi_next_index := pi_next_index pending + k, pi_next_send := pi_next_send pending + frame_time * int k\<rparr>
      \<and> outs = written wr e (take k (drop (pi_next_index pending) (pi_packets pending)))
      \<and> hm_get endpoints' (pi_endpoint_id pending) = Some (Rtp (state_with (RtpEndpoint_write_rtp (wr_lib wr) True) e
          (take k (drop (pi_next_index pending) (pi_packets pending)))))
      \<and> (0 < k \<longrightarrow> pi_next_index pending + k \<le> length (pi_packets pending) \<and> pi_next_send pending + frame_time * int (k - 1) \<le> now)
      \<and> (length (pi_packets pending) \<le> pi_next_index pending + k \<or> now < pi_next_send pending + frame_time * int k)"
  using assms
proof (induction "length (pi_packets pending) - pi_next_index pending" arbitrary: pending endpoints e outs rule: less_induct)
  case less
  let ?i = "pi_next_index pending" and ?ps = "pi_packets pending"
  show ?case
  proof (cases "?i < length ?ps \<and> pi_next_send pending \<le> now")
    case False
    with less.prems show ?thesis by (intro exI [of _ 0]) (auto simp: drain_loop.simps [of wr _ now pending] written_def)
  next
    case True
    obtain r sent e' where w: "RtpEndpoint_write_rtp (wr_lib wr) True e (?ps ! ?i) = ((r, sent), e')" by (metis prod.collapse)
    let ?out = "case sent of None \<Rightarrow> Nothing_Sent | Some (a, d) \<Rightarrow> Datagram a d"
    let ?p = "pending\<lparr>pi_next_index := ?i + 1, pi_next_send := pi_next_send pending + frame_time\<rparr>"
    let ?eps = "hm_insert (pi_endpoint_id pending) (Rtp e') endpoints"
    obtain outs' where rec: "drain_loop wr (\<lambda>_. True) now ?p ?eps = (outs', pending', endpoints')" "outs = ?out # outs'"
      using less.prems True w
      by (auto simp: drain_loop.simps [of wr _ now pending] Endpoint_write_def Let_def split: prod.splits)
    have lt: "length (pi_packets ?p) - pi_next_index ?p < length ?ps - ?i" using True by (simp add: diff_less_mono2)
    have drop: "drop ?i ?ps = ?ps ! ?i # drop (?i + 1) ?ps" using True by (simp add: Cons_nth_drop_Suc)
    have get: "hm_get ?eps (pi_endpoint_id ?p) = Some (Rtp e')" by simp
    have step: "\<exists>k. pending' = ?p\<lparr>pi_next_index := ?i + 1 + k, pi_next_send := pi_next_send pending + frame_time + frame_time * int k\<rparr>
      \<and> outs' = written wr e' (take k (drop (?i + 1) ?ps))
      \<and> hm_get endpoints' (pi_endpoint_id pending) = Some (Rtp (state_with (RtpEndpoint_write_rtp (wr_lib wr) True) e'
          (take k (drop (?i + 1) ?ps))))
      \<and> (0 < k \<longrightarrow> ?i + 1 + k \<le> length ?ps \<and> pi_next_send pending + frame_time + frame_time * int (k - 1) \<le> now)
      \<and> (length ?ps \<le> ?i + 1 + k \<or> now < pi_next_send pending + frame_time + frame_time * int k)"
      using less.hyps [OF lt get rec(1)] by simp
    then obtain k where k: "pending' = ?p\<lparr>pi_next_index := ?i + 1 + k, pi_next_send := pi_next_send pending + frame_time + frame_time * int k\<rparr>"
      "outs' = written wr e' (take k (drop (?i + 1) ?ps))"
      "hm_get endpoints' (pi_endpoint_id pending) = Some (Rtp (state_with (RtpEndpoint_write_rtp (wr_lib wr) True) e'
          (take k (drop (?i + 1) ?ps))))"
      "0 < k \<longrightarrow> ?i + 1 + k \<le> length ?ps \<and> pi_next_send pending + frame_time + frame_time * int (k - 1) \<le> now"
      "length ?ps \<le> ?i + 1 + k \<or> now < pi_next_send pending + frame_time + frame_time * int k"
      by blast
    show ?thesis
      by (rule exI [of _ "Suc k"]) (use k rec(2) w True in \<open>cases k; auto simp: drop written_def algebra_simps\<close>)
  qed
qed

text \<open>The ticks of a session until the injection is done.\<close>

fun drain_run ::
  "'w writers \<Rightarrow> instant list \<Rightarrow> pending_dtmf_injection \<Rightarrow> (endpoint_id, 'w endpoint) hash_map
     \<Rightarrow> wire_output list \<times> pending_dtmf_injection" where
  "drain_run wr [] pending endpoints = ([], pending)"
| "drain_run wr (now # nows) pending endpoints =
     (case drain_dtmf_injection wr (\<lambda>_. True) now pending endpoints of
        (finished, outs, pending, endpoints) \<Rightarrow>
          if finished then (outs, pending)
          else let (more, pending) = drain_run wr nows pending endpoints in (outs @ more, pending))"

lemma drain_run_all:
  assumes "nows \<noteq> []" "pi_next_send pending = t0 + frame_time * int (pi_next_index pending)"
    and "hm_get endpoints (pi_endpoint_id pending) = Some (Rtp e)"
    and "t0 + frame_time * (int (length (pi_packets pending)) - 1) \<le> last nows"
    and "pi_next_index pending \<le> length (pi_packets pending)"
  shows "fst (drain_run wr nows pending endpoints) = written wr e (drop (pi_next_index pending) (pi_packets pending))
    \<and> pi_next_index (snd (drain_run wr nows pending endpoints)) = length (pi_packets pending)"
  using assms
proof (induction nows arbitrary: pending endpoints e)
  case (Cons now nows)
  let ?i = "pi_next_index pending" and ?ps = "pi_packets pending"
  obtain outs p' eps' where d: "drain_loop wr (\<lambda>_. True) now pending endpoints = (outs, p', eps')" by (metis prod_cases3)
  obtain k where k: "p' = pending\<lparr>pi_next_index := ?i + k, pi_next_send := pi_next_send pending + frame_time * int k\<rparr>"
    "outs = written wr e (take k (drop ?i ?ps))"
    "hm_get eps' (pi_endpoint_id pending) = Some (Rtp (state_with (RtpEndpoint_write_rtp (wr_lib wr) True) e (take k (drop ?i ?ps))))"
    "0 < k \<longrightarrow> ?i + k \<le> length ?ps" "length ?ps \<le> ?i + k \<or> now < pi_next_send pending + frame_time * int k"
    using drain_rtp [OF Cons.prems(3) d] by blast
  have le: "?i + k \<le> length ?ps" using k(4) Cons.prems(5) by (cases "k = 0") auto
  show ?case
  proof (cases "length ?ps \<le> ?i + k")
    case True
    with le have "?i + k = length ?ps" by simp
    with k d show ?thesis by (simp add: drain_dtmf_injection_def)
  next
    case False
    let ?w = "RtpEndpoint_write_rtp (wr_lib wr) True"
    have now: "now < t0 + frame_time * (int ?i + int k)" using k(5) False Cons.prems(2) by (simp add: algebra_simps)
    moreover have "frame_time * (int ?i + int k) \<le> frame_time * (int (length ?ps) - 1)"
      using False by (intro mult_left_mono) simp_all
    ultimately have "nows \<noteq> []" using Cons.prems(4) by (cases nows) simp_all
    moreover have "pi_next_send p' = t0 + frame_time * int (pi_next_index p')"
      using Cons.prems(2) by (simp add: k(1) algebra_simps)
    moreover have "hm_get eps' (pi_endpoint_id p') = Some (Rtp (state_with ?w e (take k (drop ?i ?ps))))" by (simp add: k(1,3))
    moreover have "t0 + frame_time * (int (length (pi_packets p')) - 1) \<le> last nows" "pi_next_index p' \<le> length (pi_packets p')"
      using Cons.prems(4) \<open>nows \<noteq> []\<close> le by (simp_all add: k(1))
    ultimately have "fst (drain_run wr nows p' eps') = written wr (state_with ?w e (take k (drop ?i ?ps))) (drop (?i + k) ?ps)"
      "pi_next_index (snd (drain_run wr nows p' eps')) = length ?ps"
      using Cons.IH [of p' eps'] by (simp_all add: k(1))
    moreover have "drop ?i ?ps = take k (drop ?i ?ps) @ drop (?i + k) ?ps"
      by (metis add.commute append_take_drop_id drop_drop)
    then have "written wr e (drop ?i ?ps) = written wr e (take k (drop ?i ?ps))
        @ written wr (state_with ?w e (take k (drop ?i ?ps))) (drop (?i + k) ?ps)"
      by (metis written_append)
    ultimately show ?thesis using False d k(1,2) by (simp add: drain_dtmf_injection_def split_beta)
  qed
qed simp

lemma map_enumerate: "map (\<lambda>(i, p). f p) (enumerate n xs) = map f xs"
  by (induction xs arbitrary: n) simp_all

lemma injection_packets:
  assumes "build_dtmf_injection random_ts random_ssrc random_seq t0 endpoints None eid digit dur_ms volume = Inr pending"
    and "hm_get endpoints eid = Some (Rtp e)" "ep_telephone_event_pt e = Some te"
  obtains pkts where "DtmfGenerator_generate digit dur_ms volume (ep_telephone_event_clock_rate e) 20 = Some pkts"
    "pi_endpoint_id pending = eid" "pi_next_index pending = 0" "pi_next_send pending = t0"
    "map pk_payload (pi_packets pending) = map dp_payload pkts" "map pk_marker (pi_packets pending) = map dp_marker pkts"
    "\<forall>p \<in> set (pi_packets pending). pk_payload_type p = te"
proof -
  obtain pkts where pkts: "DtmfGenerator_generate digit dur_ms volume (ep_telephone_event_clock_rate e) 20 = Some pkts"
    "pending = \<lparr>pi_endpoint_id = eid,
        pi_packets = map (\<lambda>(i, p). \<lparr>pk_source_endpoint_id = eid, pk_payload_type = te,
          pk_sequence_number = random_seq + of_nat i, pk_timestamp = random_ts, pk_ssrc = random_ssrc,
          pk_marker = dp_marker p, pk_payload = dp_payload p\<rparr>) (enumerate 0 pkts),
        pi_next_index = 0, pi_next_send = t0\<rparr>"
    using assms by (auto simp: build_dtmf_injection_def split: option.splits)
  show thesis
    by (rule that [OF pkts(1)]) (auto simp: pkts(2) comp_def case_prod_unfold map_enumerate [unfolded case_prod_unfold])
qed

section \<open>Forwarding\<close>

definition event_target :: "(endpoint_id, 'w endpoint) hash_map \<Rightarrow> endpoint_id \<Rightarrow> bool" where
  "event_target endpoints d = (case hm_get endpoints d of None \<Rightarrow> False | Some ep \<Rightarrow> Endpoint_telephone_event_pt ep \<noteq> None)"

text \<open>What a destination is written, and the state that leaves it in.\<close>

definition forwarded_write ::
  "'w writers \<Rightarrow> (endpoint_id \<Rightarrow> bool) \<Rightarrow> routed_rtp_packet \<Rightarrow> u32 \<Rightarrow> (endpoint_id, 'w endpoint) hash_map \<Rightarrow> endpoint_id
     \<Rightarrow> wire_output \<times> 'w endpoint" where
  "forwarded_write wr send_ok pkt src_clock endpoints d =
     (let ep = the (hm_get endpoints d)
      in Endpoint_write wr (send_ok d) ep
           (forwarded_event pkt (the (Endpoint_telephone_event_pt ep)) src_clock (Endpoint_telephone_event_clock_rate ep)))"

lemma forward_to_eq:
  "forward_to wr send_ok pkt src_clock d (outs, endpoints) =
     (if event_target endpoints d
      then (outs @ [(d, fst (forwarded_write wr send_ok pkt src_clock endpoints d))],
            hm_insert d (snd (forwarded_write wr send_ok pkt src_clock endpoints d)) endpoints)
      else (outs, endpoints))"
  by (auto simp: forward_to_def event_target_def forwarded_write_def Let_def split: option.split prod.split)

lemma forward_fold:
  assumes "distinct ds" "fold (forward_to wr send_ok pkt src_clock) ds (outs, endpoints) = (outs', endpoints')"
  shows "outs' = outs @ map (\<lambda>d. (d, fst (forwarded_write wr send_ok pkt src_clock endpoints d))) (filter (event_target endpoints) ds)
    \<and> (\<forall>eid. hm_get endpoints' eid = (if eid \<in> set ds \<and> event_target endpoints eid
         then Some (snd (forwarded_write wr send_ok pkt src_clock endpoints eid)) else hm_get endpoints eid))"
  using assms
proof (induction ds arbitrary: outs endpoints)
  case (Cons d ds)
  let ?w = "forwarded_write wr send_ok pkt src_clock"
  show ?case
  proof (cases "event_target endpoints d")
    case False
    with Cons.IH [of outs endpoints] Cons.prems show ?thesis by (auto simp: forward_to_eq)
  next
    case True
    let ?eps = "hm_insert d (snd (?w endpoints d)) endpoints"
    have same: "?w ?eps x = ?w endpoints x" "event_target ?eps x = event_target endpoints x" if "x \<in> set ds" for x
      using that Cons.prems(1) by (auto simp: forwarded_write_def event_target_def)
    have "fold (forward_to wr send_ok pkt src_clock) ds (outs @ [(d, fst (?w endpoints d))], ?eps) = (outs', endpoints')"
      using Cons.prems(2) True by (simp add: forward_to_eq)
    note IH = Cons.IH [OF _ this]
    have f: "filter (event_target ?eps) ds = filter (event_target endpoints) ds"
      using same(2) by (intro filter_cong) simp_all
    have m: "map (\<lambda>d. (d, fst (?w ?eps d))) (filter (event_target endpoints) ds)
        = map (\<lambda>d. (d, fst (?w endpoints d))) (filter (event_target endpoints) ds)"
      using same(1) by (intro map_cong) simp_all
    show ?thesis using IH Cons.prems(1) True same unfolding f m by auto
  qed
qed simp

text \<open>The packets of one event on the wire.\<close>

lemma written_event:
  assumes "ep_srtp_tx e = None" "ep_remote_rtp_addr e = Some b" "ep_remote_ssrc e \<noteq> None"
    and "ps \<noteq> []" "\<forall>p \<in> set ps. is_event e p \<and> pk_payload_type p = te" "map pk_marker ps = True # replicate (length ps - 1) False"
  obtains ts where "written wr e ps
    = map (\<lambda>i. Datagram b (RtpHeader_build te (ep_seq_no e + of_nat i) ts (ep_our_ssrc e) (i = 0) (map pk_payload ps ! i)))
        [0..<length (map pk_payload ps)]"
proof -
  obtain p0 ps' where ps: "ps = p0 # ps'" using assms(4) by (cases ps) auto
  have p0: "is_event e p0" "pk_marker p0" using assms(5,6) by (simp_all add: ps)
  have "map pk_marker ps' = replicate (length ps') False" using assms(6) by (simp add: ps)
  then have unmarked: "\<forall>p \<in> set ps'. \<not> pk_marker p" by (metis in_set_replicate list.set_map imageI)
  let ?ts = "fst (fst (outbound_timestamp e p0))"
  note first = event_first [OF p0]
  have stamp: "stamps e ps ! i = (?ts, i = 0)" if "i < length ps" for i
  proof (cases i)
    case 0
    with first(1) show ?thesis by (simp add: ps)
  next
    case (Suc j)
    have "stamps (counted e p0) ps' ! j = (?ts, False)"
      using that Suc assms(5) unmarked first(2) by (intro event_held) (simp_all add: ps)
    with Suc show ?thesis by (simp add: ps)
  qed
  have pt: "pk_payload_type (ps ! i) = te" if "i < length ps" for i using that assms(5) by simp
  have "written wr e ps = map (Datagram b) (plain_packets e ps)"
    by (simp add: written_def write_plain [OF assms(1-3)] comp_def)
  also have "\<dots> = map (\<lambda>i. Datagram b (plain_packets e ps ! i)) [0..<length ps]"
    by (intro nth_equalityI) simp_all
  finally show thesis
    by (intro that [of ?ts]) (simp add: plain_packets_nth stamp pt)
qed

section \<open>Properties\<close>

text \<open>C10. A digit injected into a call is heard by the peer as one key press: with ticks that reach the
  last packet's time, all packets of the injection are written to the peer in order, with consecutive
  sequence numbers, one timestamp and only the first marked, and a detector that receives them reports
  exactly one event, the injected digit with its duration.\<close>

theorem injected_digit_delivered:
  assumes "build_dtmf_injection random_ts random_ssrc random_seq t0 endpoints None eid digit dur_ms volume = Inr pending"
    and "hm_get endpoints eid = Some (Rtp e)" "ep_telephone_event_pt e = Some te"
    and "ep_srtp_tx e = None" "ep_remote_rtp_addr e = Some b" "ep_remote_ssrc e \<noteq> None"
    and "0 < dur_ms" "1000 dvd unat (ep_telephone_event_clock_rate e)"
      "unat dur_ms * unat (ep_telephone_event_clock_rate e) \<le> 65535 * 1000"
    and "nows \<noteq> []" "t0 + frame_time * (int (length (pi_packets pending)) - 1) \<le> last nows"
    and "length arrivals = length (pi_packets pending)" "successively (\<lambda>s t. t - s \<le> int DTMF_TIMEOUT) arrivals"
  shows "\<exists>ts payloads c. length payloads = length (pi_packets pending)
    \<and> fst (drain_run wr nows pending endpoints)
      = map (\<lambda>i. Datagram b (RtpHeader_build te (ep_seq_no e + of_nat i) ts (ep_our_ssrc e) (i = 0) (payloads ! i)))
          [0..<length payloads]
    \<and> fst (detect_all DtmfDetector_new ts (ep_telephone_event_clock_rate e) (zip arrivals payloads))
      = [\<lparr>de_digit = c, de_duration_ms = dur_ms, de_volume = volume AND 0x3F\<rparr>]
    \<and> digit_to_event_id c = digit_to_event_id digit"
proof -
  obtain pkts where pkts: "DtmfGenerator_generate digit dur_ms volume (ep_telephone_event_clock_rate e) 20 = Some pkts"
    "pi_endpoint_id pending = eid" "pi_next_index pending = 0" "pi_next_send pending = t0"
    "map pk_payload (pi_packets pending) = map dp_payload pkts" "map pk_marker (pi_packets pending) = map dp_marker pkts"
    "\<forall>p \<in> set (pi_packets pending). pk_payload_type p = te"
    by (rule injection_packets [OF assms(1-3)])
  have len: "length pkts = length (pi_packets pending)" using pkts(5) by (metis length_map)
  have det: "\<exists>c. digit_to_event_id c = digit_to_event_id digit
    \<and> fst (detect_all DtmfDetector_new ts (ep_telephone_event_clock_rate e) (zip arrivals (map dp_payload pkts)))
        = [\<lparr>de_digit = c, de_duration_ms = dur_ms, de_volume = volume AND 0x3F\<rparr>]
    \<and> map dp_marker pkts = True # replicate (length pkts - 1) False" for ts
    using assms(12,13) len by (intro generated_detected [OF pkts(1) assms(7) _ _ assms(8,9)]) simp_all
  then have markers: "map pk_marker (pi_packets pending) = True # replicate (length (pi_packets pending) - 1) False"
    using pkts(6) len by auto
  then have "pi_packets pending \<noteq> []" by auto
  moreover have "\<forall>p \<in> set (pi_packets pending). is_event e p \<and> pk_payload_type p = te"
    using pkts(7) assms(3) by (auto simp: is_event_def)
  ultimately obtain ts where w: "written wr e (pi_packets pending)
    = map (\<lambda>i. Datagram b (RtpHeader_build te (ep_seq_no e + of_nat i) ts (ep_our_ssrc e) (i = 0) (map pk_payload (pi_packets pending) ! i)))
        [0..<length (map pk_payload (pi_packets pending))]"
    using written_event [OF assms(4-6) _ _ markers] by blast
  have run: "fst (drain_run wr nows pending endpoints) = written wr e (pi_packets pending)"
    using drain_run_all [OF assms(10), of pending t0 endpoints e wr] assms(2,11) pkts(2-4) by simp
  obtain c where "digit_to_event_id c = digit_to_event_id digit"
    "fst (detect_all DtmfDetector_new ts (ep_telephone_event_clock_rate e) (zip arrivals (map pk_payload (pi_packets pending))))
        = [\<lparr>de_digit = c, de_duration_ms = dur_ms, de_volume = volume AND 0x3F\<rparr>]"
    using det [of ts] unfolding pkts(5) by blast
  then show ?thesis unfolding run w
    by (intro exI [of _ ts] exI [of _ "map pk_payload (pi_packets pending)"] exI [of _ c]) (simp only: length_map)
qed


section \<open>Witnesses\<close>

definition demo_session :: "(endpoint_id, unit endpoint) hash_map" where
  "demo_session = [(1, Rtp (demo_endpoint 1 2 None)), (2, WebRtc ()), (3, Tone)]"

definition demo_writers :: "unit writers" where
  "demo_writers = \<lparr>wr_lib = demo_crypto, wr_webrtc = \<lambda>w p. (Inr (), w)\<rparr>"

theorem injected_digit_delivered_witness:
  "\<exists>pending. build_dtmf_injection 9 8 7 0 demo_session None 1 (CHR ''5'') 40 10 = Inr pending
    \<and> (\<exists>ts payloads c. length payloads = 4
      \<and> fst (drain_run demo_writers [0, 25000000, 70000000] pending demo_session)
        = map (\<lambda>i. Datagram (demo_addr 2) (RtpHeader_build 101 (65535 + of_nat i) ts 7 (i = 0) (payloads ! i))) [0..<length payloads]
      \<and> fst (detect_all DtmfDetector_new ts 8000 (zip [0, 20000000, 40000000, 60000000] payloads))
        = [\<lparr>de_digit = c, de_duration_ms = 40, de_volume = 10\<rparr>] \<and> digit_to_event_id c = Some 5)"
proof -
  let ?e = "demo_endpoint 1 2 None"
  have get: "hm_get demo_session 1 = Some (Rtp ?e)" by (simp add: demo_session_def hm_get_def)
  have e: "ep_telephone_event_pt ?e = Some 101" "ep_telephone_event_clock_rate ?e = 8000"
    by (simp_all add: demo_endpoint_def RtpEndpoint_new_def)
  obtain pending where p: "build_dtmf_injection 9 8 7 0 demo_session None 1 (CHR ''5'') 40 10 = Inr pending"
    "length (pi_packets pending) = 4"
    by (simp add: build_dtmf_injection_def get e DtmfGenerator_generate_def digit_to_event_id_def generate_turn_def
        upt_rec numeral_3_eq_3)
  have "successively (\<lambda>s t. t - s \<le> int DTMF_TIMEOUT) [0, 20000000, 40000000, 60000000]"
    by (simp add: DTMF_TIMEOUT_def from_millis_def)
  with injected_digit_delivered [OF p(1) get e(1) demo_endpoint_simps(1-3) [where cx = None and h = 1 and t = 2], of "[0, 25000000, 70000000]" "[0, 20000000, 40000000, 60000000]" demo_writers]
    p e show ?thesis by (intro exI [of _ pending]) (simp add: from_millis_def digit_to_event_id_def)
qed


end
