(* ===== verification/Spec2Isabelle.thy ===== *)
theory Spec2Isabelle
  imports Pcm_Frames Dtmf Srtcp Rtcp_Packets Playout Routing Stats Mixer Rtp_Offer_Answer
    Transcode Session_Dtmf
begin

text \<open>
  A verification development for rtpbridge, a media server that relays, mixes, records and
  plays RTP audio between endpoints (\<open>src/src\<close>).
\<close>

end
